(* ===== verification/Drift_Prelude.thy ===== *)
theory Drift_Prelude
  imports Complex_Main "HOL-Library.AList" "HOL-Library.Char_ord" "HOL-Library.List_Lexorder"
    "HOL-Library.Sublist" "HOL-Library.Multiset"
begin

text \<open>
  Shared vocabulary of the development: the parts of Python's string, dict and sorting
  behaviour that the modelled modules use, with the lemmas that carry the component proofs.

  A Python \<open>str\<close> is the list of bytes of its UTF-8 encoding. UTF-8 order is code point order,
  so sorting agrees with Python; \<open>len\<close> and slices count code points (\<open>py_len\<close>, \<open>py_take\<close>).
  Case mapping and stripping are exact on ASCII text. A \<open>dict\<close> with string keys is an
  association list in insertion order with distinct keys.
\<close>

named_theorems dict_simps
named_theorems str_simps

section \<open>Errors\<close>

text \<open>The exceptions the modelled code can raise, as values.\<close>

datatype py_error =
    TypeError string
  | ValueError string
  | KeyError string
  | RuntimeError string
  | IntegrityError string
  | HTTPException int string

text \<open>Sequencing of fallible steps, and a fallible list comprehension.\<close>

definition bind_err :: "'e + 'a \<Rightarrow> ('a \<Rightarrow> 'e + 'b) \<Rightarrow> 'e + 'b" where
  "bind_err r f = (case r of Inl e \<Rightarrow> Inl e | Inr x \<Rightarrow> f x)"

lemma bind_err_simps [simp]:
  "bind_err (Inl e) f = Inl e" "bind_err (Inr x) f = f x"
  by (simp_all add: bind_err_def)

lemma bind_err_eq_Inr: "bind_err r f = Inr y \<longleftrightarrow> (\<exists>x. r = Inr x \<and> f x = Inr y)"
  by (cases r) auto

fun map_err :: "('a \<Rightarrow> 'e + 'b) \<Rightarrow> 'a list \<Rightarrow> 'e + 'b list" where
  "map_err f [] = Inr []"
| "map_err f (x # xs) = bind_err (f x) (\<lambda>y. bind_err (map_err f xs) (\<lambda>ys. Inr (y # ys)))"

lemma map_err_Inr:
  "map_err f xs = Inr ys \<Longrightarrow> list_all2 (\<lambda>x y. f x = Inr y) xs ys"
  by (induction xs arbitrary: ys) (auto simp: bind_err_eq_Inr)

lemma map_err_all_Inr: "(\<And>x. x \<in> set xs \<Longrightarrow> f x = Inr (g x)) \<Longrightarrow> map_err f xs = Inr (map g xs)"
  by (induction xs) auto

lemma map_err_Inr_D:
  assumes "map_err f xs = Inr ys"
  shows "set ys = {y. \<exists>x \<in> set xs. f x = Inr y}"
  using map_err_Inr [OF assms]
  by (induction xs ys rule: list_all2_induct) auto

section \<open>Dictionaries\<close>

type_synonym 'a pydict = "(string \<times> 'a) list"

abbreviation dict_set :: "string \<Rightarrow> 'a \<Rightarrow> 'a pydict \<Rightarrow> 'a pydict" where
  "dict_set \<equiv> AList.update"

abbreviation keys :: "'a pydict \<Rightarrow> string list" where
  "keys d \<equiv> map fst d"

text \<open>\<open>d.update(e)\<close>: every item of \<open>e\<close> is stored in turn.\<close>

definition dict_update :: "'a pydict \<Rightarrow> 'a pydict \<Rightarrow> 'a pydict" where
  "dict_update d e = fold (\<lambda>(k, v). dict_set k v) e d"

text \<open>\<open>sorted(d.items(), key=lambda kv: kv[0])\<close>, and \<open>sorted(s)\<close> of a set given by its elements.\<close>

definition sorted_items :: "'a pydict \<Rightarrow> 'a pydict" where
  "sorted_items d = sort_key fst d"

definition sorted_set :: "'a::linorder list \<Rightarrow> 'a list" where
  "sorted_set xs = sort (remdups xs)"

lemma dict_update_Nil [dict_simps, simp]: "dict_update d [] = d"
  by (simp add: dict_update_def)

lemma dict_update_Cons [dict_simps]:
  "dict_update d ((k, v) # e) = dict_update (dict_set k v d) e"
  by (simp add: dict_update_def)

lemma dict_update_append: "dict_update d (e @ e') = dict_update (dict_update d e) e'"
  by (simp add: dict_update_def)

lemma keys_dict_set [simp]: "fst ` set (dict_set k v d) = insert k (fst ` set d)"
  by (induction d) auto

lemma set_dict_set: "set (dict_set k v d) \<subseteq> insert (k, v) (set d)"
  by (induction d) auto

lemma keys_dict_update [simp]: "fst ` set (dict_update d e) = fst ` set d \<union> fst ` set e"
proof (induction e arbitrary: d)
  case (Cons kv e)
  obtain k v where kv: "kv = (k, v)" by (cases kv)
  show ?case
    unfolding kv dict_update_Cons Cons.IH keys_dict_set by auto
qed simp

lemma set_dict_update: "set (dict_update d e) \<subseteq> set d \<union> set e"
proof (induction e arbitrary: d)
  case (Cons kv e)
  obtain k v where kv: "kv = (k, v)" by (cases kv)
  show ?case
    using Cons [of "dict_set k v d"] set_dict_set [of k v d] by (auto simp: kv dict_update_Cons)
qed simp

lemma distinct_dict_update [simp]:
  "distinct (keys d) \<Longrightarrow> distinct (keys (dict_update d e))"
  by (induction e arbitrary: d) (auto simp: dict_update_Cons distinct_update)

text \<open>A loop of \<open>d.update(e)\<close> over a list of dicts.\<close>

lemma distinct_foldl_update [simp]:
  "distinct (keys d) \<Longrightarrow> distinct (keys (foldl dict_update d es))"
  by (induction es arbitrary: d) simp_all

lemma keys_foldl_update [simp]:
  "fst ` set (foldl dict_update d es) = fst ` set d \<union> (\<Union>e \<in> set es. fst ` set e)"
  by (induction es arbitrary: d) auto

lemma set_foldl_update: "set (foldl dict_update d es) \<subseteq> set d \<union> (\<Union>e \<in> set es. set e)"
proof (induction es arbitrary: d)
  case (Cons e es)
  show ?case using Cons [of "dict_update d e"] set_dict_update [of d e] by auto
qed simp

lemma map_of_dict_update:
  "distinct (keys e) \<Longrightarrow> map_of (dict_update d e) = map_of d ++ map_of e"
proof (induction e arbitrary: d)
  case (Cons kv e)
  obtain k v where [simp]: "kv = (k, v)" by (cases kv)
  from Cons.prems have e: "distinct (keys e)" and k: "map_of e k = None"
    by (auto simp: map_of_eq_None_iff)
  have "map_of (dict_update d (kv # e)) = map_of (dict_set k v d) ++ map_of e"
    by (simp only: dict_update_Cons Cons.IH [OF e] \<open>kv = (k, v)\<close>)
  also have "\<dots> = (map_of d)(k \<mapsto> v) ++ map_of e"
    by (simp only: update_conv')
  also have "\<dots> = map_of d ++ map_of (kv # e)"
    using k by (auto simp: fun_eq_iff map_add_def split: option.splits)
  finally show ?case .
qed simp

lemma map_of_foldl_absent:
  "(\<And>e. e \<in> set es \<Longrightarrow> distinct (keys e) \<and> map_of e q = None) \<Longrightarrow>
   map_of (foldl dict_update d es) q = map_of d q"
proof (induction es arbitrary: d)
  case (Cons e es)
  have "map_of (foldl dict_update (dict_update d e) es) q = map_of (dict_update d e) q"
    by (rule Cons.IH) (use Cons.prems in auto)
  also have "\<dots> = map_of d q"
    using Cons.prems [of e] by (simp add: map_of_dict_update map_add_def)
  finally show ?case by simp
qed simp

lemma map_of_foldl_unique:
  assumes "\<And>x. x \<in> set (as @ b # cs) \<Longrightarrow> distinct (keys x)"
    and "\<And>x. x \<in> set as \<union> set cs \<Longrightarrow> map_of x q = None"
  shows "map_of (foldl dict_update d (as @ b # cs)) q =
    (case map_of b q of None \<Rightarrow> map_of d q | Some v \<Rightarrow> Some v)"
proof -
  have 1: "map_of (foldl dict_update d as) q = map_of d q"
    by (rule map_of_foldl_absent) (use assms in auto)
  have "map_of (foldl dict_update d (as @ b # cs)) q
      = map_of (foldl dict_update (dict_update (foldl dict_update d as) b) cs) q" by simp
  also have "\<dots> = map_of (dict_update (foldl dict_update d as) b) q"
    by (rule map_of_foldl_absent) (use assms in auto)
  also have "\<dots> = (case map_of b q of None \<Rightarrow> map_of d q | Some v \<Rightarrow> Some v)"
    using assms(1) [of b] 1 by (simp add: map_of_dict_update map_add_def split: option.splits)
  finally show ?thesis .
qed

lemma set_sorted_items [simp, dict_simps]: "set (sorted_items d) = set d"
  by (simp add: sorted_items_def)

lemma sorted_items_Nil [simp]: "sorted_items [] = []"
  by (simp add: sorted_items_def)

lemma sorted_items_eq_Nil [simp]: "sorted_items d = [] \<longleftrightarrow> d = []"
  by (metis set_empty set_sorted_items)

lemma keys_sorted_items [simp]: "sorted (keys (sorted_items d))"
  by (simp add: sorted_items_def)

lemma mset_sorted_items [simp]: "mset (sorted_items d) = mset d"
  by (simp add: sorted_items_def)

lemma distinct_keys_mset:
  assumes "mset d = mset e" shows "distinct (keys d) = distinct (keys e)"
proof -
  have "mset (keys d) = mset (keys e)" using assms by simp
  then show ?thesis by (metis mset_eq_imp_distinct_iff)
qed

lemma distinct_sorted_items [simp]: "distinct (keys (sorted_items d)) = distinct (keys d)"
  by (rule distinct_keys_mset) simp

lemma distinct_keys_inj: "distinct (keys d) \<Longrightarrow> inj_on fst (set d)"
  by (simp add: distinct_map)

lemma map_of_sorted_items [simp]:
  assumes "distinct (keys d)" shows "map_of (sorted_items d) = map_of d"
  using assms by (intro map_of_inject_set [THEN iffD2]) simp_all

text \<open>Sorting forgets the insertion order: the sorted items are a function of the mapping.\<close>

lemma sorted_items_cong:
  assumes "mset d = mset e" and "distinct (keys d)"
  shows "sorted_items d = sorted_items e"
  unfolding sorted_items_def
  by (rule sort_key_inj_key_eq)
    (use assms in \<open>simp_all add: distinct_keys_inj\<close>)

lemma sorted_items_idem [simp]: "sorted_items (sorted_items d) = sorted_items d"
  unfolding sorted_items_def by (rule sort_key_id_if_sorted) simp

text \<open>The comprehension \<open>{k: f(v) for k, v in d.items()}\<close>.\<close>

definition map_vals :: "('a \<Rightarrow> 'b) \<Rightarrow> 'a pydict \<Rightarrow> 'b pydict" where
  "map_vals f d = map (\<lambda>(k, v). (k, f v)) d"

lemma map_vals_cong [fundef_cong]:
  "d = e \<Longrightarrow> (\<And>k v. (k, v) \<in> set e \<Longrightarrow> f v = g v) \<Longrightarrow> map_vals f d = map_vals g e"
  by (auto simp: map_vals_def)

lemma map_vals_simps [simp]:
  "map_vals f [] = []" "map_vals f ((k, v) # d) = (k, f v) # map_vals f d"
  by (simp_all add: map_vals_def)

lemma map_vals_append [simp]: "map_vals f (d @ e) = map_vals f d @ map_vals f e"
  by (simp add: map_vals_def)

lemma map_vals_eq_Nil [simp]: "map_vals f d = [] \<longleftrightarrow> d = []" "[] = map_vals f d \<longleftrightarrow> d = []"
  by (auto simp: map_vals_def)

lemma keys_map_vals [simp]: "keys (map_vals f d) = keys d"
  by (induction d) auto

lemma fst_set_map_vals [simp]: "fst ` set (map_vals f d) = fst ` set d"
  by (force simp: map_vals_def)

lemma length_map_vals [simp]: "length (map_vals f d) = length d"
  by (simp add: map_vals_def)

lemma set_map_vals: "(k, w) \<in> set (map_vals f d) \<longleftrightarrow> (\<exists>v. (k, v) \<in> set d \<and> w = f v)"
  by (auto simp: map_vals_def)

lemma map_of_map_vals [simp]: "map_of (map_vals f d) = map_option f \<circ> map_of d"
  by (induction d) auto

lemma map_vals_map_vals [simp]: "map_vals f (map_vals g d) = map_vals (f \<circ> g) d"
  by (induction d) auto

lemma sorted_items_map_vals [simp]: "sorted_items (map_vals f d) = map_vals f (sorted_items d)"
proof -
  have "insort_key fst (k, f v) (map_vals f e) = map_vals f (insort_key fst (k, v) e)" for k v e
    by (induction e) auto
  then show ?thesis
    by (induction d) (auto simp: sorted_items_def)
qed

lemma set_sorted_set [simp]: "set (sorted_set xs) = set xs"
  by (simp add: sorted_set_def)

lemma sorted_sorted_set [simp]: "sorted (sorted_set xs)"
  by (simp add: sorted_set_def)

lemma distinct_sorted_set [simp]: "distinct (sorted_set xs)"
  by (simp add: sorted_set_def)

lemma sorted_set_unique: "set xs = set ys \<Longrightarrow> sorted_set xs = sorted_set ys"
  by (rule sorted_distinct_set_unique) simp_all

section \<open>Ordered queries\<close>

text \<open>
  \<open>ORDER BY f DESC\<close> and \<open>list.sort(key=f, reverse=True)\<close>: a stable descending sort. SQL leaves
  the order of rows with equal keys open; the model keeps them in table order.
\<close>

definition sort_desc :: "('a \<Rightarrow> 'b::linorder) \<Rightarrow> 'a list \<Rightarrow> 'a list" where
  "sort_desc f xs = rev (sort_key f (rev xs))"

lemma set_sort_desc [simp]: "set (sort_desc f xs) = set xs"
  by (simp add: sort_desc_def)

lemma length_sort_desc [simp]: "length (sort_desc f xs) = length xs"
  by (simp add: sort_desc_def)

lemma sort_desc_Nil [simp]: "sort_desc f [] = []"
  by (simp add: sort_desc_def)

lemma sort_desc_eq_Nil [simp]: "sort_desc f xs = [] \<longleftrightarrow> xs = []"
  by (metis length_0_conv length_sort_desc)

lemma mset_sort_desc [simp]: "mset (sort_desc f xs) = mset xs"
  by (simp add: sort_desc_def)

lemma sorted_sort_desc: "sorted_wrt (\<lambda>x y. f y \<le> f x) (sort_desc f xs)"
proof -
  have "sorted (map f (sort_key f (rev xs)))" by simp
  then show ?thesis
    by (simp add: sort_desc_def sorted_wrt_rev sorted_map)
qed

text \<open>\<open>ORDER BY f DESC LIMIT 1\<close>: the head of the sorted rows has the greatest key.\<close>

lemma hd_sort_desc:
  assumes "xs \<noteq> []"
  shows "hd (sort_desc f xs) \<in> set xs" and "\<And>x. x \<in> set xs \<Longrightarrow> f x \<le> f (hd (sort_desc f xs))"
proof -
  have ne: "sort_desc f xs \<noteq> []" using assms by simp
  then obtain y ys where y: "sort_desc f xs = y # ys" by (cases "sort_desc f xs") auto
  have "y \<in> set xs" by (metis y list.set_intros(1) set_sort_desc)
  then show "hd (sort_desc f xs) \<in> set xs" by (simp add: y)
  fix x assume "x \<in> set xs"
  then have "x \<in> set (y # ys)" by (metis y set_sort_desc)
  moreover have "\<forall>z \<in> set ys. f z \<le> f y"
    using sorted_sort_desc [of f xs] by (simp add: y)
  ultimately show "f x \<le> f (hd (sort_desc f xs))" by (auto simp: y)
qed

definition first_row :: "'a list \<Rightarrow> 'a option" where
  "first_row xs = (case xs of [] \<Rightarrow> None | x # _ \<Rightarrow> Some x)"

lemma first_row_simps [simp]: "first_row [] = None" "first_row (x # xs) = Some x"
  by (simp_all add: first_row_def)

lemma first_row_Some_set: "first_row xs = Some x \<Longrightarrow> x \<in> set xs"
  by (cases xs) auto

lemma first_row_None [simp]: "first_row xs = None \<longleftrightarrow> xs = []"
  by (cases xs) auto

lemma first_row_filter_unique:
  assumes "x \<in> set xs" and "P x" and "\<And>y. y \<in> set xs \<Longrightarrow> P y \<Longrightarrow> y = x"
  shows "first_row (filter P xs) = Some x"
proof (cases "filter P xs")
  case Nil
  then show ?thesis using assms(1,2) by (simp add: filter_empty_conv)
next
  case (Cons y ys)
  then have "y \<in> set (filter P xs)" by simp
  then have "y = x" using assms(3) by auto
  with Cons show ?thesis by simp
qed

text \<open>\<open>UPDATE t SET .. WHERE p\<close> on a table given as a list of rows.\<close>

definition update_where :: "('r \<Rightarrow> bool) \<Rightarrow> ('r \<Rightarrow> 'r) \<Rightarrow> 'r list \<Rightarrow> 'r list" where
  "update_where p f rows = map (\<lambda>r. if p r then f r else r) rows"

lemma length_update_where [simp]: "length (update_where p f rows) = length rows"
  by (simp add: update_where_def)

lemma update_where_none: "(\<And>r. r \<in> set rows \<Longrightarrow> \<not> p r) \<Longrightarrow> update_where p f rows = rows"
  by (simp add: update_where_def map_idI)

lemma in_update_where:
  "x \<in> set (update_where p f rows) \<longleftrightarrow> (\<exists>r \<in> set rows. x = (if p r then f r else r))"
  by (auto simp: update_where_def)

lemma map_update_where:
  "(\<And>r. p r \<Longrightarrow> g (f r) = g r) \<Longrightarrow> map g (update_where p f rows) = map g rows"
  by (simp add: update_where_def)

end
