(* ===== verification/Py_Text.thy ===== *)
theory Py_Text
  imports Drift_Prelude
begin

text \<open>
  Python text: the \<open>str\<close> methods the modules use, decimal formatting, and code points.
\<close>

section \<open>Case, stripping, searching, joining\<close>

definition char_lower :: "char \<Rightarrow> char" where
  "char_lower c = (let n = (of_char c :: nat) in if 65 \<le> n \<and> n \<le> 90 then char_of (n + 32) else c)"

definition char_upper :: "char \<Rightarrow> char" where
  "char_upper c = (let n = (of_char c :: nat) in if 97 \<le> n \<and> n \<le> 122 then char_of (n - 32) else c)"

definition py_lower :: "string \<Rightarrow> string" where
  "py_lower s = map char_lower s"

definition py_upper :: "string \<Rightarrow> string" where
  "py_upper s = map char_upper s"

definition is_space :: "char \<Rightarrow> bool" where
  "is_space c = (let n = (of_char c :: nat) in n = 32 \<or> (9 \<le> n \<and> n \<le> 13) \<or> (28 \<le> n \<and> n \<le> 31))"

definition py_strip :: "string \<Rightarrow> string" where
  "py_strip s = rev (dropWhile is_space (rev (dropWhile is_space s)))"

text \<open>\<open>needle in haystack\<close> and \<open>s.startswith(p)\<close>.\<close>

abbreviation py_in :: "string \<Rightarrow> string \<Rightarrow> bool" where
  "py_in \<equiv> sublist"

abbreviation startswith :: "string \<Rightarrow> string \<Rightarrow> bool" where
  "startswith s p \<equiv> prefix p s"

fun py_join :: "string \<Rightarrow> string list \<Rightarrow> string" where
  "py_join sep [] = []"
| "py_join sep [x] = x"
| "py_join sep (x # y # xs) = x @ sep @ py_join sep (y # xs)"

lemma py_lower_append [str_simps]: "py_lower (s @ t) = py_lower s @ py_lower t"
  by (simp add: py_lower_def)

lemma py_in_lower: "py_in s t \<Longrightarrow> py_in (py_lower s) (py_lower t)"
  unfolding py_lower_def by (rule map_mono_sublist)

lemma py_in_appendI [intro]: "py_in s t \<Longrightarrow> py_in s (t @ u)" "py_in s u \<Longrightarrow> py_in s (t @ u)"
  by (auto simp: sublist_appendI sublist_append intro: sublist_order.order_trans)

lemma sublist_ConsI: "py_in s t \<Longrightarrow> py_in s (c # t)"
  by (auto simp: sublist_Cons_right)

lemma in_join: "y \<in> set xs \<Longrightarrow> py_in y (py_join sep xs)"
proof (induction sep xs rule: py_join.induct)
  case (3 sep x y' xs)
  then show ?case by (cases "y = x") (auto intro: sublist_appendI)
qed auto

section \<open>Decimal numbers\<close>

definition digit :: "nat \<Rightarrow> char" where
  "digit n = char_of (48 + n)"

fun show_nat :: "nat \<Rightarrow> string" where
  "show_nat n = (if n < 10 then [digit n] else show_nat (n div 10) @ [digit (n mod 10)])"

declare show_nat.simps [simp del]

definition show_int :: "int \<Rightarrow> string" where
  "show_int i = (if i < 0 then ''-'' @ show_nat (nat (- i)) else show_nat (nat i))"

definition read_nat :: "string \<Rightarrow> nat" where
  "read_nat s = foldl (\<lambda>n c. 10 * n + (of_char c - 48)) 0 s"

lemma of_char_digit: "n < 10 \<Longrightarrow> of_char (digit n) = 48 + n"
  by (simp add: digit_def)

lemma read_show_nat [simp]: "read_nat (show_nat n) = n"
proof (induction n rule: show_nat.induct)
  case (1 n)
  show ?case
  proof (cases "n < 10")
    case True
    then show ?thesis by (simp add: show_nat.simps [of n] read_nat_def of_char_digit)
  next
    case False
    then have "read_nat (show_nat (n div 10)) = n div 10" by (rule 1)
    then show ?thesis
      using False by (simp add: show_nat.simps [of n] read_nat_def of_char_digit)
  qed
qed

lemma show_nat_inject [simp]: "show_nat m = show_nat n \<longleftrightarrow> m = n"
  by (metis read_show_nat)

lemma show_nat_digits: "c \<in> set (show_nat n) \<Longrightarrow> 48 \<le> (of_char c :: nat) \<and> (of_char c :: nat) \<le> 57"
proof (induction n rule: show_nat.induct)
  case (1 n)
  show ?case
  proof (cases "n < 10")
    case True
    with "1.prems" show ?thesis by (simp add: show_nat.simps [of n] of_char_digit)
  next
    case False
    from "1.prems" have "c \<in> set (show_nat (n div 10)) \<or> c = digit (n mod 10)"
      by (auto simp: show_nat.simps [of n] False)
    then show ?thesis
    proof
      assume "c \<in> set (show_nat (n div 10))"
      with False show ?thesis by (rule "1.IH")
    qed (simp add: of_char_digit)
  qed
qed

lemma show_nat_not_Nil [simp]: "show_nat n \<noteq> []"
  by (simp add: show_nat.simps [of n])

section \<open>Code points\<close>

text \<open>
  UTF-8: the bytes 128 to 191 continue a character, every other byte starts one. \<open>len\<close> counts
  the starts, a slice \<open>s[:n]\<close> keeps \<open>n\<close> of them with their continuations.
\<close>

definition is_cont :: "char \<Rightarrow> bool" where
  "is_cont c = (let n = (of_char c :: nat) in 128 \<le> n \<and> n < 192)"

definition py_len :: "string \<Rightarrow> nat" where
  "py_len s = length (filter (\<lambda>c. \<not> is_cont c) s)"

fun py_take :: "nat \<Rightarrow> string \<Rightarrow> string" where
  "py_take n [] = []"
| "py_take n (c # cs) =
     (if is_cont c then c # py_take n cs
      else if n = 0 then [] else c # py_take (n - 1) cs)"

lemma py_len_simps [simp]:
  "py_len [] = 0" "py_len (c # cs) = (if is_cont c then py_len cs else Suc (py_len cs))"
  by (simp_all add: py_len_def)

lemma py_len_append [simp]: "py_len (s @ t) = py_len s + py_len t"
  by (simp add: py_len_def)

lemma py_len_take [simp]: "py_len (py_take n s) = min n (py_len s)"
  by (induction n s rule: py_take.induct) auto

lemma py_take_prefix: "prefix (py_take n s) s"
  by (induction n s rule: py_take.induct) auto

text \<open>The code points a UTF-8 string encodes.\<close>

function utf8_cps :: "string \<Rightarrow> nat list" where
  "utf8_cps [] = []"
| "utf8_cps (c # cs) =
     (let n = of_char c;
          k = (if n < 192 then 0 else if n < 224 then 1 else if n < 240 then 2 else 3);
          base = (if n < 192 then 0 else if n < 224 then 192 else if n < 240 then 224 else 240)
      in foldl (\<lambda>a d. a * 64 + (of_char d - 128)) (n - base) (take k cs) # utf8_cps (drop k cs))"
  by pat_completeness auto
termination
  by (relation "measure length") auto

text \<open>The characters U+2026 and U+2014, which the code writes as literals.\<close>

definition ellipsis :: string where
  "ellipsis = [char_of (226::nat), char_of (128::nat), char_of (166::nat)]"

definition em_dash :: string where
  "em_dash = [char_of (226::nat), char_of (128::nat), char_of (148::nat)]"

lemma py_len_ellipsis: "py_len ellipsis = 1"
  by (simp add: ellipsis_def is_cont_def)

end
