(* ===== verification/Json.thy ===== *)
theory Json
  imports Py_Text
begin

text \<open>
  JSON values as Python holds them after \<open>json.loads\<close>: the payloads, schemas and documents of
  every module. A float is carried by its \<open>repr\<close>. An object is a dict in insertion order;
  \<open>wf_json\<close> says its keys are distinct, which every Python dict satisfies.
\<close>

section \<open>Values\<close>

datatype json =
    JNull
  | JBool bool
  | JInt int
  | JFloat string
  | JStr string
  | JList "json list"
  | JDict "(string \<times> json) list"

text \<open>The recursions below visit the items of an enumerated or zipped array.\<close>

lemma set_enumerateD: "(i, x) \<in> set (enumerate n xs) \<Longrightarrow> x \<in> set xs"
  by (metis enumerate_eq_zip set_zip_rightD)

lemma size_enumerate [termination_simp]:
  "(i, x) \<in> set (enumerate n xs) \<Longrightarrow> size x < Suc (size_list size xs)"
  by (metis set_enumerateD less_Suc_eq size_list_estimation lessI less_or_eq_imp_le order_refl
      size_list_estimation' not_less_eq_eq not_less)

fun wf_json :: "json \<Rightarrow> bool" where
  "wf_json (JList xs) = list_all wf_json xs"
| "wf_json (JDict d) = (distinct (keys d) \<and> list_all (\<lambda>(k, v). wf_json v) d)"
| "wf_json _ = True"

lemma wf_json_item: "wf_json (JDict d) \<Longrightarrow> (k, v) \<in> set d \<Longrightarrow> wf_json v"
  by (auto simp: list_all_iff)

lemma wf_json_element: "wf_json (JList xs) \<Longrightarrow> v \<in> set xs \<Longrightarrow> wf_json v"
  by (auto simp: list_all_iff)

text \<open>Python's truth value, and \<open>bool(d.get(k, default))\<close>.\<close>

fun truthy :: "json \<Rightarrow> bool" where
  "truthy JNull = False"
| "truthy (JBool b) = b"
| "truthy (JInt i) = (i \<noteq> 0)"
| "truthy (JFloat r) = (r \<noteq> ''0.0'' \<and> r \<noteq> ''-0.0'')"
| "truthy (JStr s) = (s \<noteq> [])"
| "truthy (JList xs) = (xs \<noteq> [])"
| "truthy (JDict d) = (d \<noteq> [])"

fun is_dict :: "json \<Rightarrow> bool" where
  "is_dict (JDict d) = True"
| "is_dict _ = False"

text \<open>\<open>isinstance(j, dict) and k in j\<close>, then \<open>j[k]\<close>: \<open>None\<close> where there is no such item.\<close>

fun jget :: "json \<Rightarrow> string \<Rightarrow> json option" where
  "jget (JDict d) k = map_of d k"
| "jget _ k = None"

definition jget_or :: "json \<Rightarrow> string \<Rightarrow> json \<Rightarrow> json" where
  "jget_or j k dflt = (case jget j k of None \<Rightarrow> dflt | Some v \<Rightarrow> v)"

section \<open>Equality\<close>

text \<open>
  \<open>==\<close> on these values: dicts ignore the order of their items, and \<open>True == 1 == 1.0\<close>. A number
  is compared through the \<open>repr\<close> of its float value (integers below \<open>10 ^ 16\<close>, where that
  \<open>repr\<close> has no exponent).
\<close>

fun num_key :: "json \<Rightarrow> string option" where
  "num_key (JBool b) = Some (show_int (of_bool b) @ ''.0'')"
| "num_key (JInt i) = Some (show_int i @ ''.0'')"
| "num_key (JFloat r) = Some (if r = ''-0.0'' then ''0.0'' else r)"
| "num_key _ = None"

function (sequential) py_eq :: "json \<Rightarrow> json \<Rightarrow> bool" where
  "py_eq (JDict d) (JDict e) =
     (length d = length e \<and>
      list_all (\<lambda>(k, v). case map_of e k of None \<Rightarrow> False | Some w \<Rightarrow> py_eq v w) d)"
| "py_eq (JList xs) (JList ys) =
     (length xs = length ys \<and> list_all (\<lambda>(x, y). py_eq x y) (zip xs ys))"
| "py_eq (JStr s) (JStr t) = (s = t)"
| "py_eq JNull JNull = True"
| "py_eq x y = (num_key x \<noteq> None \<and> num_key x = num_key y)"
  by pat_completeness auto
termination
proof (relation "measure (size \<circ> fst)", goal_cases)
  case (2 d e kv k v w)
  then show ?case
    by (auto dest!: size_list_estimation' [where f = "size_prod (\<lambda>_. 0) size" and y = "size v"])
next
  case (3 xs ys z x y)
  then show ?case
    by (auto dest!: set_zip_leftD size_list_estimation' [where f = size and y = "size x"])
qed simp

lemma py_eq_refl: "wf_json j \<Longrightarrow> py_eq j j"
proof (induction j)
  case (JList xs)
  then show ?case by (auto simp: list_all_iff set_zip)
next
  case (JDict d)
  have "py_eq v v" if "(k, v) \<in> set d" for k v
    using JDict that by (fastforce simp: list_all_iff)
  then show ?case
    using JDict.prems by (auto simp: list_all_iff map_of_eq_Some_iff)
qed simp_all

section \<open>Text of a value\<close>

text \<open>Hexadecimal escapes of \<open>json.dumps\<close> with its default \<open>ensure_ascii=True\<close>.\<close>

definition hex_digit :: "nat \<Rightarrow> char" where
  "hex_digit n = (if n < 10 then char_of (48 + n) else char_of (87 + n))"

definition hex4 :: "nat \<Rightarrow> string" where
  "hex4 n = [hex_digit (n div 4096 mod 16), hex_digit (n div 256 mod 16),
             hex_digit (n div 16 mod 16), hex_digit (n mod 16)]"

definition bslash :: char where
  "bslash = char_of (92::nat)"

definition escape_cp :: "nat \<Rightarrow> string" where
  "escape_cp n =
     (if n = 34 then [bslash, CHR 0x22]
      else if n = 92 then [bslash, bslash]
      else if n = 10 then [bslash, CHR ''n'']
      else if n = 13 then [bslash, CHR ''r'']
      else if n = 9 then [bslash, CHR ''t'']
      else if n = 12 then [bslash, CHR ''f'']
      else if n = 8 then [bslash, CHR ''b'']
      else if 32 \<le> n \<and> n < 127 then [char_of n]
      else if n = 127 then [char_of n]
      else if n < 65536 then [bslash, CHR ''u''] @ hex4 n
      else [bslash, CHR ''u''] @ hex4 (55296 + (n - 65536) div 1024)
           @ [bslash, CHR ''u''] @ hex4 (56320 + (n - 65536) mod 1024))"

definition quote_json :: "string \<Rightarrow> string" where
  "quote_json s = [CHR 0x22] @ concat (map escape_cp (utf8_cps s)) @ [CHR 0x22]"

text \<open>
  \<open>json.dumps(j, sort_keys=srt, separators=(isep, ksep))\<close>. The default separators are
  \<open>'', ''\<close> and \<open>'': ''\<close>.
\<close>

fun json_dumps :: "bool \<Rightarrow> string \<Rightarrow> string \<Rightarrow> json \<Rightarrow> string" where
  "json_dumps srt isep ksep JNull = ''null''"
| "json_dumps srt isep ksep (JBool b) = (if b then ''true'' else ''false'')"
| "json_dumps srt isep ksep (JInt i) = show_int i"
| "json_dumps srt isep ksep (JFloat r) = r"
| "json_dumps srt isep ksep (JStr s) = quote_json s"
| "json_dumps srt isep ksep (JList xs) = ''['' @ py_join isep (map (json_dumps srt isep ksep) xs) @ '']''"
| "json_dumps srt isep ksep (JDict d) =
     ''{'' @ py_join isep
       (map (\<lambda>(k, t). quote_json k @ ksep @ t)
         ((if srt then sorted_items else id)
           (map_vals (json_dumps srt isep ksep) d))) @ ''}''"

definition nl :: string where
  "nl = [CHR 0x0A]"

text \<open>\<open>json.dumps(j, indent=2)\<close> at the given depth.\<close>

definition indentation :: "nat \<Rightarrow> string" where
  "indentation level = nl @ replicate (2 * level) CHR '' ''"

fun json_indent :: "nat \<Rightarrow> json \<Rightarrow> string" where
  "json_indent level (JList xs) =
     (if xs = [] then ''[]''
      else ''['' @ indentation (Suc level)
        @ py_join ('','' @ indentation (Suc level)) (map (json_indent (Suc level)) xs)
        @ indentation level @ '']'')"
| "json_indent level (JDict d) =
     (if d = [] then ''{}''
      else ''{'' @ indentation (Suc level)
        @ py_join ('','' @ indentation (Suc level))
            (map (\<lambda>(k, t). quote_json k @ '': '' @ t) (map_vals (json_indent (Suc level)) d))
        @ indentation level @ ''}'')"
| "json_indent level j = json_dumps False '', '' '': '' j"

text \<open>
  \<open>str(j)\<close>: a string is itself; inside a container a string is quoted. Quotation marks and
  escapes inside the strings are not rendered.
\<close>

fun py_repr :: "json \<Rightarrow> string" where
  "py_repr JNull = ''None''"
| "py_repr (JBool b) = (if b then ''True'' else ''False'')"
| "py_repr (JInt i) = show_int i"
| "py_repr (JFloat r) = r"
| "py_repr (JStr s) = [CHR 0x27] @ s @ [CHR 0x27]"
| "py_repr (JList xs) = ''['' @ py_join '', '' (map py_repr xs) @ '']''"
| "py_repr (JDict d) =
     ''{'' @ py_join '', '' (map (\<lambda>(k, v). [CHR 0x27] @ k @ [CHR 0x27] @ '': '' @ py_repr v) d) @ ''}''"

fun py_str :: "json \<Rightarrow> string" where
  "py_str (JStr s) = s"
| "py_str j = py_repr j"

section \<open>Rearrangement of keys\<close>

text \<open>
  \<open>_sort_keys\<close> of the monitor's normalizer: every dict with its items in key order. Two values
  with the same image differ only in the order of dict items, which JSON does not distinguish:
  \<open>same_json\<close>.
\<close>

fun sort_keys :: "json \<Rightarrow> json" where
  "sort_keys (JDict d) = JDict (map_vals sort_keys (sorted_items d))"
| "sort_keys (JList xs) = JList (map sort_keys xs)"
| "sort_keys j = j"

definition same_json :: "json \<Rightarrow> json \<Rightarrow> bool" where
  "same_json x y \<longleftrightarrow> sort_keys x = sort_keys y"

lemma sort_keys_idem [simp]: "sort_keys (sort_keys j) = sort_keys j"
proof (induction j rule: sort_keys.induct)
  case (1 d)
  then have "map_vals (sort_keys \<circ> sort_keys) (sorted_items d) = map_vals sort_keys (sorted_items d)"
    by (intro map_vals_cong) auto
  then show ?case by simp
qed simp_all

end
