(* ===== verification/Canonical.thy ===== *)
theory Canonical
  imports Json
begin

text \<open>
  \<^verbatim>\<open>app/runtime/canonical.py\<close>: a payload becomes its canonical schema, the fingerprint is the
  SHA-256 of its compact JSON. The digest is a parameter \<open>sha256\<close> from the text to the hexadecimal
  digest. JSON payloads have no value of another type, so the last branch of the source
  (\<open>"unknown"\<close>) has no counterpart.
\<close>

definition leaf :: "string \<Rightarrow> bool \<Rightarrow> json" where
  "leaf t n = JDict [(''type'', JStr t), (''nullable'', JBool n)]"

fun canonicalize :: "json \<Rightarrow> json" where
  "canonicalize (JDict d) = JDict (map_vals canonicalize (sorted_items d))"
| "canonicalize (JList xs) = JList (map canonicalize xs)"
| "canonicalize JNull = leaf ''null'' True"
| "canonicalize (JBool b) = leaf ''boolean'' False"
| "canonicalize (JInt i) = leaf ''integer'' False"
| "canonicalize (JFloat r) = leaf ''number'' False"
| "canonicalize (JStr s) = leaf ''string'' False"

definition fingerprint :: "(string \<Rightarrow> string) \<Rightarrow> json \<Rightarrow> string" where
  "fingerprint sha256 canonical_schema = sha256 (json_dumps True '','' '':'' canonical_schema)"

section \<open>Key order\<close>

lemma canonicalize_sort_keys: "canonicalize (sort_keys p) = canonicalize p"
proof (induction p rule: sort_keys.induct)
  case (1 d)
  then have "map_vals (canonicalize \<circ> sort_keys) (sorted_items d) = map_vals canonicalize (sorted_items d)"
    by (intro map_vals_cong) auto
  then show ?case by simp
qed simp_all

lemma wf_leaf [simp]: "wf_json (leaf t n)"
  by (simp add: leaf_def)

lemma wf_canonicalize: "wf_json p \<Longrightarrow> wf_json (canonicalize p)"
proof (induction p rule: canonicalize.induct)
  case (1 d)
  then show ?case
    by (auto simp: list_all_iff set_map_vals) blast
qed (auto simp: list_all_iff)

section \<open>What the canonical schema keeps of a payload\<close>

text \<open>
  The shape of a payload: its objects as mappings from keys to shapes, its arrays, and the
  JSON type at every leaf. It is the abstract content of the canonical schema.
\<close>

datatype shape = SLeaf string bool | SArray "shape list" | SObject "(string \<times> shape) list"

fun shape_of :: "json \<Rightarrow> shape" where
  "shape_of (JDict d) = SObject (map_vals shape_of (sorted_items d))"
| "shape_of (JList xs) = SArray (map shape_of xs)"
| "shape_of JNull = SLeaf ''null'' True"
| "shape_of (JBool b) = SLeaf ''boolean'' False"
| "shape_of (JInt i) = SLeaf ''integer'' False"
| "shape_of (JFloat r) = SLeaf ''number'' False"
| "shape_of (JStr s) = SLeaf ''string'' False"

fun schema_of_shape :: "shape \<Rightarrow> json" where
  "schema_of_shape (SLeaf t n) = leaf t n"
| "schema_of_shape (SArray xs) = JList (map schema_of_shape xs)"
| "schema_of_shape (SObject d) = JDict (map_vals schema_of_shape d)"

lemma canonicalize_shape: "canonicalize p = schema_of_shape (shape_of p)"
proof (induction p rule: canonicalize.induct)
  case (1 d)
  then have "map_vals canonicalize (sorted_items d) = map_vals (schema_of_shape \<circ> shape_of) (sorted_items d)"
    by (intro map_vals_cong) auto
  then show ?case by simp
qed simp_all

text \<open>A schema is never mistaken for a leaf: the values below an object are containers.\<close>

lemma schema_of_shape_container: "\<exists>d xs. schema_of_shape s = JDict d \<or> schema_of_shape s = JList xs"
  by (cases s) (auto simp: leaf_def)

lemma schema_of_shape_not_str: "schema_of_shape s \<noteq> JStr t"
  by (cases s) (auto simp: leaf_def)

lemma leaf_not_object: "leaf t n \<noteq> JDict (map_vals schema_of_shape d)"
  using schema_of_shape_not_str by (cases d) (auto simp: leaf_def schema_of_shape_not_str [symmetric])

lemma schema_of_shape_inject: "schema_of_shape s = schema_of_shape u \<Longrightarrow> s = u"
proof (induction s arbitrary: u)
  case (SLeaf t n)
  then show ?case
    using leaf_not_object [of t n] by (cases u) (auto simp: leaf_def)
next
  case (SArray xs)
  then obtain ys where u: "u = SArray ys" by (cases u) (auto simp: leaf_def)
  from SArray.prems u have "map schema_of_shape xs = map schema_of_shape ys" by simp
  then have "xs = ys"
    using SArray.IH by (induction xs arbitrary: ys) (auto simp: Cons_eq_map_conv)
  with u show ?case by simp
next
  case (SObject d)
  then obtain e where u: "u = SObject e"
    using leaf_not_object by (cases u) (auto simp: leaf_not_object [symmetric])
  from SObject.prems u have "map_vals schema_of_shape d = map_vals schema_of_shape e" by simp
  moreover have "v = w" if "(k, v) \<in> set d" "schema_of_shape v = schema_of_shape w" for k v w
    using SObject.IH [of "(k, v)" v w] that by auto
  ultimately have "d = e"
  proof (induction d arbitrary: e)
    case (Cons kv d)
    obtain k v where [simp]: "kv = (k, v)" by (cases kv)
    from Cons.prems(1) obtain w e' where e: "e = (k, w) # e'" "schema_of_shape v = schema_of_shape w"
      "map_vals schema_of_shape d = map_vals schema_of_shape e'"
      by (cases e) auto
    have "d = e'" using e(3) Cons.prems(2) by (intro Cons.IH) auto
    moreover have "v = w" using e(2) Cons.prems(2) [of k v w] by simp
    ultimately show ?case using e(1) by simp
  qed simp
  with u show ?case by simp
qed

lemma canonicalize_eq_iff: "canonicalize p = canonicalize q \<longleftrightarrow> shape_of p = shape_of q"
  by (auto simp: canonicalize_shape dest: schema_of_shape_inject)

lemma canonicalize_same_json: "same_json p q \<Longrightarrow> canonicalize p = canonicalize q"
  by (metis canonicalize_sort_keys same_json_def)

end
