(* ===== verification/Path_Diff.thy ===== *)
theory Path_Diff
  imports Drift_Prelude
begin

text \<open>
  The comparison both schema differs of the runtime share: two flat dicts from paths to nodes,
  the sorted union of their paths, and one diff item per path whose nodes differ. The locale
  states what a differ provides (when two nodes count as the same, the item of a path) and the
  lemmas give what every such diff has: strictly sorted paths, soundness, completeness.
\<close>

text \<open>\<open>for path in sorted(old.keys() | new.keys()): if same: continue; out.append(item)\<close>\<close>

definition changed_paths :: "('v option \<Rightarrow> 'v option \<Rightarrow> bool) \<Rightarrow> 'v pydict \<Rightarrow> 'v pydict \<Rightarrow> string list" where
  "changed_paths same old new =
     filter (\<lambda>p. \<not> same (map_of old p) (map_of new p)) (sorted_set (keys old @ keys new))"

definition diff_paths ::
  "('v option \<Rightarrow> 'v option \<Rightarrow> bool) \<Rightarrow> (string \<Rightarrow> 'v option \<Rightarrow> 'v option \<Rightarrow> 'e + 'd) \<Rightarrow>
   'v pydict \<Rightarrow> 'v pydict \<Rightarrow> 'e + 'd list" where
  "diff_paths same item old new =
     map_err (\<lambda>p. item p (map_of old p) (map_of new p)) (changed_paths same old new)"

lemma set_changed_paths:
  "set (changed_paths same old new) =
     {p \<in> set (keys old) \<union> set (keys new). \<not> same (map_of old p) (map_of new p)}"
  by (auto simp: changed_paths_def)

lemma changed_paths_strict: "sorted_wrt (<) (changed_paths same old new)"
  by (simp add: changed_paths_def sorted_wrt_filter strict_sorted_iff)

locale path_diff =
  fixes same :: "'v option \<Rightarrow> 'v option \<Rightarrow> bool"
    and item :: "string \<Rightarrow> 'v option \<Rightarrow> 'v option \<Rightarrow> 'e + 'd"
    and path_of :: "'d \<Rightarrow> string"
  assumes item_path: "item p x y = Inr d \<Longrightarrow> path_of d = p"
    and same_absent: "same None None"
begin

lemma changed_in_keys:
  assumes "\<not> same (map_of old p) (map_of new p)"
  shows "p \<in> set (changed_paths same old new)"
proof -
  have "map_of old p \<noteq> None \<or> map_of new p \<noteq> None"
    using assms same_absent by metis
  then have "p \<in> set (keys old) \<or> p \<in> set (keys new)"
    by (metis map_of_eq_None_iff set_map)
  with assms show ?thesis by (simp add: set_changed_paths del: set_map)
qed

lemma paths_of_diff:
  assumes "diff_paths same item old new = Inr ds"
  shows "map path_of ds = changed_paths same old new"
proof -
  have "list_all2 (\<lambda>p d. item p (map_of old p) (map_of new p) = Inr d) (changed_paths same old new) ds"
    using assms by (auto simp: diff_paths_def dest: map_err_Inr)
  then show ?thesis
    by (induction rule: list_all2_induct) (auto simp: item_path)
qed

lemma diff_strict:
  "diff_paths same item old new = Inr ds \<Longrightarrow> sorted_wrt (<) (map path_of ds)"
  by (simp add: paths_of_diff changed_paths_strict)

lemma diff_distinct: "diff_paths same item old new = Inr ds \<Longrightarrow> distinct (map path_of ds)"
  by (drule diff_strict) (simp add: strict_sorted_iff)

lemma in_diff_iff:
  assumes "diff_paths same item old new = Inr ds"
  shows "d \<in> set ds \<longleftrightarrow>
    (\<exists>p. \<not> same (map_of old p) (map_of new p) \<and> item p (map_of old p) (map_of new p) = Inr d)"
proof -
  have "set ds = {d. \<exists>p \<in> set (changed_paths same old new).
      item p (map_of old p) (map_of new p) = Inr d}"
    using assms by (auto simp: diff_paths_def map_err_Inr_D)
  moreover have "p \<in> set (changed_paths same old new) \<longleftrightarrow> \<not> same (map_of old p) (map_of new p)" for p
    using changed_in_keys [of old p new] by (auto simp: changed_paths_def)
  ultimately show ?thesis by auto
qed

lemma item_of_changed:
  assumes "diff_paths same item old new = Inr ds" and "\<not> same (map_of old p) (map_of new p)"
  shows "\<exists>d \<in> set ds. path_of d = p \<and> item p (map_of old p) (map_of new p) = Inr d"
proof -
  have "p \<in> set (changed_paths same old new)" using assms(2) by (rule changed_in_keys)
  moreover have "list_all2 (\<lambda>p d. item p (map_of old p) (map_of new p) = Inr d)
      (changed_paths same old new) ds"
    using assms(1) by (auto simp: diff_paths_def dest: map_err_Inr)
  ultimately obtain d where "d \<in> set ds" "item p (map_of old p) (map_of new p) = Inr d"
    by (metis (mono_tags, lifting) in_set_conv_nth list_all2_conv_all_nth)
  then show ?thesis using item_path by blast
qed

lemma diff_empty_iff:
  "diff_paths same item old new = Inr [] \<longleftrightarrow> (\<forall>p. same (map_of old p) (map_of new p))"
proof
  assume *: "diff_paths same item old new = Inr []"
  show "\<forall>p. same (map_of old p) (map_of new p)"
  proof (rule ccontr)
    assume "\<not> ?thesis"
    then obtain p where "\<not> same (map_of old p) (map_of new p)" by blast
    from item_of_changed [OF * this] show False by simp
  qed
next
  assume "\<forall>p. same (map_of old p) (map_of new p)"
  then have "changed_paths same old new = []" by (simp add: changed_paths_def)
  then show "diff_paths same item old new = Inr []" by (simp add: diff_paths_def)
qed

lemma diff_total:
  assumes "\<And>p. \<not> same (map_of old p) (map_of new p) \<Longrightarrow>
      \<exists>d. item p (map_of old p) (map_of new p) = Inr d"
  shows "\<exists>ds. diff_paths same item old new = Inr ds"
proof -
  have "\<exists>f. \<forall>p \<in> set (changed_paths same old new).
      item p (map_of old p) (map_of new p) = Inr (f p)"
    using assms by (intro bchoice) (auto simp: set_changed_paths)
  then obtain f where "\<And>p. p \<in> set (changed_paths same old new) \<Longrightarrow>
      item p (map_of old p) (map_of new p) = Inr (f p)" by blast
  then show ?thesis by (auto simp: diff_paths_def map_err_all_Inr)
qed

end

end
