(* ===== verification/Severity.thy ===== *)
theory Severity
  imports Drift_Prelude
begin

text \<open>
  \<^verbatim>\<open>app/runtime/models.py\<close>: the compatibility classes, their ranks (\<open>SeverityRank\<close>) and the
  rank of a free-text severity. The classes are linearly ordered by rank.
\<close>

datatype compat = SAFE | BACKWARD_COMPATIBLE | FORWARD_COMPATIBLE | RISKY | BREAKING

fun rank_of :: "compat \<Rightarrow> nat" where
  "rank_of SAFE = 0"
| "rank_of BACKWARD_COMPATIBLE = 1"
| "rank_of FORWARD_COMPATIBLE = 2"
| "rank_of RISKY = 3"
| "rank_of BREAKING = 4"

fun compat_name :: "compat \<Rightarrow> string" where
  "compat_name SAFE = ''SAFE''"
| "compat_name BACKWARD_COMPATIBLE = ''BACKWARD_COMPATIBLE''"
| "compat_name FORWARD_COMPATIBLE = ''FORWARD_COMPATIBLE''"
| "compat_name RISKY = ''RISKY''"
| "compat_name BREAKING = ''BREAKING''"

text \<open>\<open>severity_rank\<close>: \<open>SeverityRank[value]\<close>, with the rank of \<open>SAFE\<close> on a KeyError.\<close>

definition severity_rank :: "string \<Rightarrow> nat" where
  "severity_rank value =
     (if value = ''SAFE'' then 0
      else if value = ''BACKWARD_COMPATIBLE'' then 1
      else if value = ''FORWARD_COMPATIBLE'' then 2
      else if value = ''RISKY'' then 3
      else if value = ''BREAKING'' then 4
      else rank_of SAFE)"

lemma severity_rank_name [simp]: "severity_rank (compat_name c) = rank_of c"
  by (cases c) (simp_all add: severity_rank_def)

lemma severity_rank_le: "severity_rank v \<le> 4"
  by (simp add: severity_rank_def)

lemma rank_of_inject [simp]: "rank_of c = rank_of c' \<longleftrightarrow> c = c'"
  by (cases c; cases c') simp_all

lemma compat_name_inject [simp]: "compat_name c = compat_name c' \<longleftrightarrow> c = c'"
  by (cases c; cases c') simp_all

instantiation compat :: linorder
begin

definition less_eq_compat :: "compat \<Rightarrow> compat \<Rightarrow> bool" where
  "less_eq_compat c c' \<longleftrightarrow> rank_of c \<le> rank_of c'"

definition less_compat :: "compat \<Rightarrow> compat \<Rightarrow> bool" where
  "less_compat c c' \<longleftrightarrow> rank_of c < rank_of c'"

instance
  by standard (auto simp: less_eq_compat_def less_compat_def)

end

lemma compat_bounds [simp]: "SAFE \<le> c" "c \<le> BREAKING"
  by (cases c; simp add: less_eq_compat_def)+

lemma BREAKING_le [simp]: "BREAKING \<le> c \<longleftrightarrow> c = BREAKING"
  by (cases c) (simp_all add: less_eq_compat_def)

lemma le_SAFE [simp]: "c \<le> SAFE \<longleftrightarrow> c = SAFE"
  by (cases c) (simp_all add: less_eq_compat_def)

text \<open>\<open>max(xs, key=f)\<close>: the first of the greatest elements.\<close>

fun py_max_by :: "('a \<Rightarrow> 'b::linorder) \<Rightarrow> 'a \<Rightarrow> 'a list \<Rightarrow> 'a" where
  "py_max_by f m [] = m"
| "py_max_by f m (x # xs) = py_max_by f (if f m < f x then x else m) xs"

lemma py_max_by_in: "py_max_by f m xs \<in> insert m (set xs)"
proof (induction xs arbitrary: m)
  case (Cons x xs)
  show ?case using Cons [of "if f m < f x then x else m"] by auto
qed simp

lemma py_max_by_ge: "x \<in> insert m (set xs) \<Longrightarrow> f x \<le> f (py_max_by f m xs)"
proof (induction xs arbitrary: m x)
  case (Cons y xs)
  show ?case
  proof (cases "x \<in> set xs")
    case True
    then show ?thesis using Cons.IH [of x "if f m < f y then y else m"] by simp
  next
    case False
    then have "f x \<le> f (if f m < f y then y else m)" using Cons.prems by auto
    also have "\<dots> \<le> f (py_max_by f (if f m < f y then y else m) xs)" by (rule Cons.IH) simp
    finally show ?thesis by simp
  qed
qed simp

lemma py_max_by_rank: "py_max_by rank_of m xs = Max (insert m (set xs))"
proof (rule Max_eqI [symmetric])
  show "py_max_by rank_of m xs \<in> insert m (set xs)" by (rule py_max_by_in)
  fix y assume "y \<in> insert m (set xs)"
  then show "y \<le> py_max_by rank_of m xs"
    unfolding less_eq_compat_def by (rule py_max_by_ge)
qed simp

end
