(* ===== verification/Classifier.thy ===== *)
theory Classifier
  imports Canonical Path_Diff Severity
begin

text \<open>
  \<^verbatim>\<open>app/runtime/classifier.py\<close>: two canonical schemas are flattened to dicts from paths to nodes,
  compared path by path and every changed path is classified. Python's \<open>None\<close> is \<open>JNull\<close>;
  \<open>set(enum)\<close> raises a \<open>TypeError\<close> on an unhashable element, so the comparison is fallible.
\<close>

section \<open>Nodes\<close>

definition type_of :: "json \<Rightarrow> string" where
  "type_of node =
     (case jget node ''type'' of
        Some t \<Rightarrow> py_str t
      | None \<Rightarrow> (case node of JDict _ \<Rightarrow> ''object'' | JList _ \<Rightarrow> ''array'' | _ \<Rightarrow> ''unknown''))"

definition nullable_of :: "json \<Rightarrow> bool option" where
  "nullable_of node = map_option truthy (jget node ''nullable'')"

section \<open>Flattening\<close>

definition root_or :: "string \<Rightarrow> string" where
  "root_or pre = (if pre = [] then ''[root]'' else pre)"

definition join_path :: "string \<Rightarrow> string \<Rightarrow> string" where
  "join_path pre k = (if pre = [] then k else pre @ ''.'' @ k)"

definition index_path :: "string \<Rightarrow> nat \<Rightarrow> string" where
  "index_path pre i = pre @ ''[*'' @ show_nat i @ '']''"

fun flatten :: "json \<Rightarrow> string \<Rightarrow> json pydict" where
  "flatten (JDict d) pre =
     (if map_of d ''type'' \<noteq> None then [(root_or pre, JDict d)]
      else foldl dict_update [] (map (\<lambda>(k, v). flatten v (join_path pre k)) d))"
| "flatten (JList xs) pre =
     foldl dict_update [(root_or pre, leaf ''array'' False)]
       (map (\<lambda>(i, v). flatten v (index_path pre i)) (enumerate 0 xs))"
| "flatten j pre = [(root_or pre, leaf ''unknown'' True)]"

section \<open>Classifying one path\<close>

definition unhashable :: "json \<Rightarrow> bool" where
  "unhashable j = (case j of JList _ \<Rightarrow> True | JDict _ \<Rightarrow> True | _ \<Rightarrow> False)"

text \<open>\<open>set(xs)\<close> of a list, and \<open><\<close> on two such sets.\<close>

definition py_set :: "json list \<Rightarrow> py_error + json list" where
  "py_set xs =
     (case filter unhashable xs of
        [] \<Rightarrow> Inr xs
      | x # _ \<Rightarrow> Inl (TypeError (if is_dict x then ''unhashable type: dict'' else ''unhashable type: list'')))"

definition set_le :: "json list \<Rightarrow> json list \<Rightarrow> bool" where
  "set_le xs ys = list_all (\<lambda>x. list_ex (py_eq x) ys) xs"

definition set_lt :: "json list \<Rightarrow> json list \<Rightarrow> bool" where
  "set_lt xs ys \<longleftrightarrow> set_le xs ys \<and> \<not> set_le ys xs"

definition classify_enum :: "json \<Rightarrow> json \<Rightarrow> py_error + (compat \<times> string)" where
  "classify_enum old new =
     (case (jget old ''enum'', jget new ''enum'') of
        (Some (JList old_enum), Some (JList new_enum)) \<Rightarrow>
          bind_err (py_set old_enum) (\<lambda>old_set.
          bind_err (py_set new_enum) (\<lambda>new_set.
            if set_lt old_set new_set then Inr (FORWARD_COMPATIBLE, ''enum expansion'')
            else if set_lt new_set old_set then Inr (BREAKING, ''enum contraction'')
            else Inr (SAFE, ''no compatibility risk'')))
      | _ \<Rightarrow> Inr (SAFE, ''no compatibility risk''))"

definition classify :: "json \<Rightarrow> json \<Rightarrow> py_error + (compat \<times> string)" where
  "classify old new =
     (if old = JNull \<and> new \<noteq> JNull then
        (if is_dict new \<and> truthy (jget_or new ''required'' (JBool False))
         then Inr (FORWARD_COMPATIBLE, ''added required field'')
         else Inr (SAFE, ''added optional field''))
      else if old \<noteq> JNull \<and> new = JNull then
        (if is_dict old \<and> truthy (jget_or old ''required'' (JBool True))
         then Inr (BREAKING, ''removed required field'')
         else Inr (RISKY, ''removed optional field''))
      else
        (let old_t = type_of old; new_t = type_of new in
         if old_t \<noteq> new_t then
           (if old_t = ''integer'' \<and> new_t = ''number'' then Inr (RISKY, ''int->float widening'')
            else if old_t = ''number'' \<and> new_t = ''integer'' then Inr (BREAKING, ''float->int narrowing'')
            else if old_t = ''string'' \<and> (new_t = ''integer'' \<or> new_t = ''number'')
            then Inr (BREAKING, ''string->number'')
            else if old_t = ''array'' \<and> new_t = ''array'' then Inr (BREAKING, ''array item mutation'')
            else Inr (BREAKING, ''type changed '' @ old_t @ ''->'' @ new_t))
         else if nullable_of old = Some False \<and> nullable_of new = Some True
         then Inr (BACKWARD_COMPATIBLE, ''required field becomes nullable'')
         else if nullable_of old = Some True \<and> nullable_of new = Some False
         then Inr (BREAKING, ''nullable field becomes required'')
         else classify_enum old new))"

section \<open>The diff\<close>

record diff_item =
  di_path :: string
  di_old_type :: "string option"
  di_new_type :: "string option"
  di_old_nullable :: "bool option"
  di_new_nullable :: "bool option"
  di_class :: compat
  di_reason :: string

text \<open>\<open>flat.get(path)\<close>: \<open>None\<close> where the path is absent.\<close>

definition node :: "json option \<Rightarrow> json" where
  "node x = (case x of None \<Rightarrow> JNull | Some v \<Rightarrow> v)"

definition same_node :: "json option \<Rightarrow> json option \<Rightarrow> bool" where
  "same_node x y = py_eq (node x) (node y)"

definition diff_item_of :: "string \<Rightarrow> json option \<Rightarrow> json option \<Rightarrow> py_error + diff_item" where
  "diff_item_of path x y =
     (let old = node x; new = node y in
      bind_err (classify old new) (\<lambda>(cls, reason).
        Inr \<lparr>di_path = path,
             di_old_type = (if old \<noteq> JNull then Some (type_of old) else None),
             di_new_type = (if new \<noteq> JNull then Some (type_of new) else None),
             di_old_nullable = nullable_of old,
             di_new_nullable = nullable_of new,
             di_class = cls, di_reason = reason\<rparr>))"

definition diff_and_classify :: "json \<Rightarrow> json \<Rightarrow> py_error + diff_item list" where
  "diff_and_classify old_schema new_schema =
     diff_paths same_node diff_item_of (flatten old_schema []) (flatten new_schema [])"

definition summarize_classification :: "diff_item list \<Rightarrow> compat" where
  "summarize_classification ds =
     (case ds of
        [] \<Rightarrow> SAFE
      | d # rest \<Rightarrow> py_max_by rank_of (di_class d) (map di_class rest))"

lemma node_simps [simp]: "node None = JNull" "node (Some v) = v"
  by (simp_all add: node_def)

lemma py_eq_JNull [simp]: "py_eq JNull j \<longleftrightarrow> j = JNull" "py_eq j JNull \<longleftrightarrow> j = JNull"
  by (cases j; simp)+

interpretation cls: path_diff same_node diff_item_of di_path
proof
  show "di_path d = p" if "diff_item_of p x y = Inr d" for p x y d
    using that by (auto simp: diff_item_of_def Let_def bind_err_eq_Inr)
qed (simp add: same_node_def)

section \<open>The verdict of a diff\<close>

lemma summarize_Max:
  "summarize_classification ds = Max (insert SAFE (di_class ` set ds))"
proof (cases ds)
  case (Cons d ds')
  have "Max (insert (di_class d) (di_class ` set ds')) = Max (insert SAFE (insert (di_class d) (di_class ` set ds')))"
    by (subst Max_insert [of _ SAFE]) (auto simp: max_def)
  then show ?thesis
    by (simp add: Cons summarize_classification_def py_max_by_rank)
qed (simp add: summarize_classification_def)

lemma summarize_ge: "d \<in> set ds \<Longrightarrow> di_class d \<le> summarize_classification ds"
  by (simp add: summarize_Max)

lemma summarize_in: "summarize_classification ds \<in> insert SAFE (di_class ` set ds)"
  unfolding summarize_Max by (rule Max_in) auto

lemma summarize_Nil [simp]: "summarize_classification [] = SAFE"
  by (simp add: summarize_classification_def)

lemma summarize_BREAKING:
  "summarize_classification ds = BREAKING \<longleftrightarrow> (\<exists>d \<in> set ds. di_class d = BREAKING)"
proof
  assume "summarize_classification ds = BREAKING"
  then show "\<exists>d \<in> set ds. di_class d = BREAKING"
    using summarize_in [of ds] by force
next
  assume "\<exists>d \<in> set ds. di_class d = BREAKING"
  then show "summarize_classification ds = BREAKING"
    using summarize_ge [of _ ds] by force
qed

end
