(* ===== verification/Classifier_Facts.thy ===== *)
theory Classifier_Facts
  imports Classifier
begin

text \<open>
  Correctness of the canonical schema and of the classifier: insensitivity to key order, where a
  payload's field lands in the flat schema, and what the verdict of a diff says of two payloads.
\<close>

section \<open>Paths\<close>

text \<open>\<open>q\<close> is \<open>pre\<close> or a path below it.\<close>

definition below :: "string \<Rightarrow> string \<Rightarrow> bool" where
  "below pre q \<longleftrightarrow> (\<exists>r. q = pre @ r \<and> (r = [] \<or> hd r = CHR ''.'' \<or> hd r = CHR ''[''))"

definition clean_key :: "string \<Rightarrow> bool" where
  "clean_key k \<longleftrightarrow> k \<noteq> [] \<and> CHR ''.'' \<notin> set k \<and> CHR ''['' \<notin> set k"

definition top_key :: "string \<Rightarrow> string" where
  "top_key q = takeWhile (\<lambda>c. c \<noteq> CHR ''.'' \<and> c \<noteq> CHR ''['') q"

lemma below_refl [simp]: "below p p"
  by (simp add: below_def)

lemma below_trans: "below p q \<Longrightarrow> below q r \<Longrightarrow> below p r"
  unfolding below_def
proof (elim exE conjE)
  fix s t assume "q = p @ s" "r = q @ t" and s: "s = [] \<or> hd s = CHR ''.'' \<or> hd s = CHR ''[''"
    and t: "t = [] \<or> hd t = CHR ''.'' \<or> hd t = CHR ''[''"
  then have "r = p @ (s @ t)" "s @ t = [] \<or> hd (s @ t) = CHR ''.'' \<or> hd (s @ t) = CHR ''[''"
    by (auto simp: hd_append)
  then show "\<exists>s. r = p @ s \<and> (s = [] \<or> hd s = CHR ''.'' \<or> hd s = CHR ''['')" by blast
qed

lemma below_join: "p \<noteq> [] \<Longrightarrow> below p (join_path p k)"
  by (simp add: below_def join_path_def)

lemma below_index: "below p (index_path p i)"
  by (simp add: below_def index_path_def)

lemma join_path_ne: "p \<noteq> [] \<Longrightarrow> join_path p k \<noteq> []"
  by (simp add: join_path_def)

lemma index_path_ne [simp]: "index_path p i \<noteq> []"
  by (simp add: index_path_def)

lemma root_or_ne [simp]: "root_or p \<noteq> []" "p \<noteq> [] \<Longrightarrow> root_or p = p"
  by (simp_all add: root_or_def)

lemma top_key_below:
  assumes "clean_key k" and "below k q" shows "top_key q = k"
proof -
  obtain r where q: "q = k @ r" and r: "r = [] \<or> hd r = CHR ''.'' \<or> hd r = CHR ''[''"
    using assms(2) by (auto simp: below_def)
  have "takeWhile (\<lambda>c. c \<noteq> CHR ''.'' \<and> c \<noteq> CHR ''['') r = []"
    using r by (cases r) auto
  moreover have "\<forall>c \<in> set k. c \<noteq> CHR ''.'' \<and> c \<noteq> CHR ''[''"
    using assms(1) by (auto simp: clean_key_def)
  ultimately show ?thesis by (simp add: top_key_def q takeWhile_append2)
qed

section \<open>Flat schemas\<close>

lemma distinct_flatten [simp]: "distinct (keys (flatten j pre))"
  by (induction j pre rule: flatten.induct) (simp_all)

lemma flatten_below: "pre \<noteq> [] \<Longrightarrow> q \<in> fst ` set (flatten j pre) \<Longrightarrow> below pre q"
proof (induction j pre arbitrary: q rule: flatten.induct)
  case (1 d pre)
  show ?case
  proof (cases "map_of d ''type'' = None")
    case True
    with "1.prems" obtain k v where kv: "(k, v) \<in> set d" "q \<in> fst ` set (flatten v (join_path pre k))"
      by auto
    then have "below (join_path pre k) q"
      using 1 True by (intro "1.IH" [of "(k, v)" k v]) (auto simp: join_path_ne)
    then show ?thesis using below_join [OF "1.prems"(1)] below_trans by blast
  qed (use 1 in simp)
next
  case (2 xs pre)
  from "2.prems" consider "q = pre" | i v where "(i, v) \<in> set (enumerate 0 xs)"
    "q \<in> fst ` set (flatten v (index_path pre i))"
    by auto
  then show ?case
  proof cases
    case 2
    then have "below (index_path pre i) q"
      using "2.IH" by simp
    then show ?thesis using below_index below_trans by blast
  qed simp
qed simp_all

text \<open>Under clean keys the paths at or below one field depend on that field alone.\<close>

lemma flatten_field:
  assumes "map_of d ''type'' = None" and "distinct (keys d)"
    and "\<And>k. k \<in> fst ` set d \<Longrightarrow> clean_key k" and "clean_key k" and "below k q"
  shows "map_of (flatten (JDict d) []) q =
    (case map_of d k of None \<Rightarrow> None | Some v \<Rightarrow> map_of (flatten v k) q)"
proof -
  have absent: "map_of (flatten v l) q = None" if "(l, v) \<in> set d" "l \<noteq> k" for l v
  proof -
    have "clean_key l" using that assms(3) by force
    then have "\<not> below l q" using top_key_below assms(4,5) that(2) by metis
    then show ?thesis
      using flatten_below [of l q v] \<open>clean_key l\<close>
      by (auto simp: map_of_eq_None_iff clean_key_def)
  qed
  have fl: "flatten (JDict d) [] = foldl dict_update [] (map (\<lambda>(l, v). flatten v l) d)"
    using assms(1) by (simp add: join_path_def)
  show ?thesis
  proof (cases "map_of d k")
    case None
    have "map_of (foldl dict_update [] (map (\<lambda>(l, v). flatten v l) d)) q = map_of [] q"
    proof (rule map_of_foldl_absent)
      fix e assume "e \<in> set (map (\<lambda>(l, v). flatten v l) d)"
      then obtain l v where "(l, v) \<in> set d" "e = flatten v l" by auto
      moreover from this None have "l \<noteq> k" by (metis map_of_eq_None_iff fst_conv image_eqI)
      ultimately show "distinct (keys e) \<and> map_of e q = None" using absent by simp
    qed
    then show ?thesis unfolding fl None by simp
  next
    case (Some v)
    then obtain as cs where d: "d = as @ (k, v) # cs"
      by (meson map_of_SomeD split_list)
    have "map_of (foldl dict_update [] (map (\<lambda>(l, v). flatten v l) as @ flatten v k #
        map (\<lambda>(l, v). flatten v l) cs)) q =
        (case map_of (flatten v k) q of None \<Rightarrow> map_of [] q | Some w \<Rightarrow> Some w)"
    proof (rule map_of_foldl_unique)
      fix e assume "e \<in> set (map (\<lambda>(l, v). flatten v l) as) \<union> set (map (\<lambda>(l, v). flatten v l) cs)"
      then obtain l w where "(l, w) \<in> set as \<union> set cs" "e = flatten w l" by auto
      moreover have "k \<notin> fst ` set as" "k \<notin> fst ` set cs" using assms(2) by (auto simp: d)
      ultimately have "(l, w) \<in> set d" "l \<noteq> k" by (auto simp: d rev_image_eqI)
      with \<open>e = flatten w l\<close> show "map_of e q = None" using absent by simp
    qed auto
    then show ?thesis unfolding fl Some by (simp add: d split: option.splits)
  qed
qed

section \<open>A schema against itself\<close>

lemma in_flatten_DictD:
  assumes "map_of d ''type'' = None" and "x \<in> set (flatten (JDict d) pre)"
  shows "\<exists>k v. (k, v) \<in> set d \<and> x \<in> set (flatten v (join_path pre k))"
proof -
  have "x \<in> set (foldl dict_update [] (map (\<lambda>(k, v). flatten v (join_path pre k)) d))"
    using assms by simp
  from subsetD [OF set_foldl_update this] show ?thesis by auto
qed

lemma in_flatten_ListD:
  assumes "x \<in> set (flatten (JList xs) pre)"
  shows "x = (root_or pre, leaf ''array'' False)
    \<or> (\<exists>i v. (i, v) \<in> set (enumerate 0 xs) \<and> x \<in> set (flatten v (index_path pre i)))"
proof -
  have "x \<in> set (foldl dict_update [(root_or pre, leaf ''array'' False)]
       (map (\<lambda>(i, v). flatten v (index_path pre i)) (enumerate 0 xs)))"
    using assms by simp
  from subsetD [OF set_foldl_update this] show ?thesis by auto
qed

lemma flatten_typed: "jget j ''type'' = Some t \<Longrightarrow> flatten j pre = [(root_or pre, j)]"
  by (cases j) simp_all

lemma wf_flatten: "(k, nd) \<in> set (flatten j pre) \<Longrightarrow> wf_json j \<Longrightarrow> wf_json nd"
proof (induction j pre arbitrary: k nd rule: flatten.induct)
  case (1 d pre)
  show ?case
  proof (cases "map_of d ''type'' = None")
    case True
    from in_flatten_DictD [OF this "1.prems"(1)]
    obtain l v where lv: "(l, v) \<in> set d" "(k, nd) \<in> set (flatten v (join_path pre l))"
      by (elim exE conjE)
    have "wf_json v" using "1.prems"(2) lv(1) by (rule wf_json_item)
    with lv show ?thesis
      using True by (blast intro: "1.IH")
  next
    case False
    then show ?thesis using 1 by simp
  qed
next
  case (2 xs pre)
  from in_flatten_ListD [OF "2.prems"(1)] consider "nd = leaf ''array'' False"
    | i v where "(i, v) \<in> set (enumerate 0 xs)" "(k, nd) \<in> set (flatten v (index_path pre i))"
    by auto
  then show ?case
  proof cases
    case 1
    then show ?thesis by (simp add: leaf_def)
  next
    case (2 i v)
    have "wf_json v" using "2.prems"(2) set_enumerateD [OF 2(1)] by (rule wf_json_element)
    with 2 show ?thesis by (blast intro: "2.IH")
  qed
qed (simp_all add: leaf_def)

lemma diff_self:
  assumes "wf_json s" shows "diff_and_classify s s = Inr []"
  unfolding diff_and_classify_def
proof (rule cls.diff_empty_iff [THEN iffD2], rule allI)
  fix path
  have "wf_json (node (map_of (flatten s []) path))"
  proof (cases "map_of (flatten s []) path")
    case (Some nd)
    from wf_flatten [OF map_of_SomeD [OF Some] assms] Some show ?thesis by simp
  qed simp
  then show "same_node (map_of (flatten s []) path) (map_of (flatten s []) path)"
    unfolding same_node_def by (rule py_eq_refl)
qed

section \<open>Plain payloads\<close>

text \<open>
  A payload without a key \<open>"type"\<close> at any depth: no object of its canonical schema is taken for a
  node. Every node of the flat schema is then a type with the nullability of that type.
\<close>

fun plain :: "json \<Rightarrow> bool" where
  "plain (JDict d) = (map_of d ''type'' = None \<and> list_all (\<lambda>(k, v). plain v) d)"
| "plain (JList xs) = list_all plain xs"
| "plain _ = True"

abbreviation type_node :: "string \<Rightarrow> json" where
  "type_node t \<equiv> leaf t (t = ''null'')"

fun scalar :: "json \<Rightarrow> bool" where
  "scalar (JDict d) = False"
| "scalar (JList xs) = False"
| "scalar _ = True"

fun type_tag :: "json \<Rightarrow> string" where
  "type_tag JNull = ''null''"
| "type_tag (JBool b) = ''boolean''"
| "type_tag (JInt i) = ''integer''"
| "type_tag (JFloat r) = ''number''"
| "type_tag (JStr s) = ''string''"
| "type_tag (JList xs) = ''array''"
| "type_tag (JDict d) = ''object''"

lemma canonicalize_scalar: "scalar v \<Longrightarrow> canonicalize v = type_node (type_tag v)"
  by (cases v) simp_all

lemma flatten_leaf [simp]: "flatten (leaf t n) pre = [(root_or pre, leaf t n)]"
  by (simp add: leaf_def)

lemma type_of_leaf [simp]: "type_of (leaf t n) = t"
  by (simp add: leaf_def type_of_def)

lemma nullable_of_leaf [simp]: "nullable_of (leaf t n) = Some n"
  by (simp add: leaf_def nullable_of_def)

lemma leaf_neq_JNull [simp]: "leaf t n \<noteq> JNull" "JNull \<noteq> leaf t n"
  by (simp_all add: leaf_def)

lemma py_eq_leaf [simp]: "py_eq (leaf t n) (leaf u m) \<longleftrightarrow> t = u \<and> n = m"
  by (auto simp: leaf_def show_int_def)

lemma flatten_canonical_nodes:
  "plain p \<Longrightarrow> (q, nd) \<in> set (flatten (canonicalize p) pre) \<Longrightarrow> \<exists>t. nd = type_node t"
proof (induction p arbitrary: pre rule: canonicalize.induct)
  case (1 d)
  have nt: "map_of (map_vals canonicalize (sorted_items d)) ''type'' = None"
    using 1 by (auto simp: map_of_eq_None_iff rev_image_eqI)
  from in_flatten_DictD [OF this "1.prems"(2) [unfolded canonicalize.simps]]
  obtain k v where "(k, v) \<in> set (map_vals canonicalize (sorted_items d))"
    "(q, nd) \<in> set (flatten v (join_path pre k))"
    by (elim exE conjE)
  then obtain w where w: "(k, w) \<in> set d" "(q, nd) \<in> set (flatten (canonicalize w) (join_path pre k))"
    by (auto simp: set_map_vals)
  moreover have "plain w" using w(1) "1.prems"(1) by (auto simp: list_all_iff)
  ultimately show ?case using "1.IH" by (metis set_sorted_items)
next
  case (2 xs)
  from in_flatten_ListD [OF "2.prems"(2) [unfolded canonicalize.simps]]
  consider "(q, nd) = (root_or pre, leaf ''array'' False)"
    | i v where "(i, v) \<in> set (enumerate 0 (map canonicalize xs))" "(q, nd) \<in> set (flatten v (index_path pre i))"
    by (elim disjE exE conjE)
  then show ?case
  proof cases
    case 2
    then obtain w where "w \<in> set xs" "v = canonicalize w" by (auto dest!: set_enumerateD)
    with 2 "2.IH" "2.prems"(1) show ?thesis by (auto simp: list_all_iff)
  qed (auto intro: exI [of _ "''array''"])
qed (auto intro: exI [of _ "''null''"] exI [of _ "''boolean''"] exI [of _ "''integer''"]
      exI [of _ "''number''"] exI [of _ "''string''"])

text \<open>The type at a path of a payload, and the class of a change between two such types.\<close>

definition flat_type :: "json \<Rightarrow> string \<Rightarrow> string option" where
  "flat_type p q = map_option type_of (map_of (flatten (canonicalize p) []) q)"

fun change_class :: "string option \<Rightarrow> string option \<Rightarrow> compat" where
  "change_class (Some t) None = BREAKING"
| "change_class (Some t) (Some u) =
     (if t = u then SAFE else if t = ''integer'' \<and> u = ''number'' then RISKY else BREAKING)"
| "change_class None _ = SAFE"

lemma change_class_same: "change_class x x = SAFE"
  by (cases x) simp_all

lemma change_class_changed:
  "c \<noteq> SAFE \<Longrightarrow> x \<noteq> y \<and> c = change_class x y \<longleftrightarrow> change_class x y = c"
  using change_class_same [of x] by auto

lemma change_class_range: "change_class x y \<in> {SAFE, RISKY, BREAKING}"
  by (cases x; cases y) auto

lemma verdict_three:
  assumes "\<And>d. d \<in> set ds \<Longrightarrow> di_class d \<in> {SAFE, RISKY, BREAKING}"
  shows "summarize_classification ds = (if \<exists>d \<in> set ds. di_class d = BREAKING then BREAKING
      else if \<exists>d \<in> set ds. di_class d = RISKY then RISKY else SAFE)"
proof (cases "\<exists>d \<in> set ds. di_class d = BREAKING")
  case True
  then show ?thesis using summarize_BREAKING [of ds] by simp
next
  case nb: False
  then have "summarize_classification ds \<noteq> BREAKING" using summarize_BREAKING [of ds] by simp
  moreover have "insert SAFE (di_class ` set ds) \<subseteq> {SAFE, RISKY, BREAKING}"
    using assms by blast
  with summarize_in [of ds] have "summarize_classification ds \<in> {SAFE, RISKY, BREAKING}"
    by (rule rev_subsetD)
  ultimately have two: "summarize_classification ds = SAFE \<or> summarize_classification ds = RISKY" by simp
  show ?thesis
  proof (cases "\<exists>d \<in> set ds. di_class d = RISKY")
    case True
    then have "RISKY \<le> summarize_classification ds" using summarize_ge by metis
    with two have "summarize_classification ds = RISKY" by auto
    with nb True show ?thesis by simp
  next
    case False
    then have "RISKY \<notin> di_class ` set ds" by auto
    then have "RISKY \<notin> insert SAFE (di_class ` set ds)" by simp
    then have "summarize_classification ds \<noteq> RISKY" using summarize_in [of ds] by metis
    with two have "summarize_classification ds = SAFE" by simp
    with nb False show ?thesis by simp
  qed
qed

lemma flat_node:
  assumes "plain p"
  shows "node (map_of (flatten (canonicalize p) []) q) =
    (case flat_type p q of None \<Rightarrow> JNull | Some t \<Rightarrow> type_node t)"
proof (cases "map_of (flatten (canonicalize p) []) q")
  case (Some nd)
  from flatten_canonical_nodes [OF assms map_of_SomeD [OF Some]]
  obtain t where "nd = type_node t" ..
  then show ?thesis by (simp add: flat_type_def Some)
qed (simp add: flat_type_def)

lemma same_flat:
  assumes "plain p" "plain q"
  shows "same_node (map_of (flatten (canonicalize p) []) path) (map_of (flatten (canonicalize q) []) path)
    \<longleftrightarrow> flat_type p path = flat_type q path"
  by (auto simp: same_node_def flat_node assms split: option.splits)

lemma classify_types:
  "\<exists>r. classify (case x of None \<Rightarrow> JNull | Some t \<Rightarrow> type_node t)
              (case y of None \<Rightarrow> JNull | Some t \<Rightarrow> type_node t) = Inr (change_class x y, r)"
proof (cases x; cases y)
  fix t assume "x = None" "y = Some t"
  then show ?thesis by (simp add: classify_def leaf_def jget_or_def)
next
  fix t assume "x = Some t" "y = None"
  then show ?thesis by (simp add: classify_def leaf_def jget_or_def)
next
  fix t u assume xy: "x = Some t" "y = Some u"
  have "classify_enum (type_node t) (type_node u) = Inr (SAFE, ''no compatibility risk'')"
    by (simp add: classify_enum_def leaf_def)
  with xy show ?thesis
    unfolding classify_def by (auto simp: Let_def)
next
  assume "x = None" "y = None"
  then show ?thesis by (simp add: classify_def type_of_def nullable_of_def classify_enum_def)
qed

lemma item_flat:
  assumes "plain p" "plain q"
  shows "\<exists>d. diff_item_of path (map_of (flatten (canonicalize p) []) path)
      (map_of (flatten (canonicalize q) []) path) = Inr d
    \<and> di_class d = change_class (flat_type p path) (flat_type q path)"
  using classify_types [of "flat_type p path" "flat_type q path"]
  by (auto simp: diff_item_of_def Let_def flat_node assms)

lemma diff_plain:
  assumes "plain p" "plain q"
  obtains ds where "diff_and_classify (canonicalize p) (canonicalize q) = Inr ds"
    and "sorted_wrt (<) (map di_path ds)"
    and "\<And>path cls. (path, cls) \<in> set (map (\<lambda>d. (di_path d, di_class d)) ds) \<longleftrightarrow>
      flat_type p path \<noteq> flat_type q path \<and> cls = change_class (flat_type p path) (flat_type q path)"
proof -
  have "\<exists>ds. diff_and_classify (canonicalize p) (canonicalize q) = Inr ds"
    unfolding diff_and_classify_def by (rule cls.diff_total) (use item_flat [OF assms] in blast)
  then obtain ds where ds: "diff_and_classify (canonicalize p) (canonicalize q) = Inr ds" by blast
  note dp = ds [unfolded diff_and_classify_def]
  have "(path, cls) \<in> set (map (\<lambda>d. (di_path d, di_class d)) ds) \<longleftrightarrow>
      flat_type p path \<noteq> flat_type q path \<and> cls = change_class (flat_type p path) (flat_type q path)"
    for path cls
  proof
    assume "(path, cls) \<in> set (map (\<lambda>d. (di_path d, di_class d)) ds)"
    then obtain d where d: "d \<in> set ds" "path = di_path d" "cls = di_class d" by auto
    from d(1) obtain path' where p': "\<not> same_node (map_of (flatten (canonicalize p) []) path')
        (map_of (flatten (canonicalize q) []) path')"
      "diff_item_of path' (map_of (flatten (canonicalize p) []) path')
        (map_of (flatten (canonicalize q) []) path') = Inr d"
      using cls.in_diff_iff [OF dp] by blast
    then have "path' = path" using d(2) cls.item_path by blast
    with p' d(3) item_flat [OF assms, of path]
    show "flat_type p path \<noteq> flat_type q path \<and> cls = change_class (flat_type p path) (flat_type q path)"
      by (auto simp: same_flat assms)
  next
    assume c: "flat_type p path \<noteq> flat_type q path \<and> cls = change_class (flat_type p path) (flat_type q path)"
    then obtain d where "d \<in> set ds" "di_path d = path" "diff_item_of path (map_of (flatten (canonicalize p) []) path)
        (map_of (flatten (canonicalize q) []) path) = Inr d"
      using cls.item_of_changed [OF dp, of path] by (auto simp: same_flat assms)
    with c item_flat [OF assms, of path] show "(path, cls) \<in> set (map (\<lambda>d. (di_path d, di_class d)) ds)"
      by force
  qed
  with ds cls.diff_strict [OF dp] that show thesis by blast
qed

section \<open>Removed paths\<close>

text \<open>A path of a plain payload that is gone makes the drift BREAKING.\<close>

lemma path_removed_breaking:
  assumes "plain p" "plain q" "flat_type p path = Some t" "flat_type q path = None"
  shows "\<exists>ds. diff_and_classify (canonicalize p) (canonicalize q) = Inr ds
    \<and> summarize_classification ds = BREAKING"
proof (rule diff_plain [OF assms(1,2)])
  fix ds assume ds: "diff_and_classify (canonicalize p) (canonicalize q) = Inr ds"
    and iff: "\<And>path cls. (path, cls) \<in> set (map (\<lambda>d. (di_path d, di_class d)) ds) \<longleftrightarrow>
      flat_type p path \<noteq> flat_type q path \<and> cls = change_class (flat_type p path) (flat_type q path)"
  have "(path, BREAKING) \<in> set (map (\<lambda>d. (di_path d, di_class d)) ds)"
    unfolding iff by (simp add: assms)
  then have "\<exists>d \<in> set ds. di_class d = BREAKING" by force
  with ds show ?thesis by (simp add: summarize_BREAKING)
qed

lemma canonicalize_map_of [simp]:
  "distinct (keys d) \<Longrightarrow> map_of (map_vals canonicalize (sorted_items d)) k = map_option canonicalize (map_of d k)"
  by simp

lemma clean_keysD: "\<forall>l \<in> fst ` set d. clean_key l \<Longrightarrow> map_of d k = Some v \<Longrightarrow> clean_key k"
  by (metis fst_conv image_eqI map_of_SomeD)

lemma clean_type_keys:
  assumes "plain (JDict d)" "distinct (keys d)" "\<forall>k \<in> fst ` set d. clean_key k" "clean_key k" "below k q"
  shows "map_of (flatten (canonicalize (JDict d)) []) q =
    (case map_of d k of None \<Rightarrow> None | Some v \<Rightarrow> map_of (flatten (canonicalize v) k) q)"
proof -
  have "map_of (flatten (JDict (map_vals canonicalize (sorted_items d))) []) q =
    (case map_of (map_vals canonicalize (sorted_items d)) k of
      None \<Rightarrow> None | Some v \<Rightarrow> map_of (flatten v k) q)"
  proof (rule flatten_field)
    fix l assume "l \<in> fst ` set (map_vals canonicalize (sorted_items d))"
    then have "l \<in> fst ` set d" by simp
    then show "clean_key l" using assms(3) by blast
  qed (use assms in simp_all)
  then show ?thesis using assms(2) by (simp split: option.splits)
qed

lemma flatten_canonical_scalar: "scalar v \<Longrightarrow> flatten (canonicalize v) pre = [(root_or pre, type_node (type_tag v))]"
  by (simp add: canonicalize_scalar)

lemma index_path_below: "below (index_path pre i) (index_path pre j) \<longleftrightarrow> i = j"
proof
  assume "below (index_path pre i) (index_path pre j)"
  then obtain r where "show_nat i @ '']'' @ r = show_nat j @ '']''"
    by (auto simp: below_def index_path_def)
  then have eq: "takeWhile (\<lambda>c. c \<noteq> CHR '']'') (show_nat i @ '']'' @ r) =
      takeWhile (\<lambda>c. c \<noteq> CHR '']'') (show_nat j @ '']'')" by (rule arg_cong)
  have tw: "takeWhile (\<lambda>c. c \<noteq> CHR '']'') (show_nat n @ '']'' @ t) = show_nat n" for n t
    using show_nat_digits [of _ n] by (subst takeWhile_append2) (auto dest!: show_nat_digits)
  from eq tw [of i r] tw [of j "[]"] show "i = j" by simp
qed simp

lemma flatten_array_index:
  assumes "pre \<noteq> []"
  shows "map_of (flatten (JList cs) pre) (index_path pre i) =
    (if i < length cs then map_of (flatten (cs ! i) (index_path pre i)) (index_path pre i) else None)"
proof -
  let ?f = "\<lambda>(i, v). flatten v (index_path pre i)"
  have fl: "flatten (JList cs) pre =
      foldl dict_update [(pre, leaf ''array'' False)] (map ?f (enumerate 0 cs))"
    using assms by simp
  have root: "map_of [(pre, leaf ''array'' False)] (index_path pre i) = None"
    by (simp add: index_path_def)
  have other: "map_of e (index_path pre i) = None" if "e = flatten v (index_path pre j)" "j \<noteq> i" for e v j
  proof -
    have "\<not> below (index_path pre j) (index_path pre i)" using that(2) by (simp add: index_path_below)
    then have "index_path pre i \<notin> fst ` set e"
      unfolding that(1) using flatten_below [OF index_path_ne] by blast
    then show ?thesis by (simp add: map_of_eq_None_iff)
  qed
  show ?thesis
  proof (cases "i < length cs")
    case True
    have split: "enumerate 0 cs = take i (enumerate 0 cs) @ (i, cs ! i) # drop (Suc i) (enumerate 0 cs)"
      using id_take_nth_drop [of i "enumerate 0 cs"] True by (simp add: nth_enumerate_eq)
    have idx: "j \<noteq> i" if "(j, v) \<in> set (take i (enumerate 0 cs)) \<union> set (drop (Suc i) (enumerate 0 cs))" for j v
      using that by (auto simp: in_set_conv_nth nth_enumerate_eq)
    have "map_of (foldl dict_update [(pre, leaf ''array'' False)]
        (map ?f (take i (enumerate 0 cs)) @ ?f (i, cs ! i) # map ?f (drop (Suc i) (enumerate 0 cs)))) (index_path pre i)
      = (case map_of (?f (i, cs ! i)) (index_path pre i) of
          None \<Rightarrow> map_of [(pre, leaf ''array'' False)] (index_path pre i) | Some v \<Rightarrow> Some v)"
    proof (rule map_of_foldl_unique)
      fix e assume "e \<in> set (map ?f (take i (enumerate 0 cs))) \<union> set (map ?f (drop (Suc i) (enumerate 0 cs)))"
      then obtain j v where jv: "(j, v) \<in> set (take i (enumerate 0 cs)) \<union> set (drop (Suc i) (enumerate 0 cs))"
        "e = flatten v (index_path pre j)" by auto
      from other [OF jv(2) idx [OF jv(1)]] show "map_of e (index_path pre i) = None" .
    qed auto
    then show ?thesis
      unfolding fl using True root
      by (subst split) (simp add: map_append split: option.splits)
  next
    case False
    have "map_of (foldl dict_update [(pre, leaf ''array'' False)] (map ?f (enumerate 0 cs))) (index_path pre i)
        = map_of [(pre, leaf ''array'' False)] (index_path pre i)"
    proof (rule map_of_foldl_absent)
      fix e assume "e \<in> set (map ?f (enumerate 0 cs))"
      then obtain j v where jv: "(j, v) \<in> set (enumerate 0 cs)" "e = flatten v (index_path pre j)" by auto
      have "j \<noteq> i" using jv(1) False by (auto simp: in_set_enumerate_eq)
      with other [OF jv(2)] show "distinct (keys e) \<and> map_of e (index_path pre i) = None"
        by (simp add: jv(2))
    qed
    then show ?thesis unfolding fl using False root by simp
  qed
qed

section \<open>Properties of the canonical schema\<close>

text \<open>C26: Two payloads have the same canonical schema exactly when they have the same shape: the
  same object keys, array lengths and JSON types at every leaf, whatever the values are and in
  whatever order the keys came. The canonical schema loses nothing else and adds nothing.\<close>

theorem canonical_identifies_shapes:
  "canonicalize p = canonicalize q \<longleftrightarrow> shape_of p = shape_of q"
  by (rule canonicalize_eq_iff)

text \<open>Key order is invisible to the runtime guard: payloads that differ only in the order of
  the items of their objects get the same fingerprint and no diff, so they are no drift.\<close>

theorem key_order_is_invisible:
  assumes "same_json p q" and "wf_json p"
  shows "fingerprint sha256 (canonicalize p) = fingerprint sha256 (canonicalize q)
    \<and> diff_and_classify (canonicalize p) (canonicalize q) = Inr []"
proof -
  have eq: "canonicalize p = canonicalize q" by (rule canonicalize_same_json) fact
  have "diff_and_classify (canonicalize q) (canonicalize q) = Inr []"
    using wf_canonicalize [OF assms(2)] unfolding eq by (rule diff_self)
  then show ?thesis unfolding eq by (intro conjI refl)
qed

lemma key_order_is_invisible_witness:
  "diff_and_classify (canonicalize (JDict [(''b'', JInt 1), (''a'', JList [JNull])]))
     (canonicalize (JDict [(''a'', JList [JNull]), (''b'', JInt 1)])) = Inr []"
proof -
  have "same_json (JDict [(''b'', JInt 1), (''a'', JList [JNull])]) (JDict [(''a'', JList [JNull]), (''b'', JInt 1)])"
    by (simp add: same_json_def sorted_items_def)
  moreover have "wf_json (JDict [(''b'', JInt 1), (''a'', JList [JNull])])" by simp
  ultimately show ?thesis using key_order_is_invisible by blast
qed

section \<open>Properties of the classifier\<close>

text \<open>C1: The diff of two plain payloads never fails, lists every path whose type changed exactly
  once, in strictly increasing order and no other path, and classifies each as the table says:
  a removed path BREAKING, an added one SAFE, integer to number RISKY, any other change of type
  BREAKING.\<close>

theorem plain_diff_spec:
  assumes "plain p" and "plain q"
  shows "\<exists>ds. diff_and_classify (canonicalize p) (canonicalize q) = Inr ds
    \<and> sorted_wrt (<) (map di_path ds)
    \<and> set (map (\<lambda>d. (di_path d, di_class d)) ds) =
        {(path, change_class (flat_type p path) (flat_type q path)) | path.
          flat_type p path \<noteq> flat_type q path}"
proof -
  obtain ds where ds: "diff_and_classify (canonicalize p) (canonicalize q) = Inr ds"
    "sorted_wrt (<) (map di_path ds)"
    and iff: "\<And>path cls. (path, cls) \<in> set (map (\<lambda>d. (di_path d, di_class d)) ds) \<longleftrightarrow>
      flat_type p path \<noteq> flat_type q path \<and> cls = change_class (flat_type p path) (flat_type q path)"
    using diff_plain [OF assms] by blast
  have "set (map (\<lambda>d. (di_path d, di_class d)) ds) =
        {(path, change_class (flat_type p path) (flat_type q path)) | path.
          flat_type p path \<noteq> flat_type q path}"
    using iff by (auto simp del: set_map)
  with ds show ?thesis by blast
qed

lemma plain_diff_spec_witness:
  "\<exists>ds. diff_and_classify (canonicalize (JDict [(''a'', JInt 1)])) (canonicalize (JDict [(''a'', JFloat ''1.5'')])) = Inr ds
    \<and> sorted_wrt (<) (map di_path ds)"
  using plain_diff_spec [of "JDict [(''a'', JInt 1)]" "JDict [(''a'', JFloat ''1.5'')]"] by auto

text \<open>C2: The verdict of a diff of plain payloads: BREAKING exactly when some path is gone or has a
  type that is not the old one or its widening from integer to number; else RISKY exactly when
  some integer became a number; else SAFE. The classes BACKWARD_COMPATIBLE and
  FORWARD_COMPATIBLE are never the verdict on canonical schemas.\<close>

theorem verdict_of_plain_diff:
  assumes "plain p" and "plain q"
  shows "\<exists>ds. diff_and_classify (canonicalize p) (canonicalize q) = Inr ds
    \<and> summarize_classification ds =
        (if \<exists>path. change_class (flat_type p path) (flat_type q path) = BREAKING then BREAKING
         else if \<exists>path. change_class (flat_type p path) (flat_type q path) = RISKY then RISKY
         else SAFE)"
proof -
  obtain ds where ds: "diff_and_classify (canonicalize p) (canonicalize q) = Inr ds"
    and "sorted_wrt (<) (map di_path ds)"
    and iff: "\<And>path cls. (path, cls) \<in> set (map (\<lambda>d. (di_path d, di_class d)) ds) \<longleftrightarrow>
      flat_type p path \<noteq> flat_type q path \<and> cls = change_class (flat_type p path) (flat_type q path)"
    by (rule diff_plain [OF assms]) (rule that)
  have has: "(\<exists>d \<in> set ds. di_class d = c) \<longleftrightarrow>
      (\<exists>path. change_class (flat_type p path) (flat_type q path) = c)" if "c \<noteq> SAFE" for c
  proof -
    have "(\<exists>d \<in> set ds. di_class d = c) \<longleftrightarrow> (\<exists>path. (path, c) \<in> set (map (\<lambda>d. (di_path d, di_class d)) ds))"
      by force
    also have "\<dots> \<longleftrightarrow> (\<exists>path. flat_type p path \<noteq> flat_type q path
        \<and> c = change_class (flat_type p path) (flat_type q path))"
      unfolding iff ..
    also have "\<dots> \<longleftrightarrow> (\<exists>path. change_class (flat_type p path) (flat_type q path) = c)"
      by (rule ex_cong1) (rule change_class_changed [OF that])
    finally show ?thesis .
  qed
  have "di_class d \<in> {SAFE, RISKY, BREAKING}" if "d \<in> set ds" for d
  proof -
    have "(di_path d, di_class d) \<in> set (map (\<lambda>d. (di_path d, di_class d)) ds)"
      using that by force
    then show ?thesis unfolding iff using change_class_range by simp
  qed
  then have v: "summarize_classification ds = (if \<exists>d \<in> set ds. di_class d = BREAKING then BREAKING
      else if \<exists>d \<in> set ds. di_class d = RISKY then RISKY else SAFE)"
    by (rule verdict_three)
  have "summarize_classification ds =
        (if \<exists>path. change_class (flat_type p path) (flat_type q path) = BREAKING then BREAKING
         else if \<exists>path. change_class (flat_type p path) (flat_type q path) = RISKY then RISKY
         else SAFE)"
    unfolding v has [of BREAKING, simplified] has [of RISKY, simplified] ..
  with ds show ?thesis by blast
qed

lemma verdict_of_plain_diff_witness:
  "\<exists>ds. diff_and_classify (canonicalize (JDict [(''a'', JInt 1)])) (canonicalize (JDict [(''a'', JStr ''x'')])) = Inr ds
    \<and> summarize_classification ds = BREAKING"
proof -
  have "change_class (flat_type (JDict [(''a'', JInt 1)]) ''a'') (flat_type (JDict [(''a'', JStr ''x'')]) ''a'') = BREAKING"
    by (simp add: flat_type_def sorted_items_def join_path_def dict_update_Cons root_or_def)
  then show ?thesis
    using verdict_of_plain_diff [of "JDict [(''a'', JInt 1)]" "JDict [(''a'', JStr ''x'')]"] by auto
qed

text \<open>A field that disappears is a breaking change: when an object loses a field with a scalar
  value and keeps its other fields, the diff succeeds and its verdict is BREAKING (keys without
  \<open>.\<close> and \<open>[\<close>, no key \<open>type\<close>).\<close>

theorem field_removed_is_breaking:
  assumes "plain (JDict d)" "distinct (keys d)" "\<forall>l \<in> fst ` set d. clean_key l"
    and "map_of d k = Some v" "scalar v"
  shows "\<exists>ds. diff_and_classify (canonicalize (JDict d)) (canonicalize (JDict (AList.delete k d))) = Inr ds
    \<and> summarize_classification ds = BREAKING"
proof (rule path_removed_breaking [where path = k])
  have k: "clean_key k" by (rule clean_keysD [OF assms(3,4)])
  show "flat_type (JDict d) k = Some (type_tag v)"
    using clean_type_keys [OF assms(1-3) k below_refl] assms(4,5) k
    by (simp add: flat_type_def flatten_canonical_scalar clean_key_def)
  have sub: "set (AList.delete k d) \<subseteq> set d" by (auto simp: AList.delete_eq)
  have del: "plain (JDict (AList.delete k d))" "distinct (keys (AList.delete k d))"
    "\<forall>l \<in> fst ` set (AList.delete k d). clean_key l" "map_of (AList.delete k d) k = None"
    using assms(1-3) sub by (auto simp: delete_conv' list_all_iff distinct_delete)
  show "plain (JDict (AList.delete k d))" by (rule del(1))
  show "flat_type (JDict (AList.delete k d)) k = None"
    using clean_type_keys [OF del(1-3) k below_refl] del(4) by (simp add: flat_type_def)
qed (rule assms(1))

lemma field_removed_is_breaking_witness:
  "\<exists>ds. diff_and_classify (canonicalize (JDict [(''id'', JInt 1), (''a'', JStr ''x'')]))
      (canonicalize (JDict (AList.delete ''a'' [(''id'', JInt 1), (''a'', JStr ''x'')]))) = Inr ds
    \<and> summarize_classification ds = BREAKING"
  by (rule field_removed_is_breaking [of _ _ "JStr ''x''"]) (simp_all add: clean_key_def)

text \<open>Array positions are schema paths, so array length is part of the contract: a payload whose
  array field has one scalar element less than before is a BREAKING drift
  (\<open>removed required field\<close>), although every element has an unchanged type.\<close>

theorem shorter_array_is_breaking:
  assumes "plain (JDict d)" "distinct (keys d)" "\<forall>l \<in> fst ` set d. clean_key l"
    and "map_of d k = Some (JList (xs @ [v]))" "scalar v"
  shows "\<exists>ds. diff_and_classify (canonicalize (JDict d)) (canonicalize (JDict (dict_set k (JList xs) d))) = Inr ds
    \<and> summarize_classification ds = BREAKING"
proof (rule path_removed_breaking [where path = "index_path k (length xs)"])
  have k: "clean_key k" by (rule clean_keysD [OF assms(3,4)])
  then have kne: "k \<noteq> []" by (simp add: clean_key_def)
  have "plain (JList (xs @ [v]))"
    using assms(1) map_of_SomeD [OF assms(4)] by (auto simp: list_all_iff)
  then have xs: "plain (JList xs)" by simp
  have "flat_type (JDict d) (index_path k (length xs)) =
      map_option type_of (map_of (flatten (canonicalize (JList (xs @ [v]))) k) (index_path k (length xs)))"
    using clean_type_keys [OF assms(1-3) k below_index] assms(4) by (simp add: flat_type_def)
  also have "\<dots> = Some (type_tag v)"
    using flatten_array_index [OF kne, of "map canonicalize (xs @ [v])" "length xs"] assms(5)
    by (simp add: nth_append flatten_canonical_scalar del: flatten.simps)
  finally show "flat_type (JDict d) (index_path k (length xs)) = Some (type_tag v)" .
  have nt: "map_of d ''type'' = None" using assms(1) by simp
  with assms(4) have kt: "k \<noteq> ''type''" by auto
  have upd: "distinct (keys (dict_set k (JList xs) d))" "\<forall>l \<in> fst ` set (dict_set k (JList xs) d). clean_key l"
    "map_of (dict_set k (JList xs) d) k = Some (JList xs)"
    using assms(2,3) k by (simp_all add: distinct_update update_conv')
  have "plain (snd x)" if "x \<in> set (dict_set k (JList xs) d)" for x
    using subsetD [OF set_dict_set that] assms(1) xs by (auto simp: list_all_iff)
  then show pl: "plain (JDict (dict_set k (JList xs) d))"
    using nt kt by (auto simp: update_conv' list_all_iff)
  have "flat_type (JDict (dict_set k (JList xs) d)) (index_path k (length xs)) =
      map_option type_of (map_of (flatten (canonicalize (JList xs)) k) (index_path k (length xs)))"
    using clean_type_keys [OF pl upd(1,2) k below_index] upd(3) by (simp add: flat_type_def)
  also have "\<dots> = None"
    using flatten_array_index [OF kne, of "map canonicalize xs" "length xs"]
    by (simp del: flatten.simps)
  finally show "flat_type (JDict (dict_set k (JList xs) d)) (index_path k (length xs)) = None" .
qed (rule assms(1))

lemma shorter_array_is_breaking_witness:
  "\<exists>ds. diff_and_classify (canonicalize (JDict [(''tags'', JList ([JStr ''x''] @ [JStr ''y'']))]))
      (canonicalize (JDict (dict_set ''tags'' (JList [JStr ''x'']) [(''tags'', JList ([JStr ''x''] @ [JStr ''y'']))]))) = Inr ds
    \<and> summarize_classification ds = BREAKING"
  by (rule shorter_array_is_breaking [of _ _ _ "JStr ''y''"]) (simp_all add: clean_key_def)

text \<open>A payload field called \<open>type\<close> hides the rest of its object: when two objects both have a
  field \<open>type\<close> of the same shape (and neither \<open>nullable\<close> nor \<open>enum\<close>), whatever else was added,
  removed or changed in them is classified SAFE.\<close>

theorem type_key_masks_drift:
  assumes "wf_json (JDict d)" "wf_json (JDict e)"
    and "map_of d ''type'' = Some t" "map_of e ''type'' = Some u" "shape_of t = shape_of u"
    and "map_of d ''nullable'' = None" "map_of d ''enum'' = None"
  shows "\<exists>ds. diff_and_classify (canonicalize (JDict d)) (canonicalize (JDict e)) = Inr ds
    \<and> summarize_classification ds = SAFE"
proof -
  let ?x = "canonicalize (JDict d)" and ?y = "canonicalize (JDict e)"
  have x: "jget ?x ''type'' = Some (canonicalize t)" "jget ?x ''nullable'' = None" "jget ?x ''enum'' = None"
    and y: "jget ?y ''type'' = Some (canonicalize u)"
    using assms by simp_all
  have "canonicalize t = canonicalize u" using assms(5) by (simp add: canonicalize_eq_iff)
  with x y have ty: "type_of ?x = type_of ?y" unfolding type_of_def by (simp only: option.simps)
  have "classify ?x ?y = Inr (SAFE, ''no compatibility risk'')"
    unfolding classify_def
    using x ty by (simp add: nullable_of_def classify_enum_def)
  then obtain i where i: "diff_item_of ''[root]'' (Some ?x) (Some ?y) = Inr i" "di_class i = SAFE"
    by (simp add: diff_item_of_def Let_def del: canonicalize.simps)
  have fl: "flatten ?x [] = [(''[root]'', ?x)]" "flatten ?y [] = [(''[root]'', ?y)]"
    using flatten_typed [OF x(1)] flatten_typed [OF y] by (simp_all only: root_or_def simp_thms if_True)
  have "diff_and_classify ?x ?y = (if same_node (Some ?x) (Some ?y) then Inr [] else Inr [i])"
    unfolding diff_and_classify_def fl diff_paths_def
    using i by (simp add: changed_paths_def sorted_set_def del: canonicalize.simps)
  then show ?thesis using i(2) by (auto simp: summarize_classification_def)
qed

lemma type_key_masks_drift_witness:
  "\<exists>ds. diff_and_classify (canonicalize (JDict [(''type'', JStr ''card''), (''amount'', JInt 5)]))
      (canonicalize (JDict [(''type'', JStr ''cash'')])) = Inr ds \<and> summarize_classification ds = SAFE"
  by (rule type_key_masks_drift [of _ _ "JStr ''card''" "JStr ''cash''"]) simp_all

text \<open>C35: The classifier can raise on ordinary payloads: when both payloads have a field \<open>type\<close> of the
  same shape and a field \<open>enum\<close> holding an array (not empty in the first), and their numbers of
  fields differ, building the set of the old \<open>enum\<close> schema raises a TypeError, so the request that
  carries the second payload fails.\<close>

theorem enum_field_raises:
  assumes "wf_json (JDict d)" "wf_json (JDict e)"
    and "map_of d ''type'' = Some t" "map_of e ''type'' = Some u" "shape_of t = shape_of u"
    and "map_of d ''nullable'' = None"
    and "map_of d ''enum'' = Some (JList (x # xs))" "map_of e ''enum'' = Some (JList ys)"
    and "length d \<noteq> length e"
  shows "\<exists>m. diff_and_classify (canonicalize (JDict d)) (canonicalize (JDict e)) = Inl (TypeError m)"
proof -
  let ?x = "canonicalize (JDict d)" and ?y = "canonicalize (JDict e)"
  have x: "jget ?x ''type'' = Some (canonicalize t)" "jget ?x ''nullable'' = None"
      "jget ?x ''enum'' = Some (JList (map canonicalize (x # xs)))"
    and y: "jget ?y ''type'' = Some (canonicalize u)" "jget ?y ''enum'' = Some (JList (map canonicalize ys))"
    using assms by simp_all
  have "canonicalize t = canonicalize u" using assms(5) by (simp add: canonicalize_eq_iff)
  with x y have ty: "type_of ?x = type_of ?y" unfolding type_of_def by (simp only: option.simps)
  have "unhashable (canonicalize x)" by (cases x) (simp_all add: unhashable_def leaf_def)
  then obtain m where m: "py_set (map canonicalize (x # xs)) = Inl (TypeError m)"
    by (simp add: py_set_def)
  have "classify ?x ?y = Inl (TypeError m)"
    unfolding classify_def classify_enum_def nullable_of_def x y using m ty by simp
  then have i: "diff_item_of ''[root]'' (Some ?x) (Some ?y) = Inl (TypeError m)"
    by (simp add: diff_item_of_def Let_def del: canonicalize.simps)
  have fl: "flatten ?x [] = [(''[root]'', ?x)]" "flatten ?y [] = [(''[root]'', ?y)]"
    using flatten_typed [OF x(1)] flatten_typed [OF y(1)] by (simp_all only: root_or_def simp_thms if_True)
  have len: "length (sorted_items f) = length f" for f :: "json pydict"
    by (simp add: sorted_items_def)
  have "\<not> same_node (Some ?x) (Some ?y)" using assms(9) by (simp add: same_node_def len)
  then have "diff_and_classify ?x ?y = Inl (TypeError m)"
    unfolding diff_and_classify_def fl diff_paths_def
    using i by (simp add: changed_paths_def sorted_set_def del: canonicalize.simps)
  then show ?thesis by blast
qed

lemma enum_field_raises_witness:
  "\<exists>m. diff_and_classify
      (canonicalize (JDict [(''type'', JStr ''a''), (''enum'', JList [JStr ''p''])]))
      (canonicalize (JDict [(''type'', JStr ''b''), (''enum'', JList [JStr ''p'']), (''n'', JInt 1)]))
    = Inl (TypeError m)"
  by (rule enum_field_raises [of _ _ "JStr ''a''" "JStr ''b''" "JStr ''p''" "[]" "[JStr ''p'']"]) simp_all

end
