(* ===== verification/Runtime_Tables.thy ===== *)
theory Runtime_Tables
  imports Json
begin

text \<open>
  The state the runtime guard works on: the tables of \<^verbatim>\<open>migrations/*.sql\<close> as lists of rows in
  insertion order, the gauges and counters of \<^verbatim>\<open>app/runtime/metrics.py\<close> that the code keeps in
  step with them, the clock, and the supply of fresh identifiers that stands for
  \<open>gen_random_uuid()\<close> and \<open>uuid.uuid4()\<close>. A statement succeeds unless the model says otherwise:
  connection failures, column width limits and malformed identifiers are not modelled.
  A \<open>JSONB\<close> column gives back the value that was stored.
\<close>

section \<open>Time\<close>

text \<open>A moment is the number of microseconds since 1970-01-01 00:00 UTC.\<close>

type_synonym moment = nat

definition seconds :: "nat \<Rightarrow> moment" where
  "seconds n = n * 1000000"

definition pad :: "nat \<Rightarrow> nat \<Rightarrow> string" where
  "pad w n = replicate (w - length (show_nat n)) CHR ''0'' @ show_nat n"

text \<open>The proleptic Gregorian date of a day number, as year, month and day.\<close>

definition civil :: "nat \<Rightarrow> nat \<times> nat \<times> nat" where
  "civil days =
     (let z = days + 719468;
          era = z div 146097;
          doe = z mod 146097;
          yoe = (doe - doe div 1460 + doe div 36524 - doe div 146096) div 365;
          doy = doe - (365 * yoe + yoe div 4 - yoe div 100);
          mp = (5 * doy + 2) div 153;
          d = doy - (153 * mp + 2) div 5 + 1;
          m = (if mp < 10 then mp + 3 else mp - 9)
      in (yoe + era * 400 + (if m \<le> 2 then 1 else 0), m, d))"

text \<open>\<open>dt.isoformat()\<close> of a datetime in UTC.\<close>

definition isoformat :: "moment \<Rightarrow> string" where
  "isoformat t =
     (let us = t mod 1000000; s = t div 1000000; (y, m, d) = civil (s div 86400); r = s mod 86400
      in pad 4 y @ ''-'' @ pad 2 m @ ''-'' @ pad 2 d @ ''T''
         @ pad 2 (r div 3600) @ '':'' @ pad 2 (r div 60 mod 60) @ '':'' @ pad 2 (r mod 60)
         @ (if us = 0 then [] else ''.'' @ pad 6 us) @ ''+00:00'')"

section \<open>Identifiers\<close>

definition gen_uuid :: "nat \<Rightarrow> string" where
  "gen_uuid n = ''uuid-'' @ show_nat n"

lemma gen_uuid_inject [simp]: "gen_uuid m = gen_uuid n \<longleftrightarrow> m = n"
  by (simp add: gen_uuid_def)

lemma gen_uuid_ne [simp]: "gen_uuid n \<noteq> []"
  by (simp add: gen_uuid_def)

text \<open>An identifier the supply has not handed out yet.\<close>

definition issued :: "nat \<Rightarrow> string \<Rightarrow> bool" where
  "issued n i \<longleftrightarrow> (\<exists>m < n. i = gen_uuid m)"

lemma issued_fresh [simp]: "\<not> issued n (gen_uuid n)"
  by (simp add: issued_def)

lemma issued_gen [simp]: "issued (Suc n) (gen_uuid n)"
  by (auto simp: issued_def)

lemma issued_mono: "issued n i \<Longrightarrow> n \<le> m \<Longrightarrow> issued m i"
  by (auto simp: issued_def)

lemma issued_Suc [simp]: "issued n i \<Longrightarrow> issued (Suc n) i"
  by (auto simp: issued_def intro: less_SucI)

section \<open>Rows\<close>

text \<open>\<open>001_contract_guard_schema.sql\<close>\<close>

record api_endpoint =
  ae_id :: string
  ae_service :: string
  ae_method :: string
  ae_route :: string

record schema_snapshot =
  ss_id :: string
  ss_endpoint :: string
  ss_fingerprint :: string
  ss_schema :: json
  ss_baseline :: bool
  ss_created :: moment

record drift_violation =
  dv_id :: string
  dv_endpoint :: string
  dv_fingerprint :: string
  dv_severity :: string
  dv_payload :: json
  dv_detected :: moment

text \<open>\<open>003_event_driven_registry.sql\<close>\<close>

record reg_endpoint =
  re_id :: string
  re_namespace :: string
  re_service :: string
  re_method :: string
  re_route :: string
  re_name :: string

record schema_version =
  sv_id :: string
  sv_endpoint :: string
  sv_version :: int
  sv_fingerprint :: string
  sv_schema :: json
  sv_class :: string
  sv_previous :: "string option"
  sv_current :: bool

record subscription =
  sub_id :: string
  sub_consumer :: string
  sub_endpoint :: string
  sub_url :: string
  sub_threshold :: string
  sub_version :: "int option"
  sub_active :: bool
  sub_created :: moment
  sub_updated :: moment

record delivery_attempt =
  da_id :: string
  da_event :: string
  da_consumer :: string
  da_endpoint :: string
  da_url :: string
  da_success :: bool
  da_reason :: "string option"
  da_count :: int
  da_at :: moment

record dlq_row =
  dl_id :: string
  dl_event :: string
  dl_consumer :: string
  dl_endpoint :: string
  dl_url :: string
  dl_payload :: json
  dl_reason :: string
  dl_count :: int
  dl_created :: moment
  dl_last :: moment

text \<open>\<open>005_webhook_outbox.sql\<close> and \<open>006_drift_event_dlq.sql\<close>\<close>

datatype outbox_status = PENDING | DELIVERING | FAILED | DELIVERED

record outbox_row =
  ob_id :: string
  ob_sub :: string
  ob_endpoint :: string
  ob_payload :: json
  ob_status :: outbox_status
  ob_attempts :: int
  ob_max :: int
  ob_next :: moment
  ob_created :: moment
  ob_updated :: moment

datatype event_dlq_status = EV_PENDING | EV_REPLAYED

record event_dlq_row =
  ed_id :: string
  ed_event :: string
  ed_endpoint :: string
  ed_name :: string
  ed_namespace :: string
  ed_payload :: json
  ed_reason :: string
  ed_publisher :: string
  ed_count :: int
  ed_status :: event_dlq_status
  ed_error :: "string option"
  ed_created :: moment
  ed_updated :: moment
  ed_last :: moment
  ed_replayed :: "moment option"

section \<open>The database\<close>

record rdb =
  next_id :: nat
  now :: moment
  api_endpoints :: "api_endpoint list"
  schema_snapshots :: "schema_snapshot list"
  drift_violations :: "drift_violation list"
  endpoints :: "reg_endpoint list"
  versions :: "schema_version list"
  subscriptions :: "subscription list"
  attempts :: "delivery_attempt list"
  dlq :: "dlq_row list"
  outbox :: "outbox_row list"
  event_dlq :: "event_dlq_row list"
  dlq_size :: int
  outbox_pending_gauge :: int
  event_dlq_size :: int
  delivery_failures :: nat
  publish_failures :: nat
  classification_total :: "string list"
  drift_total :: "(string \<times> string) list"

definition empty_rdb :: "moment \<Rightarrow> rdb" where
  "empty_rdb t = \<lparr>next_id = 0, now = t, api_endpoints = [], schema_snapshots = [], drift_violations = [],
     endpoints = [], versions = [], subscriptions = [], attempts = [], dlq = [], outbox = [],
     event_dlq = [], dlq_size = 0, outbox_pending_gauge = 0, event_dlq_size = 0,
     delivery_failures = 0, publish_failures = 0, classification_total = [], drift_total = []\<rparr>"

definition fresh_id :: "rdb \<Rightarrow> string \<times> rdb" where
  "fresh_id db = (gen_uuid (next_id db), db\<lparr>next_id := Suc (next_id db)\<rparr>)"

text \<open>\<open>LIMIT n\<close>: a negative limit is an error in the database, so the callers pass naturals.\<close>

abbreviation limit_rows :: "nat \<Rightarrow> 'a list \<Rightarrow> 'a list" where
  "limit_rows \<equiv> take"

definition opt_json :: "('a \<Rightarrow> json) \<Rightarrow> 'a option \<Rightarrow> json" where
  "opt_json f x = (case x of None \<Rightarrow> JNull | Some v \<Rightarrow> f v)"

lemma opt_json_simps [simp]: "opt_json f None = JNull" "opt_json f (Some v) = f v"
  by (simp_all add: opt_json_def)

end
