(* ===== verification/Registry.thy ===== *)
theory Registry
  imports Runtime_Tables
begin

text \<open>
  \<^verbatim>\<open>app/runtime/registry.py\<close>: the registry of endpoints and of their schema versions. One request
  at a time is modelled here; requests that run concurrently under the advisory lock are the
  subject of the theory \<open>Registry_Lock\<close>. \<open>SchemaVersionRecord\<close> has the fields of a row of
  \<open>contract_schema_versions\<close>, so the row record stands for both.
\<close>

section \<open>Operations\<close>

definition hex_int :: "string \<Rightarrow> int" where
  "hex_int s = foldl (\<lambda>n c. 16 * n + int (let k = of_char c in if k \<le> 57 then k - 48 else k - 87)) 0 s"

definition lock_id :: "(string \<Rightarrow> string) \<Rightarrow> string \<Rightarrow> string \<Rightarrow> string \<Rightarrow> string \<Rightarrow> int" where
  "lock_id sha1 namespace service_name method route =
     hex_int (take 16 (sha1 (namespace @ '':'' @ service_name @ '':'' @ method @ '':'' @ route)))
       mod 2147483647"

definition reg_key :: "reg_endpoint \<Rightarrow> string \<times> string \<times> string \<times> string" where
  "reg_key e = (re_namespace e, re_service e, re_method e, re_route e)"

text \<open>The result is the endpoint's id and name, and the database.\<close>

definition ensure_endpoint ::
  "rdb \<Rightarrow> string \<Rightarrow> string \<Rightarrow> string \<Rightarrow> string \<Rightarrow> (string \<times> string) \<times> rdb" where
  "ensure_endpoint db namespace service_name http_method route_path =
     (let endpoint_name = service_name @ '' '' @ http_method @ '' '' @ route_path;
          found = first_row (filter (\<lambda>e. reg_key e = (namespace, service_name, http_method, route_path))
                    (endpoints db))
      in case found of
           Some e \<Rightarrow> ((re_id e, re_name e), db)
         | None \<Rightarrow>
             (let (i, db) = fresh_id db;
                  e = \<lparr>re_id = i, re_namespace = namespace, re_service = service_name,
                       re_method = http_method, re_route = route_path, re_name = endpoint_name\<rparr>
              in ((i, endpoint_name), db\<lparr>endpoints := endpoints db @ [e]\<rparr>)))"

definition rows_of :: "schema_version list \<Rightarrow> string \<Rightarrow> schema_version list" where
  "rows_of vs endpoint_id = filter (\<lambda>v. sv_endpoint v = endpoint_id) vs"

definition get_current_schema :: "schema_version list \<Rightarrow> string \<Rightarrow> schema_version option" where
  "get_current_schema vs endpoint_id =
     first_row (sort_desc sv_version (filter (\<lambda>v. sv_endpoint v = endpoint_id \<and> sv_current v) vs))"

definition find_version :: "schema_version list \<Rightarrow> string \<Rightarrow> string \<Rightarrow> schema_version option" where
  "find_version vs endpoint_id fp =
     first_row (filter (\<lambda>v. sv_endpoint v = endpoint_id \<and> sv_fingerprint v = fp) vs)"

text \<open>The row inserted after \<open>current\<close>, and the two statements that write it.\<close>

definition next_row :: "schema_version option \<Rightarrow> string \<Rightarrow> string \<Rightarrow> string \<Rightarrow> json \<Rightarrow> string \<Rightarrow> schema_version" where
  "next_row current version_id endpoint_id fp canonical_schema classification =
     \<lparr>sv_id = version_id, sv_endpoint = endpoint_id,
      sv_version = (case current of None \<Rightarrow> 1 | Some c \<Rightarrow> sv_version c + 1),
      sv_fingerprint = fp, sv_schema = canonical_schema, sv_class = classification,
      sv_previous = map_option sv_id current, sv_current = True\<rparr>"

definition write_version :: "schema_version option \<Rightarrow> schema_version \<Rightarrow> schema_version list \<Rightarrow> schema_version list" where
  "write_version current row vs =
     (case current of
        None \<Rightarrow> vs
      | Some c \<Rightarrow> update_where (\<lambda>v. sv_id v = sv_id c) (\<lambda>v. v\<lparr>sv_current := False\<rparr>) vs) @ [row]"

definition upsert_schema_version ::
  "rdb \<Rightarrow> string \<Rightarrow> string \<Rightarrow> string \<Rightarrow> string \<Rightarrow> string \<Rightarrow> json \<Rightarrow> string \<Rightarrow>
   (string \<times> string \<times> schema_version \<times> bool) \<times> rdb" where
  "upsert_schema_version db namespace service_name http_method route_path fp canonical_schema classification =
     (let ((endpoint_id, endpoint_name), db) =
            ensure_endpoint db namespace service_name http_method route_path
      in case find_version (versions db) endpoint_id fp of
           Some fast \<Rightarrow> ((endpoint_id, endpoint_name, fast, False), db)
         | None \<Rightarrow>
             (let current = get_current_schema (versions db) endpoint_id
              in case find_version (versions db) endpoint_id fp of
                   Some found \<Rightarrow> ((endpoint_id, endpoint_name, found, False), db)
                 | None \<Rightarrow>
                     (let (version_id, db) = fresh_id db;
                          row = next_row current version_id endpoint_id fp canonical_schema classification
                      in ((endpoint_id, endpoint_name, row, True),
                          db\<lparr>versions := write_version current row (versions db)\<rparr>))))"

section \<open>The invariant\<close>

text \<open>
  The rows of one endpoint form a chain: versions 1, 2, \<open>\<dots>\<close> in the order of insertion, each row
  linked to the one before it, pairwise different fingerprints, and exactly the last one current.
\<close>

definition chain :: "schema_version list \<Rightarrow> bool" where
  "chain vs \<longleftrightarrow>
     (\<forall>i < length vs.
        sv_version (vs ! i) = int i + 1
        \<and> sv_current (vs ! i) = (Suc i = length vs)
        \<and> sv_previous (vs ! i) = (if i = 0 then None else Some (sv_id (vs ! (i - 1)))))
     \<and> distinct (map sv_fingerprint vs)"

definition versions_ok :: "nat \<Rightarrow> schema_version list \<Rightarrow> bool" where
  "versions_ok n vs \<longleftrightarrow>
     distinct (map sv_id vs) \<and> (\<forall>v \<in> set vs. issued n (sv_id v)) \<and> (\<forall>e. chain (rows_of vs e))"

definition endpoints_ok :: "nat \<Rightarrow> reg_endpoint list \<Rightarrow> bool" where
  "endpoints_ok n es \<longleftrightarrow>
     distinct (map reg_key es) \<and> distinct (map re_id es) \<and> (\<forall>e \<in> set es. issued n (re_id e))"

definition registry_ok :: "rdb \<Rightarrow> bool" where
  "registry_ok db \<longleftrightarrow>
     endpoints_ok (next_id db) (endpoints db) \<and> versions_ok (next_id db) (versions db)"

lemma registry_ok_empty [simp]: "registry_ok (empty_rdb t)"
  by (simp add: registry_ok_def endpoints_ok_def versions_ok_def empty_rdb_def rows_of_def chain_def)

lemma in_rows_of [simp]: "v \<in> set (rows_of vs e) \<longleftrightarrow> v \<in> set vs \<and> sv_endpoint v = e"
  by (auto simp: rows_of_def)

lemma rows_of_append: "rows_of (vs @ ws) e = rows_of vs e @ rows_of ws e"
  by (simp add: rows_of_def)

lemma rows_of_update:
  "(\<And>v. sv_endpoint (f v) = sv_endpoint v) \<Longrightarrow> rows_of (update_where p f vs) e = update_where p f (rows_of vs e)"
  by (induction vs) (auto simp: update_where_def rows_of_def)

section \<open>Reading a chain\<close>

lemma chain_current_last:
  assumes "chain vs" shows "filter sv_current vs = (if vs = [] then [] else [last vs])"
proof (cases vs rule: rev_exhaust)
  case (snoc us v)
  have "\<not> sv_current u" if "u \<in> set us" for u
  proof -
    from that obtain i where i: "i < length us" "u = us ! i" by (metis in_set_conv_nth)
    then have "sv_current (vs ! i) = (Suc i = length vs)"
      using assms unfolding chain_def snoc by (metis length_append_singleton less_Suc_eq)
    with i show ?thesis by (simp add: snoc nth_append)
  qed
  moreover have "sv_current (vs ! length us) = (Suc (length us) = length vs)"
    using assms unfolding chain_def snoc by (metis length_append_singleton lessI)
  then have "sv_current v" by (simp add: snoc)
  ultimately show ?thesis by (simp add: snoc filter_empty_conv)
qed simp

lemma get_current_chain:
  assumes "chain (rows_of vs e)"
  shows "get_current_schema vs e = (if rows_of vs e = [] then None else Some (last (rows_of vs e)))"
proof -
  have "filter (\<lambda>v. sv_endpoint v = e \<and> sv_current v) vs = filter sv_current (rows_of vs e)"
    by (simp add: rows_of_def conj_commute)
  then show ?thesis
    using chain_current_last [OF assms]
    by (simp add: get_current_schema_def sort_desc_def)
qed

lemma find_version_rows: "find_version vs e fp = first_row (filter (\<lambda>v. sv_fingerprint v = fp) (rows_of vs e))"
  by (simp add: find_version_def rows_of_def conj_commute)

lemma find_version_None: "find_version vs e fp = None \<longleftrightarrow> fp \<notin> sv_fingerprint ` set (rows_of vs e)"
  by (auto simp: find_version_rows filter_empty_conv)

lemma find_version_Some:
  assumes "chain (rows_of vs e)" and "v \<in> set (rows_of vs e)"
  shows "find_version vs e (sv_fingerprint v) = Some v"
  unfolding find_version_rows
proof (rule first_row_filter_unique)
  have "inj_on sv_fingerprint (set (rows_of vs e))"
    using assms(1) by (simp add: chain_def distinct_map)
  then show "w = v" if "w \<in> set (rows_of vs e)" "sv_fingerprint w = sv_fingerprint v" for w
    using that assms(2) by (metis inj_onD)
qed (use assms in auto)

lemma find_version_SomeD:
  "find_version vs e fp = Some v \<Longrightarrow> v \<in> set (rows_of vs e) \<and> sv_fingerprint v = fp"
  by (auto simp: find_version_rows dest!: first_row_Some_set)

section \<open>Writing a chain\<close>

text \<open>What the two statements of an insertion do to the rows of the endpoint.\<close>

definition extend_rows :: "schema_version list \<Rightarrow> schema_version \<Rightarrow> schema_version list" where
  "extend_rows vs row = map (\<lambda>v. v\<lparr>sv_current := False\<rparr>) vs @ [row]"

lemma chain_extend:
  assumes "chain vs" and "fp \<notin> sv_fingerprint ` set vs"
  shows "chain (extend_rows vs (next_row (if vs = [] then None else Some (last vs)) i e fp s c))"
proof -
  have idx: "(j < length vs \<longrightarrow> sv_version (vs ! j) = int j + 1
      \<and> sv_previous (vs ! j) = (if j = 0 then None else Some (sv_id (vs ! (j - 1)))))" for j
    using assms(1) by (simp add: chain_def)
  have lst: "vs \<noteq> [] \<Longrightarrow> sv_version (last vs) = int (length vs)"
    using idx [of "length vs - 1"] by (simp add: last_conv_nth of_nat_diff Suc_le_eq)
  show ?thesis
    unfolding chain_def extend_rows_def
  proof (intro conjI allI impI)
    fix j assume j: "j < length (map (\<lambda>v. v\<lparr>sv_current := False\<rparr>) vs @ [next_row (if vs = [] then None else Some (last vs)) i e fp s c])"
    show "sv_version ((map (\<lambda>v. v\<lparr>sv_current := False\<rparr>) vs @ [next_row (if vs = [] then None else Some (last vs)) i e fp s c]) ! j) = int j + 1"
      using j idx [of j] lst by (cases "j < length vs") (auto simp: nth_append next_row_def less_Suc_eq)
    show "sv_current ((map (\<lambda>v. v\<lparr>sv_current := False\<rparr>) vs @ [next_row (if vs = [] then None else Some (last vs)) i e fp s c]) ! j)
        = (Suc j = length (map (\<lambda>v. v\<lparr>sv_current := False\<rparr>) vs @ [next_row (if vs = [] then None else Some (last vs)) i e fp s c]))"
      using j by (cases "j < length vs") (auto simp: nth_append next_row_def less_Suc_eq)
    show "sv_previous ((map (\<lambda>v. v\<lparr>sv_current := False\<rparr>) vs @ [next_row (if vs = [] then None else Some (last vs)) i e fp s c]) ! j)
        = (if j = 0 then None else Some (sv_id ((map (\<lambda>v. v\<lparr>sv_current := False\<rparr>) vs @ [next_row (if vs = [] then None else Some (last vs)) i e fp s c]) ! (j - 1))))"
      using j idx [of j] by (cases "j < length vs") (auto simp: nth_append next_row_def less_Suc_eq last_conv_nth)
  next
    have "map sv_fingerprint (map (\<lambda>v. v\<lparr>sv_current := False\<rparr>) vs) = map sv_fingerprint vs"
      by simp
    then show "distinct (map sv_fingerprint (map (\<lambda>v. v\<lparr>sv_current := False\<rparr>) vs @ [next_row (if vs = [] then None else Some (last vs)) i e fp s c]))"
      using assms by (simp add: chain_def next_row_def image_image comp_def)
  qed
qed

text \<open>The update by id touches the last row of the endpoint and no row of another one.\<close>

lemma clear_last:
  assumes "chain vs" "distinct (map sv_id vs)" "vs \<noteq> []"
  shows "update_where (\<lambda>v. sv_id v = sv_id (last vs)) (\<lambda>v. v\<lparr>sv_current := False\<rparr>) vs
    = map (\<lambda>v. v\<lparr>sv_current := False\<rparr>) vs"
  unfolding update_where_def
proof (rule map_cong [OF refl])
  fix v assume v: "v \<in> set vs"
  show "(if sv_id v = sv_id (last vs) then v\<lparr>sv_current := False\<rparr> else v) = v\<lparr>sv_current := False\<rparr>"
  proof (cases "sv_id v = sv_id (last vs)")
    case False
    then have "v \<noteq> last vs" by auto
    moreover have "set (filter sv_current vs) = {last vs}"
      using chain_current_last [OF assms(1)] assms(3) by simp
    ultimately have "\<not> sv_current v" using v by auto
    then show ?thesis using False by simp
  qed simp
qed

lemma rows_of_write:
  assumes "versions_ok n vs"
  shows "rows_of (write_version (get_current_schema vs e) (next_row (get_current_schema vs e) i e fp s c) vs) f
    = (if f = e then extend_rows (rows_of vs e)
        (next_row (if rows_of vs e = [] then None else Some (last (rows_of vs e))) i e fp s c)
       else rows_of vs f)"
proof -
  have ch: "chain (rows_of vs e)" and d: "distinct (map sv_id vs)"
    using assms by (auto simp: versions_ok_def)
  have d': "distinct (map sv_id (rows_of vs e))"
    using d by (simp add: rows_of_def distinct_map_filter)
  note cur = get_current_chain [OF ch]
  show ?thesis
  proof (cases "rows_of vs e = []")
    case True
    then show ?thesis
      by (simp add: cur write_version_def rows_of_append extend_rows_def)
        (simp add: rows_of_def next_row_def)
  next
    case False
    let ?c = "last (rows_of vs e)"
    have c: "?c \<in> set vs" "sv_endpoint ?c = e"
      using last_in_set [OF False] by simp_all
    have other: "update_where (\<lambda>v. sv_id v = sv_id ?c) (\<lambda>v. v\<lparr>sv_current := False\<rparr>) (rows_of vs f) = rows_of vs f"
      if "f \<noteq> e"
    proof (rule update_where_none)
      fix r assume "r \<in> set (rows_of vs f)"
      then have "r \<in> set vs" "r \<noteq> ?c" using that c by auto
      then show "sv_id r \<noteq> sv_id ?c" using d c(1) by (metis distinct_map inj_onD)
    qed
    show ?thesis
      using False other clear_last [OF ch d' False]
      by (simp add: cur write_version_def rows_of_append rows_of_update extend_rows_def)
        (simp add: rows_of_def next_row_def)
  qed
qed

lemma ids_write: "map sv_id (write_version cur row vs) = map sv_id vs @ [sv_id row]"
  by (simp add: write_version_def map_update_where split: option.split)

lemma versions_ok_mono: "versions_ok n vs \<Longrightarrow> n \<le> m \<Longrightarrow> versions_ok m vs"
  by (auto simp: versions_ok_def intro: issued_mono)

lemma versions_ok_write:
  assumes ok: "versions_ok n vs" and new: "find_version vs e fp = None"
    and i: "issued m i" "i \<notin> sv_id ` set vs" "n \<le> m"
  shows "versions_ok m
    (write_version (get_current_schema vs e) (next_row (get_current_schema vs e) i e fp s c) vs)"
proof -
  let ?w = "write_version (get_current_schema vs e) (next_row (get_current_schema vs e) i e fp s c) vs"
  have ids: "map sv_id ?w = map sv_id vs @ [i]"
    unfolding ids_write by (simp add: next_row_def)
  have "\<forall>x \<in> set (map sv_id vs). issued m x"
    using ok issued_mono [OF _ i(3)] by (simp add: versions_ok_def)
  then have "\<forall>x \<in> set (map sv_id ?w). issued m x" unfolding ids using i(1) by auto
  moreover have "distinct (map sv_id ?w)"
    unfolding ids using ok i(2) by (simp add: versions_ok_def)
  moreover have "chain (rows_of ?w f)" for f
  proof -
    have "chain (rows_of vs e)" "chain (rows_of vs f)" using ok by (auto simp: versions_ok_def)
    then show ?thesis
      unfolding rows_of_write [OF ok] using chain_extend new [unfolded find_version_None] by simp
  qed
  ultimately show ?thesis by (simp add: versions_ok_def)
qed

lemma fresh_not_used: "versions_ok n vs \<Longrightarrow> gen_uuid n \<notin> sv_id ` set vs"
  unfolding versions_ok_def by (metis imageE issued_fresh)

lemma ensure_endpoint_facts:
  assumes "endpoints_ok (next_id db) (endpoints db)"
    and "ensure_endpoint db ns svc m r = ((e, name), db')"
  shows "endpoints_ok (next_id db') (endpoints db')"
    and "versions db' = versions db" and "next_id db \<le> next_id db'"
    and "\<exists>x \<in> set (endpoints db'). reg_key x = (ns, svc, m, r) \<and> re_id x = e \<and> re_name x = name"
    and "ensure_endpoint db' ns svc m r = ((e, name), db')"
proof -
  define found where "found = first_row (filter (\<lambda>e. reg_key e = (ns, svc, m, r)) (endpoints db))"
  have "endpoints_ok (next_id db') (endpoints db') \<and> versions db' = versions db \<and> next_id db \<le> next_id db'
    \<and> (\<exists>x \<in> set (endpoints db'). reg_key x = (ns, svc, m, r) \<and> re_id x = e \<and> re_name x = name)
    \<and> ensure_endpoint db' ns svc m r = ((e, name), db')"
  proof (cases found)
    case (Some x)
    then have x: "x \<in> set (endpoints db)" "reg_key x = (ns, svc, m, r)"
      by (auto simp: found_def dest!: first_row_Some_set)
    have "db' = db" "e = re_id x" "name = re_name x"
      using assms(2) Some by (auto simp: ensure_endpoint_def found_def [symmetric] Let_def)
    with x assms show ?thesis by auto
  next
    case None
    then have no: "y \<in> set (endpoints db) \<Longrightarrow> reg_key y \<noteq> (ns, svc, m, r)" for y
      by (auto simp: found_def filter_empty_conv)
    define x where "x = \<lparr>re_id = gen_uuid (next_id db), re_namespace = ns, re_service = svc,
      re_method = m, re_route = r, re_name = svc @ '' '' @ m @ '' '' @ r\<rparr>"
    have db': "db' = db\<lparr>next_id := Suc (next_id db), endpoints := endpoints db @ [x]\<rparr>"
      and e: "e = gen_uuid (next_id db)" "name = svc @ '' '' @ m @ '' '' @ r"
      using assms(2) None by (auto simp: ensure_endpoint_def found_def [symmetric] Let_def fresh_id_def x_def)
    have k: "reg_key x = (ns, svc, m, r)" "re_id x = gen_uuid (next_id db)" "re_name x = svc @ '' '' @ m @ '' '' @ r"
      by (simp_all add: reg_key_def x_def)
    have nid: "y \<in> set (endpoints db) \<Longrightarrow> re_id y \<noteq> gen_uuid (next_id db)" for y
      using assms(1) unfolding endpoints_ok_def by (metis issued_fresh)
    have "(ns, svc, m, r) \<notin> set (map reg_key (endpoints db))"
      "gen_uuid (next_id db) \<notin> set (map re_id (endpoints db))" using no nid by fastforce+
    then have "endpoints_ok (next_id db') (endpoints db')"
      using assms(1) k by (simp add: db' endpoints_ok_def)
    moreover have "first_row (filter (\<lambda>e. reg_key e = (ns, svc, m, r)) (endpoints db')) = Some x"
      by (rule first_row_filter_unique) (use no in \<open>auto simp: db' k\<close>)
    then have "ensure_endpoint db' ns svc m r = ((e, name), db')"
      by (simp add: ensure_endpoint_def e k)
    ultimately show ?thesis by (auto simp: db' k e)
  qed
  then show "endpoints_ok (next_id db') (endpoints db')"
    and "versions db' = versions db" and "next_id db \<le> next_id db'"
    and "\<exists>x \<in> set (endpoints db'). reg_key x = (ns, svc, m, r) \<and> re_id x = e \<and> re_name x = name"
    and "ensure_endpoint db' ns svc m r = ((e, name), db')"
    by simp_all
qed

lemma ensure_endpoint_same:
  assumes "ensure_endpoint db ns svc m r = ((e, name), db)"
    and "next_id db' = n" "endpoints db' = endpoints db" "endpoints_ok (next_id db) (endpoints db)"
  shows "ensure_endpoint db' ns svc m r = ((e, name), db')"
proof (cases "first_row (filter (\<lambda>e. reg_key e = (ns, svc, m, r)) (endpoints db))")
  case None
  have "next_id (snd (ensure_endpoint db ns svc m r)) = Suc (next_id db)"
    by (simp add: ensure_endpoint_def None Let_def fresh_id_def)
  then show ?thesis using assms(1) by simp
next
  case (Some x)
  then show ?thesis using assms by (simp add: ensure_endpoint_def)
qed

section \<open>The upsert\<close>

text \<open>The two outcomes of the upsert on a database that satisfies the invariant.\<close>

lemma upsert_cases:
  assumes ok: "registry_ok db"
    and up: "upsert_schema_version db ns svc m r fp s c = ((e, name, rec, ins), db')"
  obtains (found) db1 where "ensure_endpoint db ns svc m r = ((e, name), db1)" "db' = db1" "\<not> ins"
      "find_version (versions db1) e fp = Some rec"
  | (inserted) db1 where "ensure_endpoint db ns svc m r = ((e, name), db1)" "ins"
      "find_version (versions db1) e fp = None"
      "rec = next_row (get_current_schema (versions db1) e) (gen_uuid (next_id db1)) e fp s c"
      "db' = db1\<lparr>next_id := Suc (next_id db1),
        versions := write_version (get_current_schema (versions db1) e) rec (versions db1)\<rparr>"
proof (cases "ensure_endpoint db ns svc m r")
  case (Pair en db1)
  obtain e' name' where en: "en = (e', name')" by (cases en)
  show thesis
  proof (cases "find_version (versions db1) e' fp")
    case None
    let ?row = "next_row (get_current_schema (versions db1) e') (gen_uuid (next_id db1)) e' fp s c"
    have "upsert_schema_version db ns svc m r fp s c = ((e', name', ?row, True),
        db1\<lparr>next_id := Suc (next_id db1),
          versions := write_version (get_current_schema (versions db1) e') ?row (versions db1)\<rparr>)"
      by (simp add: upsert_schema_version_def Pair en None Let_def fresh_id_def)
    from up [unfolded this prod.inject] have eq: "e' = e" "name' = name" "?row = rec" "ins"
      "db1\<lparr>next_id := Suc (next_id db1),
          versions := write_version (get_current_schema (versions db1) e') ?row (versions db1)\<rparr> = db'"
      by blast+
    show thesis
    proof (rule inserted [of db1])
      show "ensure_endpoint db ns svc m r = ((e, name), db1)" using Pair en eq(1,2) by simp
      show "find_version (versions db1) e fp = None" using None eq(1) by simp
      show "rec = next_row (get_current_schema (versions db1) e) (gen_uuid (next_id db1)) e fp s c"
        using eq(3) unfolding eq(1) by (rule sym)
      show "db' = db1\<lparr>next_id := Suc (next_id db1),
        versions := write_version (get_current_schema (versions db1) e) rec (versions db1)\<rparr>"
        using eq(5) unfolding eq(3) unfolding eq(1) by (rule sym)
    qed (rule eq(4))
  next
    case (Some v)
    have "upsert_schema_version db ns svc m r fp s c = ((e', name', v, False), db1)"
      by (simp add: upsert_schema_version_def Pair en Some Let_def)
    with up have eq: "e' = e" "name' = name" "v = rec" "\<not> ins" "db' = db1" by simp_all
    show thesis
      by (rule found [of db1]) (use Pair en Some eq in simp_all)
  qed
qed

lemma ensure_ok:
  assumes "registry_ok db" "ensure_endpoint db ns svc m r = ((e, name), db1)"
  shows "registry_ok db1" "versions db1 = versions db" "ensure_endpoint db1 ns svc m r = ((e, name), db1)"
  using assms ensure_endpoint_facts [of db ns svc m r e name db1] versions_ok_mono
  by (auto simp: registry_ok_def)

lemma upsert_keeps_ok:
  assumes ok: "registry_ok db"
    and up: "upsert_schema_version db ns svc m r fp s c = ((e, name, rec, ins), db')"
  shows "registry_ok db'"
  using ok up
proof (cases rule: upsert_cases)
  case (found db1)
  then show ?thesis using ensure_ok [OF ok found(1)] by simp
next
  case (inserted db1)
  from ensure_ok [OF ok inserted(1)] have "registry_ok db1" by simp
  then show ?thesis
    using versions_ok_write [OF _ inserted(3) issued_gen [of "next_id db1"], of "next_id db1" s c] fresh_not_used
    by (auto simp: registry_ok_def inserted endpoints_ok_def)
qed

text \<open>The history of an endpoint: the fingerprints and schemas it has had, oldest first.\<close>

definition history :: "rdb \<Rightarrow> string \<Rightarrow> (string \<times> json) list" where
  "history db e = map (\<lambda>v. (sv_fingerprint v, sv_schema v)) (rows_of (versions db) e)"

lemma history_extend:
  "map (\<lambda>v. (sv_fingerprint v, sv_schema v)) (extend_rows vs row)
    = map (\<lambda>v. (sv_fingerprint v, sv_schema v)) vs @ [(sv_fingerprint row, sv_schema row)]"
  by (simp add: extend_rows_def comp_def)

lemma upsert_inserted_rows:
  assumes ok: "registry_ok db" and en: "ensure_endpoint db ns svc m r = ((e, name), db1)"
    and new: "find_version (versions db1) e fp = None"
    and rec: "rec = next_row (get_current_schema (versions db1) e) (gen_uuid (next_id db1)) e fp s c"
    and db': "db' = db1\<lparr>next_id := Suc (next_id db1),
        versions := write_version (get_current_schema (versions db1) e) rec (versions db1)\<rparr>"
  shows "rows_of (versions db') f = (if f = e then extend_rows (rows_of (versions db) e) rec else rows_of (versions db) f)"
proof -
  have v: "versions_ok (next_id db1) (versions db1)" "versions db1 = versions db"
    using ensure_ok [OF ok en] by (auto simp: registry_ok_def)
  have "chain (rows_of (versions db1) e)" using v(1) by (simp add: versions_ok_def)
  from get_current_chain [OF this] rows_of_write [OF v(1), of e "gen_uuid (next_id db1)" fp s c f]
  show ?thesis by (simp add: db' rec v(2))
qed

section \<open>Properties\<close>

text \<open>The registry invariant is kept by every upsert: endpoint keys and all identifiers stay
  unique, and for each endpoint the versions stay 1, 2, ... without a gap, each linked to its
  predecessor, with pairwise different fingerprints and exactly the newest one current.\<close>

theorem upsert_preserves_registry:
  assumes "registry_ok db"
  shows "registry_ok (snd (upsert_schema_version db ns svc m r fp s c))"
  using upsert_keeps_ok [OF assms]
  by (cases "upsert_schema_version db ns svc m r fp s c") (auto simp: split_paired_all)

lemma upsert_preserves_registry_witness:
  "registry_ok (snd (upsert_schema_version (empty_rdb 0) ''n'' ''s'' ''GET'' ''/x'' ''fp'' (JDict []) ''SAFE''))"
  by (rule upsert_preserves_registry) simp

text \<open>C4: The upsert implements an append-only log per endpoint: a fingerprint the endpoint has had
  changes no history and is reported as not inserted, a new one appends its schema to the history
  of this endpoint alone and is reported as inserted with the next version number.\<close>

theorem upsert_refines_log:
  assumes "registry_ok db"
    and "upsert_schema_version db ns svc m r fp s c = ((e, name, rec, ins), db')"
  shows "(ins \<longleftrightarrow> fp \<notin> fst ` set (history db e))
    \<and> history db' e = (if ins then history db e @ [(fp, s)] else history db e)
    \<and> (\<forall>f. f \<noteq> e \<longrightarrow> history db' f = history db f)
    \<and> (ins \<longrightarrow> sv_version rec = int (length (history db e)) + 1)
    \<and> sv_endpoint rec = e \<and> sv_fingerprint rec = fp"
  using assms
proof (cases rule: upsert_cases)
    case (found db1)
    have v: "versions db1 = versions db" using ensure_ok [OF assms(1) found(1)] by simp
    from find_version_SomeD [OF found(4)] have "rec \<in> set (rows_of (versions db) e)" "sv_fingerprint rec = fp"
      by (simp_all add: v)
    then show ?thesis
      using found(2,3) by (auto simp: history_def v image_image)
  next
    case (inserted db1)
    have v: "versions db1 = versions db" "registry_ok db1" using ensure_ok [OF assms(1) inserted(1)] by simp_all
    have rows: "rows_of (versions db') g = (if g = e then extend_rows (rows_of (versions db) e) rec else rows_of (versions db) g)" for g
      by (rule upsert_inserted_rows [OF assms(1) inserted(1,3-5)])
    have ch: "chain (rows_of (versions db) e)" using v by (simp add: registry_ok_def versions_ok_def)
    then have "chain (rows_of (versions db') e)"
      using upsert_keeps_ok [OF assms] by (simp add: registry_ok_def versions_ok_def)
    then have "sv_version (rows_of (versions db') e ! length (rows_of (versions db) e)) = int (length (rows_of (versions db) e)) + 1"
      by (simp add: rows chain_def extend_rows_def)
    then have "sv_version rec = int (length (rows_of (versions db) e)) + 1"
      by (simp add: rows extend_rows_def nth_append)
    moreover have "fp \<notin> fst ` set (history db e)"
      using inserted(3) by (simp add: find_version_None v history_def image_image)
    ultimately show ?thesis
      using inserted(2) by (simp add: history_def rows history_extend inserted(4) next_row_def)
qed

lemma upsert_refines_log_witness:
  "\<exists>e name rec db'. upsert_schema_version (empty_rdb 0) ''n'' ''s'' ''GET'' ''/x'' ''fp'' (JDict []) ''SAFE''
      = ((e, name, rec, True), db') \<and> history db' e = [(''fp'', JDict [])]"
proof -
  obtain e name rec ins db' where up: "upsert_schema_version (empty_rdb 0) ''n'' ''s'' ''GET'' ''/x'' ''fp'' (JDict []) ''SAFE''
      = ((e, name, rec, ins), db')" by (metis surj_pair)
  have "history (empty_rdb 0) e = []" by (simp add: history_def empty_rdb_def rows_of_def)
  with upsert_refines_log [OF registry_ok_empty up] have "ins" "history db' e = [(''fp'', JDict [])]"
    by simp_all
  with up show ?thesis by auto
qed

text \<open>The upsert is idempotent: registering the schema just registered again, under any
  classification, finds the same row, inserts nothing and leaves the database as it is.\<close>

theorem upsert_idempotent:
  assumes "registry_ok db"
    and "upsert_schema_version db ns svc m r fp s c = ((e, name, rec, ins), db')"
  shows "upsert_schema_version db' ns svc m r fp s' c' = ((e, name, rec, False), db')"
  using assms
proof (cases rule: upsert_cases)
  case (found db1)
  then show ?thesis
    using ensure_ok(3) [OF assms(1) found(1)] by (simp add: upsert_schema_version_def Let_def)
next
  case (inserted db1)
  have "chain (rows_of (versions db') e)"
    using upsert_keeps_ok [OF assms] by (simp add: registry_ok_def versions_ok_def)
  moreover have "rec \<in> set (rows_of (versions db') e)" "sv_fingerprint rec = fp"
    using upsert_inserted_rows [OF assms(1) inserted(1,3-5), of e]
    by (simp_all add: extend_rows_def inserted(4) next_row_def del: in_rows_of)
  ultimately have fnd: "find_version (versions db') e fp = Some rec"
    using find_version_Some by blast
  have "ensure_endpoint db1 ns svc m r = ((e, name), db1)"
    using ensure_ok(3) [OF assms(1) inserted(1)] .
  moreover have "next_id db' = Suc (next_id db1)" "endpoints db' = endpoints db1"
    by (simp_all add: inserted(5))
  moreover have "endpoints_ok (next_id db1) (endpoints db1)"
    using ensure_ok(1) [OF assms(1) inserted(1)] by (simp add: registry_ok_def)
  ultimately have "ensure_endpoint db' ns svc m r = ((e, name), db')"
    by (rule ensure_endpoint_same)
  then show ?thesis
    using fnd by (simp add: upsert_schema_version_def Let_def)
qed

lemma upsert_idempotent_witness:
  "upsert_schema_version (snd (upsert_schema_version (empty_rdb 0) ''n'' ''s'' ''GET'' ''/x'' ''fp'' (JDict []) ''SAFE''))
      ''n'' ''s'' ''GET'' ''/x'' ''fp'' (JDict []) ''SAFE''
    = (let ((e, name, rec, ins), db) = upsert_schema_version (empty_rdb 0) ''n'' ''s'' ''GET'' ''/x'' ''fp'' (JDict []) ''SAFE''
       in ((e, name, rec, False), db))"
proof -
  obtain e name rec ins db' where up: "upsert_schema_version (empty_rdb 0) ''n'' ''s'' ''GET'' ''/x'' ''fp'' (JDict []) ''SAFE''
      = ((e, name, rec, ins), db')" by (metis surj_pair)
  from upsert_idempotent [OF registry_ok_empty up] show ?thesis by (simp add: up)
qed

text \<open>C6: An inserted version becomes the current one and points to the version that was current
  before. A known fingerprint does not: when a service goes back to an older schema the older row
  is returned as it is, and the current version stays the newer one.\<close>

theorem upsert_current_version:
  assumes "registry_ok db"
    and "upsert_schema_version db ns svc m r fp s c = ((e, name, rec, ins), db')"
  shows "(if ins then get_current_schema (versions db') e = Some rec
        \<and> sv_previous rec = map_option sv_id (get_current_schema (versions db) e)
      else get_current_schema (versions db') e = get_current_schema (versions db) e
        \<and> find_version (versions db) e fp = Some rec
        \<and> (sv_current rec \<longleftrightarrow> get_current_schema (versions db) e = Some rec))"
  using assms
proof (cases rule: upsert_cases)
  case (found db1)
  have v: "versions db1 = versions db" "registry_ok db1" using ensure_ok [OF assms(1) found(1)] by simp_all
  then have ch: "chain (rows_of (versions db) e)" by (simp add: registry_ok_def versions_ok_def)
  have rec: "rec \<in> set (rows_of (versions db) e)"
    using find_version_SomeD [OF found(4)] by (simp add: v)
  then have ne: "rows_of (versions db) e \<noteq> []" by (metis empty_iff empty_set)
  have "set (filter sv_current (rows_of (versions db) e)) = {last (rows_of (versions db) e)}"
    using chain_current_last [OF ch] ne by simp
  then have "sv_current rec \<longleftrightarrow> rec = last (rows_of (versions db) e)"
    using rec last_in_set [OF ne] by (auto simp del: in_rows_of)
  then show ?thesis
    using found ne by (auto simp: v get_current_chain [OF ch])
next
  case (inserted db1)
  have v: "versions db1 = versions db" "registry_ok db1" using ensure_ok [OF assms(1) inserted(1)] by simp_all
  have ch: "chain (rows_of (versions db') e)"
    using upsert_keeps_ok [OF assms] by (simp add: registry_ok_def versions_ok_def)
  have rows: "rows_of (versions db') e = extend_rows (rows_of (versions db) e) rec"
    using upsert_inserted_rows [OF assms(1) inserted(1,3-5), of e] by simp
  have "get_current_schema (versions db') e = Some rec"
    using get_current_chain [OF ch] by (simp add: rows extend_rows_def)
  then show ?thesis
    using inserted(2) by (simp add: inserted(4) next_row_def v)
qed

lemma upsert_current_version_witness:
  "\<exists>e name rec db'. upsert_schema_version (empty_rdb 0) ''n'' ''s'' ''GET'' ''/x'' ''fp'' (JDict []) ''SAFE''
      = ((e, name, rec, True), db') \<and> get_current_schema (versions db') e = Some rec"
proof -
  obtain e name rec ins db' where up: "upsert_schema_version (empty_rdb 0) ''n'' ''s'' ''GET'' ''/x'' ''fp'' (JDict []) ''SAFE''
      = ((e, name, rec, ins), db')" by (metis surj_pair)
  have "find_version (versions (empty_rdb 0)) e ''fp'' = None"
    by (simp add: find_version_def empty_rdb_def)
  with upsert_current_version [OF registry_ok_empty up] have "ins" by (auto split: if_splits)
  with upsert_current_version [OF registry_ok_empty up] have "get_current_schema (versions db') e = Some rec" by simp
  with \<open>ins\<close> up show ?thesis by auto
qed

end
