(* ===== verification/Registry_Lock.thy ===== *)
theory Registry_Lock
  imports Registry
begin

text \<open>
  \<open>upsert_schema_version\<close> run by many requests at once, after their endpoints exist. The database
  is at READ COMMITTED: a statement sees the committed rows, a transaction's own writes appear at
  its commit, and \<open>pg_advisory_xact_lock\<close> blocks until the lock is free and is released with the
  transaction. A request that loses its connection is aborted and its writes are gone. The lock id
  of an endpoint is a parameter \<open>lk\<close> (\<open>lock_id\<close> of its key), which may map several endpoints to one
  lock.
\<close>

section \<open>Steps\<close>

record request =
  rq_endpoint :: string
  rq_fingerprint :: string
  rq_schema :: json
  rq_class :: string

datatype phase =
    Start
  | Waiting
  | Locked
  | Written "schema_version option" schema_version
  | Done schema_version bool
  | Aborted

record registry_sys =
  committed :: "schema_version list"
  id_supply :: nat
  holder :: "int \<Rightarrow> nat option"
  phase_of :: "nat \<Rightarrow> phase"

definition sys_start :: "registry_sys" where
  "sys_start = \<lparr>committed = [], id_supply = 0, holder = (\<lambda>l. None), phase_of = (\<lambda>p. Start)\<rparr>"

definition lookup :: "(nat \<Rightarrow> request) \<Rightarrow> registry_sys \<Rightarrow> nat \<Rightarrow> schema_version option" where
  "lookup rq s p = find_version (committed s) (rq_endpoint (rq p)) (rq_fingerprint (rq p))"

definition goto :: "registry_sys \<Rightarrow> nat \<Rightarrow> phase \<Rightarrow> registry_sys" where
  "goto s p ph = s\<lparr>phase_of := (phase_of s)(p := ph)\<rparr>"

definition set_holder :: "registry_sys \<Rightarrow> int \<Rightarrow> nat option \<Rightarrow> registry_sys" where
  "set_holder s l h = s\<lparr>holder := (holder s)(l := h)\<rparr>"

inductive reg_step :: "(string \<Rightarrow> int) \<Rightarrow> (nat \<Rightarrow> request) \<Rightarrow> registry_sys \<Rightarrow> registry_sys \<Rightarrow> bool"
  for lk rq where
  fast_hit: "phase_of s p = Start \<Longrightarrow> lookup rq s p = Some v \<Longrightarrow>
    reg_step lk rq s (goto s p (Done v False))"
| fast_miss: "phase_of s p = Start \<Longrightarrow> lookup rq s p = None \<Longrightarrow>
    reg_step lk rq s (goto s p Waiting)"
| acquire: "phase_of s p = Waiting \<Longrightarrow> holder s (lk (rq_endpoint (rq p))) = None \<Longrightarrow>
    reg_step lk rq s (goto (set_holder s (lk (rq_endpoint (rq p))) (Some p)) p Locked)"
| locked_hit: "phase_of s p = Locked \<Longrightarrow> lookup rq s p = Some v \<Longrightarrow>
    reg_step lk rq s (goto (set_holder s (lk (rq_endpoint (rq p))) None) p (Done v False))"
| locked_write: "phase_of s p = Locked \<Longrightarrow> lookup rq s p = None \<Longrightarrow>
    cur = get_current_schema (committed s) (rq_endpoint (rq p)) \<Longrightarrow>
    row = next_row cur (gen_uuid (id_supply s)) (rq_endpoint (rq p)) (rq_fingerprint (rq p))
            (rq_schema (rq p)) (rq_class (rq p)) \<Longrightarrow>
    reg_step lk rq s (goto (s\<lparr>id_supply := Suc (id_supply s)\<rparr>) p (Written cur row))"
| commit: "phase_of s p = Written cur row \<Longrightarrow>
    reg_step lk rq s (goto (set_holder (s\<lparr>committed := write_version cur row (committed s)\<rparr>)
                              (lk (rq_endpoint (rq p))) None) p (Done row True))"
| abort: "phase_of s p = Locked \<or> phase_of s p = Written cur row \<Longrightarrow>
    reg_step lk rq s (goto (set_holder s (lk (rq_endpoint (rq p))) None) p Aborted)"

inductive reachable :: "(string \<Rightarrow> int) \<Rightarrow> (nat \<Rightarrow> request) \<Rightarrow> registry_sys \<Rightarrow> bool" for lk rq where
  init: "reachable lk rq sys_start"
| step: "reachable lk rq s \<Longrightarrow> reg_step lk rq s t \<Longrightarrow> reachable lk rq t"

section \<open>The invariant\<close>

text \<open>The identifier of the row a request writes or has written.\<close>

fun token :: "phase \<Rightarrow> string option" where
  "token (Written cur row) = Some (sv_id row)"
| "token (Done row True) = Some (sv_id row)"
| "token _ = None"

fun in_section :: "phase \<Rightarrow> bool" where
  "in_section Locked = True"
| "in_section (Written cur row) = True"
| "in_section _ = False"

definition pending_ok :: "request \<Rightarrow> registry_sys \<Rightarrow> schema_version option \<Rightarrow> schema_version \<Rightarrow> bool" where
  "pending_ok r s cur row \<longleftrightarrow>
     find_version (committed s) (rq_endpoint r) (rq_fingerprint r) = None
     \<and> cur = get_current_schema (committed s) (rq_endpoint r)
     \<and> row = next_row cur (sv_id row) (rq_endpoint r) (rq_fingerprint r) (rq_schema r) (rq_class r)
     \<and> sv_id row \<notin> sv_id ` set (committed s)"

definition sys_ok :: "(string \<Rightarrow> int) \<Rightarrow> (nat \<Rightarrow> request) \<Rightarrow> registry_sys \<Rightarrow> bool" where
  "sys_ok lk rq s \<longleftrightarrow>
     versions_ok (id_supply s) (committed s)
     \<and> (\<forall>l p. holder s l = Some p \<longleftrightarrow> in_section (phase_of s p) \<and> lk (rq_endpoint (rq p)) = l)
     \<and> (\<forall>p i. token (phase_of s p) = Some i \<longrightarrow> issued (id_supply s) i)
     \<and> (\<forall>p q i. token (phase_of s p) = Some i \<longrightarrow> token (phase_of s q) = Some i \<longrightarrow> p = q)
     \<and> (\<forall>p cur row. phase_of s p = Written cur row \<longrightarrow> pending_ok (rq p) s cur row)
     \<and> (\<forall>p row. phase_of s p = Done row True \<longrightarrow>
          (\<exists>v \<in> set (committed s). sv_id v = sv_id row \<and> sv_endpoint v = rq_endpoint (rq p)
            \<and> sv_fingerprint v = rq_fingerprint (rq p)))"

lemmas sys_simps = goto_def set_holder_def lookup_def

lemma sys_ok_start: "sys_ok lk rq sys_start"
  by (simp add: sys_ok_def sys_start_def versions_ok_def rows_of_def chain_def)

text \<open>The rows of another endpoint read the same before and after a commit.\<close>

lemma other_endpoint:
  assumes "rows_of ws f = rows_of vs f" "chain (rows_of vs f)"
  shows "find_version ws f fp = find_version vs f fp" "get_current_schema ws f = get_current_schema vs f"
  using assms get_current_chain [of ws f] get_current_chain [of vs f]
  by (simp_all add: find_version_rows)

lemma ids_write_set: "sv_id ` set (write_version cur row vs) = insert (sv_id row) (sv_id ` set vs)"
  using arg_cong [OF ids_write [of cur row vs], of set] by simp

lemma write_keeps_row:
  "v \<in> set vs \<Longrightarrow> \<exists>w \<in> set (write_version cur row vs).
    sv_id w = sv_id v \<and> sv_endpoint w = sv_endpoint v \<and> sv_fingerprint w = sv_fingerprint v"
proof (cases cur)
  case (Some c)
  assume "v \<in> set vs"
  then have "(if sv_id v = sv_id c then v\<lparr>sv_current := False\<rparr> else v) \<in> set (write_version cur row vs)"
    by (auto simp: write_version_def in_update_where Some)
  then show ?thesis by (rule rev_bexI) simp
qed (auto simp: write_version_def)

text \<open>The invariant is kept by every step.\<close>

lemma sys_okI:
  assumes "versions_ok (id_supply s) (committed s)"
    and "\<And>l p. holder s l = Some p \<longleftrightarrow> in_section (phase_of s p) \<and> lk (rq_endpoint (rq p)) = l"
    and "\<And>p i. token (phase_of s p) = Some i \<Longrightarrow> issued (id_supply s) i"
    and "\<And>p q i. token (phase_of s p) = Some i \<Longrightarrow> token (phase_of s q) = Some i \<Longrightarrow> p = q"
    and "\<And>p cur row. phase_of s p = Written cur row \<Longrightarrow> pending_ok (rq p) s cur row"
    and "\<And>p row. phase_of s p = Done row True \<Longrightarrow>
          \<exists>v \<in> set (committed s). sv_id v = sv_id row \<and> sv_endpoint v = rq_endpoint (rq p)
            \<and> sv_fingerprint v = rq_fingerprint (rq p)"
  shows "sys_ok lk rq s"
  using assms unfolding sys_ok_def by blast

lemma sys_okD:
  assumes "sys_ok lk rq s"
  shows "versions_ok (id_supply s) (committed s)"
    and "holder s l = Some p \<longleftrightarrow> in_section (phase_of s p) \<and> lk (rq_endpoint (rq p)) = l"
    and "token (phase_of s p) = Some i \<Longrightarrow> issued (id_supply s) i"
    and "token (phase_of s p) = Some i \<Longrightarrow> token (phase_of s q) = Some i \<Longrightarrow> p = q"
    and "phase_of s p = Written cur row \<Longrightarrow> pending_ok (rq p) s cur row"
    and "phase_of s p = Done row True \<Longrightarrow>
          \<exists>v \<in> set (committed s). sv_id v = sv_id row \<and> sv_endpoint v = rq_endpoint (rq p)
            \<and> sv_fingerprint v = rq_fingerprint (rq p)"
  using assms unfolding sys_ok_def by blast+

text \<open>A step that leaves the rows and the supply alone, and gives no new token.\<close>

lemma sys_ok_move:
  assumes ok: "sys_ok lk rq s"
    and t: "phase_of t = (phase_of s)(p := ph)" "committed t = committed s" "id_supply t = id_supply s"
    and h: "holder t = (if in_section ph = in_section (phase_of s p) then holder s
        else (holder s)(lk (rq_endpoint (rq p)) := (if in_section ph then Some p else None)))"
    and free: "in_section ph \<Longrightarrow> \<not> in_section (phase_of s p) \<Longrightarrow> holder s (lk (rq_endpoint (rq p))) = None"
    and tok: "token ph = None" "\<And>cur row. ph \<noteq> Written cur row"
  shows "sys_ok lk rq t"
proof (rule sys_okI)
  note D = sys_okD [OF ok]
  show "versions_ok (id_supply t) (committed t)" using D(1) by (simp add: t)
  show "token (phase_of t q) = Some i \<Longrightarrow> issued (id_supply t) i" for q i
    using D(3) tok by (auto simp: t split: if_splits)
  show "token (phase_of t q) = Some i \<Longrightarrow> token (phase_of t r) = Some i \<Longrightarrow> q = r" for q r i
    using D(4) tok by (auto simp: t split: if_splits)
  show "phase_of t q = Written cur row \<Longrightarrow> pending_ok (rq q) t cur row" for q cur row
    using D(5) tok by (auto simp: t pending_ok_def split: if_splits)
  show "phase_of t q = Done row True \<Longrightarrow> \<exists>v \<in> set (committed t). sv_id v = sv_id row
      \<and> sv_endpoint v = rq_endpoint (rq q) \<and> sv_fingerprint v = rq_fingerprint (rq q)" for q row
    using D(6) tok by (auto simp: t split: if_splits)
  show "holder t l = Some q \<longleftrightarrow> in_section (phase_of t q) \<and> lk (rq_endpoint (rq q)) = l" for l q
  proof (cases "in_section ph = in_section (phase_of s p)")
    case True
    then show ?thesis using D(2) [of l q] by (auto simp: t h)
  next
    case False
    then show ?thesis
      using D(2) [of l q] D(2) [of "lk (rq_endpoint (rq p))" p] D(2) [of "lk (rq_endpoint (rq p))" q] free
      by (auto simp: t h split: if_splits)
  qed
qed

lemma sys_ok_write:
  assumes ok: "sys_ok lk rq s" and p: "phase_of s p = Locked" "lookup rq s p = None"
    and cur: "cur = get_current_schema (committed s) (rq_endpoint (rq p))"
    and row: "row = next_row cur (gen_uuid (id_supply s)) (rq_endpoint (rq p)) (rq_fingerprint (rq p))
            (rq_schema (rq p)) (rq_class (rq p))"
  shows "sys_ok lk rq (goto (s\<lparr>id_supply := Suc (id_supply s)\<rparr>) p (Written cur row))"
    (is "sys_ok lk rq ?t")
proof (rule sys_okI)
  note D = sys_okD [OF ok]
  have id: "sv_id row = gen_uuid (id_supply s)" by (simp add: row next_row_def)
  show "versions_ok (id_supply ?t) (committed ?t)"
    using versions_ok_mono [OF D(1)] by (simp add: goto_def)
  show "holder ?t l = Some q \<longleftrightarrow> in_section (phase_of ?t q) \<and> lk (rq_endpoint (rq q)) = l" for l q
    using D(2) [of l q] p by (auto simp: goto_def)
  show "token (phase_of ?t q) = Some i \<Longrightarrow> issued (id_supply ?t) i" for q i
    using D(3) [of q i] by (auto simp: goto_def id split: if_splits)
  show "token (phase_of ?t q) = Some i \<Longrightarrow> token (phase_of ?t r) = Some i \<Longrightarrow> q = r" for q r i
    using D(3) [of q i] D(3) [of r i] D(4) [of q i r] by (auto simp: goto_def id split: if_splits)
  show "phase_of ?t q = Written c w \<Longrightarrow> pending_ok (rq q) ?t c w" for q c w
    using D(5) [of q c w] p(2) fresh_not_used [OF D(1)] cur row id
    by (auto simp: goto_def pending_ok_def lookup_def next_row_def split: if_splits)
  show "phase_of ?t q = Done w True \<Longrightarrow> \<exists>v \<in> set (committed ?t). sv_id v = sv_id w
      \<and> sv_endpoint v = rq_endpoint (rq q) \<and> sv_fingerprint v = rq_fingerprint (rq q)" for q w
    using D(6) [of q w] by (auto simp: goto_def split: if_splits)
qed

lemma sys_ok_commit:
  assumes ok: "sys_ok lk rq s" and p: "phase_of s p = Written cur row"
  shows "sys_ok lk rq (goto (set_holder (s\<lparr>committed := write_version cur row (committed s)\<rparr>)
                              (lk (rq_endpoint (rq p))) None) p (Done row True))"
    (is "sys_ok lk rq ?t")
proof (rule sys_okI)
  note D = sys_okD [OF ok]
  let ?e = "rq_endpoint (rq p)"
  have pend: "find_version (committed s) ?e (rq_fingerprint (rq p)) = None"
      "cur = get_current_schema (committed s) ?e" "sv_id row \<notin> sv_id ` set (committed s)"
    and row: "row = next_row cur (sv_id row) ?e (rq_fingerprint (rq p)) (rq_schema (rq p)) (rq_class (rq p))"
    using D(5) [OF p] unfolding pending_ok_def by blast+
  have com: "committed ?t = write_version cur row (committed s)" by (simp add: goto_def set_holder_def)
  have ph: "phase_of ?t = (phase_of s)(p := Done row True)" by (simp add: goto_def set_holder_def)
  have iss: "issued (id_supply s) (sv_id row)" using D(3) [of p] p by simp
  have new: "versions_ok (id_supply s) (write_version cur row (committed s))"
    using versions_ok_write [OF D(1) pend(1) iss pend(3), of "rq_schema (rq p)" "rq_class (rq p)"]
    unfolding pend(2) [symmetric] row [symmetric] by simp
  then show "versions_ok (id_supply ?t) (committed ?t)" by (simp add: goto_def set_holder_def)
  show "holder ?t l = Some q \<longleftrightarrow> in_section (phase_of ?t q) \<and> lk (rq_endpoint (rq q)) = l" for l q
    using D(2) [of l q] D(2) [of "lk ?e" p] D(2) [of "lk ?e" q] p by (auto simp: goto_def set_holder_def)
  show "token (phase_of ?t q) = Some i \<Longrightarrow> issued (id_supply ?t) i" for q i
    using D(3) [of q i] iss by (auto simp: goto_def set_holder_def split: if_splits)
  have tk: "token (phase_of ?t q) = token (phase_of s q)" for q
    using p by (simp add: ph)
  show "token (phase_of ?t q) = Some i \<Longrightarrow> token (phase_of ?t r) = Some i \<Longrightarrow> q = r" for q r i
    unfolding tk by (rule D(4))
  show "pending_ok (rq q) ?t c w" if "phase_of ?t q = Written c w" for q c w
  proof -
    from that have q: "q \<noteq> p" "phase_of s q = Written c w" by (auto simp: ph split: if_splits)
    have "holder s (lk (rq_endpoint (rq q))) = Some q" "holder s (lk ?e) = Some p"
      using D(2) q(2) p by simp_all
    with q(1) have ne: "rq_endpoint (rq q) \<noteq> ?e" by auto
    have "rows_of (write_version cur row (committed s)) (rq_endpoint (rq q)) = rows_of (committed s) (rq_endpoint (rq q))"
      using rows_of_write [OF D(1), of ?e "sv_id row" "rq_fingerprint (rq p)" "rq_schema (rq p)" "rq_class (rq p)"]
        ne unfolding pend(2) [symmetric] row [symmetric] by simp
    moreover have "chain (rows_of (committed s) (rq_endpoint (rq q)))" using D(1) by (simp add: versions_ok_def)
    ultimately have same: "find_version (write_version cur row (committed s)) (rq_endpoint (rq q)) fp
        = find_version (committed s) (rq_endpoint (rq q)) fp"
      "get_current_schema (write_version cur row (committed s)) (rq_endpoint (rq q))
        = get_current_schema (committed s) (rq_endpoint (rq q))" for fp
      by (rule other_endpoint)+
    have "sv_id w \<noteq> sv_id row" using D(4) [of q "sv_id w" p] q p by auto
    then show ?thesis
      using D(5) [OF q(2)] unfolding pending_ok_def com same ids_write_set by blast
  qed
  show "\<exists>v \<in> set (committed ?t). sv_id v = sv_id w
      \<and> sv_endpoint v = rq_endpoint (rq q) \<and> sv_fingerprint v = rq_fingerprint (rq q)"
    if "phase_of ?t q = Done w True" for q w
  proof (cases "q = p")
    case True
    have "row \<in> set (committed ?t)" unfolding com by (simp add: write_version_def)
    moreover have "sv_endpoint row = ?e" "sv_fingerprint row = rq_fingerprint (rq p)"
      using arg_cong [OF row, of sv_endpoint] arg_cong [OF row, of sv_fingerprint]
      by (simp_all add: next_row_def)
    moreover have "w = row" using that True by (simp add: ph)
    ultimately show ?thesis unfolding True by blast
  next
    case False
    with that have "phase_of s q = Done w True" by (simp add: ph)
    from D(6) [OF this] write_keeps_row [of _ "committed s" cur row] show ?thesis
      unfolding com by metis
  qed
qed

lemma sys_ok_step:
  assumes "reg_step lk rq s t" and ok: "sys_ok lk rq s" shows "sys_ok lk rq t"
  using assms(1)
proof cases
  case (fast_hit p v)
  show ?thesis
    unfolding fast_hit(1) by (rule sys_ok_move [OF ok, where p = p and ph = "Done v False"]) (simp_all add: goto_def fast_hit(2))
next
  case (fast_miss p)
  show ?thesis
    unfolding fast_miss(1) by (rule sys_ok_move [OF ok, where p = p and ph = Waiting]) (simp_all add: goto_def fast_miss(2))
next
  case (acquire p)
  show ?thesis
    unfolding acquire(1) by (rule sys_ok_move [OF ok, where p = p and ph = Locked]) (simp_all add: goto_def set_holder_def acquire(2,3))
next
  case (locked_hit p v)
  show ?thesis
    unfolding locked_hit(1) by (rule sys_ok_move [OF ok, where p = p and ph = "Done v False"]) (simp_all add: goto_def set_holder_def locked_hit(2))
next
  case (locked_write p cur row)
  show ?thesis
    unfolding locked_write(1) by (rule sys_ok_write [OF ok locked_write(2-5)])
next
  case (commit p cur row)
  show ?thesis
    unfolding commit(1) by (rule sys_ok_commit [OF ok commit(2)])
next
  case (abort p cur row)
  have inside: "in_section (phase_of s p)" using abort(2) by auto
  show ?thesis
    unfolding abort(1) by (rule sys_ok_move [OF ok, where p = p and ph = Aborted]) (simp_all add: goto_def set_holder_def inside)
qed

lemma reachable_ok: "reachable lk rq s \<Longrightarrow> sys_ok lk rq s"
  by (induction rule: reachable.induct) (auto intro: sys_ok_start sys_ok_step)

lemma moved:
  "reg_step lk rq s (goto s' q ph) \<Longrightarrow> ph \<noteq> phase_of s q \<Longrightarrow>
    \<exists>t. reg_step lk rq s t \<and> phase_of t q \<noteq> phase_of s q"
  by (rule exI [of _ "goto s' q ph"]) (simp add: goto_def)

section \<open>Properties\<close>

text \<open>C3: Under the advisory lock, concurrent requests keep the version chains: in every reachable
  state the committed rows of each endpoint are numbered 1, 2, ... without gap or duplicate, with
  pairwise different fingerprints and exactly one current row, and no two requests that write the
  same schema of the same endpoint both report it as inserted.\<close>

theorem concurrent_upserts_safe:
  assumes "reachable lk rq s"
  shows "chain (rows_of (committed s) e)
    \<and> (phase_of s p = Done v True \<longrightarrow> phase_of s q = Done w True
        \<longrightarrow> rq_endpoint (rq p) = rq_endpoint (rq q) \<longrightarrow> rq_fingerprint (rq p) = rq_fingerprint (rq q)
        \<longrightarrow> p = q)"
proof (intro conjI impI)
  note D = sys_okD [OF reachable_ok [OF assms]]
  show "chain (rows_of (committed s) e)" using D(1) by (simp add: versions_ok_def)
  assume p: "phase_of s p = Done v True" and q: "phase_of s q = Done w True"
    and eq: "rq_endpoint (rq p) = rq_endpoint (rq q)" "rq_fingerprint (rq p) = rq_fingerprint (rq q)"
  obtain x where x: "x \<in> set (committed s)" "sv_id x = sv_id v" "sv_endpoint x = rq_endpoint (rq q)"
      "sv_fingerprint x = rq_fingerprint (rq q)"
    using D(6) [OF p] eq by auto
  obtain y where y: "y \<in> set (committed s)" "sv_id y = sv_id w" "sv_endpoint y = rq_endpoint (rq q)"
      "sv_fingerprint y = rq_fingerprint (rq q)"
    using D(6) [OF q] by auto
  have ch: "chain (rows_of (committed s) (rq_endpoint (rq q)))" using D(1) by (simp add: versions_ok_def)
  have "find_version (committed s) (rq_endpoint (rq q)) (sv_fingerprint x) = Some x"
    "find_version (committed s) (rq_endpoint (rq q)) (sv_fingerprint y) = Some y"
    by (rule find_version_Some [OF ch]; use x y in simp)+
  then have "sv_id v = sv_id w" using x y by simp
  then show "p = q" using D(4) [of p "sv_id v" q] p q by simp
qed

lemma concurrent_upserts_safe_witness:
  "chain (rows_of (committed (goto sys_start 0 Waiting)) ''e'')"
proof -
  have "reg_step (\<lambda>e. 0) (\<lambda>p. \<lparr>rq_endpoint = ''e'', rq_fingerprint = ''f'', rq_schema = JNull, rq_class = ''SAFE''\<rparr>)
      sys_start (goto sys_start 0 Waiting)"
    by (rule fast_miss) (simp_all add: sys_start_def lookup_def find_version_def)
  from concurrent_upserts_safe [OF reachable.step [OF reachable.init this]] show ?thesis by blast
qed

text \<open>The lock never wedges: in every reachable state a request that is neither finished nor
  aborted can be brought forward, either by a step of its own or by a step of the request that
  holds the lock it waits for.\<close>

theorem concurrent_upserts_progress:
  assumes "reachable lk rq s" and "\<forall>v b. phase_of s p \<noteq> Done v b" and "phase_of s p \<noteq> Aborted"
  shows "\<exists>t q. reg_step lk rq s t \<and> phase_of t q \<noteq> phase_of s q
    \<and> (q = p \<or> holder s (lk (rq_endpoint (rq p))) = Some q)"
proof -
  note D = sys_okD [OF reachable_ok [OF assms(1)]]
  have inside: "\<exists>t. reg_step lk rq s t \<and> phase_of t q \<noteq> phase_of s q" if q: "in_section (phase_of s q)" for q
  proof (cases "phase_of s q")
    case Locked
    show ?thesis
    proof (cases "lookup rq s q")
      case None
      from moved [OF reg_step.locked_write [OF Locked None refl refl, of lk]] Locked show ?thesis by auto
    next
      case (Some v)
      from moved [OF reg_step.locked_hit [OF Locked Some, of lk]] Locked show ?thesis by auto
    qed
  next
    case (Written cur row)
    from moved [OF reg_step.commit [OF Written, of lk rq]] Written show ?thesis by auto
  qed (use q in simp_all)
  show ?thesis
  proof (cases "phase_of s p")
    case Start
    show ?thesis
    proof (cases "lookup rq s p")
      case None
      from moved [OF reg_step.fast_miss [OF Start None, of lk]] Start
      have "\<exists>t. reg_step lk rq s t \<and> phase_of t p \<noteq> phase_of s p" by simp
      then show ?thesis by blast
    next
      case (Some v)
      from moved [OF reg_step.fast_hit [OF Start Some, of lk]] Start
      have "\<exists>t. reg_step lk rq s t \<and> phase_of t p \<noteq> phase_of s p" by simp
      then show ?thesis by blast
    qed
  next
    case Waiting
    show ?thesis
    proof (cases "holder s (lk (rq_endpoint (rq p)))")
      case None
      from moved [OF reg_step.acquire [of s p lk rq, OF Waiting None]] Waiting
      have "\<exists>t. reg_step lk rq s t \<and> phase_of t p \<noteq> phase_of s p" by simp
      then show ?thesis by blast
    next
      case (Some q)
      then have "in_section (phase_of s q)" using D(2) by simp
      from inside [OF this] Some show ?thesis by blast
    qed
  next
    case Locked
    then have "in_section (phase_of s p)" by simp
    from inside [OF this] show ?thesis by blast
  next
    case (Written cur row)
    then have "in_section (phase_of s p)" by simp
    from inside [OF this] show ?thesis by blast
  qed (use assms in simp_all)
qed

lemma concurrent_upserts_progress_witness:
  "\<exists>t q. reg_step (\<lambda>e. 0) (\<lambda>p. \<lparr>rq_endpoint = ''e'', rq_fingerprint = ''f'', rq_schema = JNull, rq_class = ''SAFE''\<rparr>)
      sys_start t \<and> phase_of t q \<noteq> phase_of sys_start q \<and> (q = 0 \<or> holder sys_start 0 = Some q)"
  by (rule concurrent_upserts_progress [OF reachable.init]) (simp_all add: sys_start_def)

end
