(* ===== verification/Keyed_Table.thy ===== *)
theory Keyed_Table
  imports Drift_Prelude
begin

text \<open>
  \<open>INSERT .. ON CONFLICT (key) DO UPDATE\<close> on a table given as a list of rows: the statement both
  dead letter queues are written with. The locale states what such a statement is given (the key
  of a row, and how an existing row is merged with the refused one) and its lemmas give what the
  table keeps.
\<close>

definition upsert_row :: "('r \<Rightarrow> 'k) \<Rightarrow> ('r \<Rightarrow> 'r \<Rightarrow> 'r) \<Rightarrow> 'r \<Rightarrow> 'r list \<Rightarrow> bool \<times> 'r list" where
  "upsert_row key merge new rows =
     (if list_ex (\<lambda>r. key r = key new) rows
      then (False, update_where (\<lambda>r. key r = key new) (merge new) rows)
      else (True, rows @ [new]))"

definition row_at :: "('r \<Rightarrow> 'k) \<Rightarrow> 'k \<Rightarrow> 'r list \<Rightarrow> 'r option" where
  "row_at key k rows = first_row (filter (\<lambda>r. key r = k) rows)"

lemma row_at_Nil [simp]: "row_at key k [] = None"
  by (simp add: row_at_def)

lemma row_at_None: "row_at key k rows = None \<longleftrightarrow> k \<notin> key ` set rows"
  by (auto simp: row_at_def filter_empty_conv)

lemma row_at_SomeD: "row_at key k rows = Some r \<Longrightarrow> r \<in> set rows \<and> key r = k"
  by (auto simp: row_at_def dest!: first_row_Some_set)

lemma row_at_Some: "distinct (map key rows) \<Longrightarrow> r \<in> set rows \<Longrightarrow> row_at key (key r) rows = Some r"
  unfolding row_at_def
  by (rule first_row_filter_unique) (auto simp: distinct_map dest: inj_onD)

lemma row_at_append:
  "row_at key k (rows @ [r]) = (case row_at key k rows of
     None \<Rightarrow> if key r = k then Some r else None | Some x \<Rightarrow> Some x)"
  by (simp add: row_at_def first_row_def split: list.splits)

lemma row_at_update_where:
  "(\<And>r. key (f r) = key r) \<Longrightarrow>
   row_at key k (update_where (\<lambda>r. key r = j) f rows) =
     map_option (\<lambda>r. if key r = j then f r else r) (row_at key k rows)"
  by (induction rows) (auto simp: row_at_def update_where_def)

lemma list_ex_key: "list_ex (\<lambda>r. key r = k) rows \<longleftrightarrow> k \<in> key ` set rows"
  by (force simp: list_ex_iff)

locale keyed_table =
  fixes key :: "'r \<Rightarrow> 'k"
    and merge :: "'r \<Rightarrow> 'r \<Rightarrow> 'r"
  assumes merge_key: "key (merge new old) = key old"
begin

lemma upsert_length:
  "length (snd (upsert_row key merge new rows)) = length rows + of_bool (fst (upsert_row key merge new rows))"
  by (simp add: upsert_row_def)

lemma upsert_inserted: "fst (upsert_row key merge new rows) \<longleftrightarrow> key new \<notin> key ` set rows"
  by (simp add: upsert_row_def list_ex_key)

lemma upsert_keys: "map key (snd (upsert_row key merge new rows)) =
    (if key new \<in> key ` set rows then map key rows else map key rows @ [key new])"
  by (simp add: upsert_row_def list_ex_key map_update_where merge_key)

lemma upsert_distinct:
  "distinct (map key rows) \<Longrightarrow> distinct (map key (snd (upsert_row key merge new rows)))"
  by (simp add: upsert_keys)

lemma upsert_row_at:
  "row_at key k (snd (upsert_row key merge new rows)) =
     (if k = key new
      then Some (case row_at key k rows of None \<Rightarrow> new | Some old \<Rightarrow> merge new old)
      else row_at key k rows)"
proof (cases "key new \<in> key ` set rows")
  case True
  then have up: "snd (upsert_row key merge new rows) = update_where (\<lambda>r. key r = key new) (merge new) rows"
    by (simp add: upsert_row_def list_ex_key)
  show ?thesis
  proof (cases "row_at key k rows")
    case None
    then have "k \<noteq> key new" using True by (auto simp: row_at_None)
    then show ?thesis using None by (simp add: up row_at_update_where merge_key)
  next
    case (Some old)
    then have "key old = k" by (rule row_at_SomeD [THEN conjunct2])
    then show ?thesis using Some by (auto simp: up row_at_update_where merge_key)
  qed
next
  case False
  then have "snd (upsert_row key merge new rows) = rows @ [new]" "row_at key (key new) rows = None"
    by (simp_all add: upsert_row_def list_ex_key row_at_None)
  then show ?thesis by (auto simp: row_at_append split: option.split)
qed

end

end
