(* ===== verification/Subscriptions.thy ===== *)
theory Subscriptions
  imports Registry Severity
begin

text \<open>
  \<^verbatim>\<open>app/runtime/subscriptions.py\<close> and the request models of \<^verbatim>\<open>app/api/subscriptions.py\<close>: consumers
  subscribe to an endpoint with a severity threshold and a highest schema version, and the
  affected subscriptions of a drift are selected. A function that returns a dict of a row's
  columns returns the row; \<open>subscription_dict\<close> is that dict.
\<close>

definition subscription_dict :: "subscription \<Rightarrow> json" where
  "subscription_dict s = JDict
     [(''id'', JStr (sub_id s)), (''consumer_id'', JStr (sub_consumer s)),
      (''endpoint_id'', JStr (sub_endpoint s)), (''target_url'', JStr (sub_url s)),
      (''severity_threshold'', JStr (sub_threshold s)),
      (''schema_version'', opt_json JInt (sub_version s)), (''active'', JBool (sub_active s)),
      (''created_at'', JStr (isoformat (sub_created s))),
      (''updated_at'', JStr (isoformat (sub_updated s)))]"

text \<open>The endpoint is a foreign key of the table.\<close>

definition create_subscription ::
  "rdb \<Rightarrow> string \<Rightarrow> string \<Rightarrow> string \<Rightarrow> string \<Rightarrow> int option \<Rightarrow> bool \<Rightarrow> py_error + (subscription \<times> rdb)" where
  "create_subscription db consumer_id endpoint_id target_url severity_threshold schema_version active =
     (if endpoint_id \<notin> re_id ` set (endpoints db)
      then Inl (IntegrityError ''consumer_subscriptions_endpoint_id_fkey'')
      else
        (let (i, db) = fresh_id db;
             s = \<lparr>sub_id = i, sub_consumer = consumer_id, sub_endpoint = endpoint_id,
                  sub_url = target_url, sub_threshold = severity_threshold,
                  sub_version = schema_version, sub_active = active,
                  sub_created = now db, sub_updated = now db\<rparr>
         in Inr (s, db\<lparr>subscriptions := subscriptions db @ [s]\<rparr>)))"

definition list_subscriptions :: "rdb \<Rightarrow> string option \<Rightarrow> subscription list" where
  "list_subscriptions db endpoint_id =
     sort_desc sub_created
       (case endpoint_id of
          None \<Rightarrow> subscriptions db
        | Some e \<Rightarrow> if e = [] then subscriptions db
            else filter (\<lambda>s. sub_endpoint s = e) (subscriptions db))"

definition get_subscription :: "rdb \<Rightarrow> string \<Rightarrow> subscription option" where
  "get_subscription db subscription_id =
     first_row (filter (\<lambda>s. sub_id s = subscription_id) (subscriptions db))"

text \<open>An item of the patch: a column that may change with its value, or another key.\<close>

datatype patch_item =
    SetUrl string
  | SetThreshold string
  | SetVersion "int option"
  | SetActive bool
  | OtherKey string

fun is_mutable :: "patch_item \<Rightarrow> bool" where
  "is_mutable (OtherKey k) = False"
| "is_mutable _ = True"

fun set_item :: "patch_item \<Rightarrow> subscription \<Rightarrow> subscription" where
  "set_item (SetUrl u) s = s\<lparr>sub_url := u\<rparr>"
| "set_item (SetThreshold t) s = s\<lparr>sub_threshold := t\<rparr>"
| "set_item (SetVersion v) s = s\<lparr>sub_version := v\<rparr>"
| "set_item (SetActive a) s = s\<lparr>sub_active := a\<rparr>"
| "set_item (OtherKey k) s = s"

definition update_subscription ::
  "rdb \<Rightarrow> string \<Rightarrow> patch_item list \<Rightarrow> subscription option \<times> rdb" where
  "update_subscription db subscription_id patch =
     (let mut = filter is_mutable patch in
      if mut = [] then (get_subscription db subscription_id, db)
      else
        (let db' = db\<lparr>subscriptions :=
               update_where (\<lambda>s. sub_id s = subscription_id)
                 (\<lambda>s. (fold set_item mut s)\<lparr>sub_updated := now db\<rparr>) (subscriptions db)\<rparr>
         in (get_subscription db' subscription_id, db')))"

text \<open>The request bodies: \<open>model_dump(exclude_none=True)\<close> of the update request is the patch.\<close>

record create_request =
  cr_consumer :: string
  cr_endpoint :: string
  cr_url :: string
  cr_threshold :: string
  cr_version :: "int option"
  cr_active :: bool

definition create_defaults :: "string \<Rightarrow> string \<Rightarrow> string \<Rightarrow> create_request" where
  "create_defaults consumer endpoint url = \<lparr>cr_consumer = consumer, cr_endpoint = endpoint,
     cr_url = url, cr_threshold = ''RISKY'', cr_version = None, cr_active = True\<rparr>"

definition api_create :: "rdb \<Rightarrow> create_request \<Rightarrow> py_error + (subscription \<times> rdb)" where
  "api_create db req = create_subscription db (cr_consumer req) (cr_endpoint req) (cr_url req)
     (cr_threshold req) (cr_version req) (cr_active req)"

record update_request =
  ur_url :: "string option"
  ur_threshold :: "string option"
  ur_version :: "int option"
  ur_active :: "bool option"

definition dump_update :: "update_request \<Rightarrow> patch_item list" where
  "dump_update r =
     (case ur_url r of None \<Rightarrow> [] | Some u \<Rightarrow> [SetUrl u])
     @ (case ur_threshold r of None \<Rightarrow> [] | Some t \<Rightarrow> [SetThreshold t])
     @ (case ur_version r of None \<Rightarrow> [] | Some v \<Rightarrow> [SetVersion (Some v)])
     @ (case ur_active r of None \<Rightarrow> [] | Some a \<Rightarrow> [SetActive a])"

definition api_patch :: "rdb \<Rightarrow> string \<Rightarrow> update_request \<Rightarrow> py_error + (subscription \<times> rdb)" where
  "api_patch db subscription_id req =
     (case update_subscription db subscription_id (dump_update req) of
        (None, db') \<Rightarrow> Inl (HTTPException 404 ''subscription not found'')
      | (Some s, db') \<Rightarrow> Inr (s, db'))"

definition api_get_one :: "rdb \<Rightarrow> string \<Rightarrow> py_error + subscription" where
  "api_get_one db subscription_id =
     (case get_subscription db subscription_id of
        None \<Rightarrow> Inl (HTTPException 404 ''subscription not found'')
      | Some s \<Rightarrow> Inr s)"

text \<open>The \<open>CASE\<close> expression of the query, and the query.\<close>

definition threshold_rank :: "string \<Rightarrow> nat" where
  "threshold_rank t =
     (if t = ''SAFE'' then 0 else if t = ''BACKWARD_COMPATIBLE'' then 1
      else if t = ''FORWARD_COMPATIBLE'' then 2 else if t = ''RISKY'' then 3
      else if t = ''BREAKING'' then 4 else 0)"

definition affected_by :: "string \<Rightarrow> int \<Rightarrow> string \<Rightarrow> subscription \<Rightarrow> bool" where
  "affected_by endpoint_id new_version severity s \<longleftrightarrow>
     sub_endpoint s = endpoint_id \<and> sub_active s
     \<and> (case sub_version s of None \<Rightarrow> True | Some v \<Rightarrow> v \<le> new_version)
     \<and> threshold_rank (sub_threshold s) \<le> severity_rank severity"

definition select_affected_subscriptions :: "rdb \<Rightarrow> string \<Rightarrow> int \<Rightarrow> string \<Rightarrow> subscription list" where
  "select_affected_subscriptions db endpoint_id new_version severity =
     filter (affected_by endpoint_id new_version severity) (subscriptions db)"

lemma threshold_rank_severity: "threshold_rank t = severity_rank t"
  by (simp add: threshold_rank_def severity_rank_def)

lemma threshold_rank_name [simp]: "threshold_rank (compat_name c) = rank_of c"
  by (simp add: threshold_rank_severity)

lemma set_item_id [simp]: "sub_id (set_item i s) = sub_id s" "sub_endpoint (set_item i s) = sub_endpoint s"
    "sub_consumer (set_item i s) = sub_consumer s" "sub_created (set_item i s) = sub_created s"
  by (cases i; simp)+

lemma fold_set_item_id [simp]: "sub_id (fold set_item p s) = sub_id s"
    "sub_endpoint (fold set_item p s) = sub_endpoint s"
    "sub_consumer (fold set_item p s) = sub_consumer s" "sub_created (fold set_item p s) = sub_created s"
  by (induction p arbitrary: s) simp_all

section \<open>Properties\<close>



text \<open>A patch changes the row of its id alone and of it only the columns it names: every other
  subscription stays as it is, the row's identity, consumer, endpoint and creation time are kept,
  an id that does not exist is answered with 404, and a patch without a value changes nothing.\<close>

theorem patch_touches_one_row:
  assumes "distinct (map sub_id (subscriptions db))"
  shows "(case api_patch db i req of
      Inl err \<Rightarrow> err = HTTPException 404 ''subscription not found'' \<and> i \<notin> sub_id ` set (subscriptions db)
    | Inr (s', db') \<Rightarrow> (\<exists>s \<in> set (subscriptions db). sub_id s = i \<and> sub_id s' = i
        \<and> sub_consumer s' = sub_consumer s \<and> sub_endpoint s' = sub_endpoint s \<and> sub_created s' = sub_created s
        \<and> sub_url s' = (case ur_url req of None \<Rightarrow> sub_url s | Some u \<Rightarrow> u)
        \<and> sub_threshold s' = (case ur_threshold req of None \<Rightarrow> sub_threshold s | Some t \<Rightarrow> t)
        \<and> sub_version s' = (case ur_version req of None \<Rightarrow> sub_version s | Some v \<Rightarrow> Some v)
        \<and> sub_active s' = (case ur_active req of None \<Rightarrow> sub_active s | Some a \<Rightarrow> a)
        \<and> subscriptions db' = map (\<lambda>r. if sub_id r = i then s' else r) (subscriptions db)
        \<and> (dump_update req = [] \<longrightarrow> db' = db)))"
proof -
  have mut: "filter is_mutable (dump_update req) = dump_update req"
    by (simp add: dump_update_def split: option.split)
  show ?thesis
  proof (cases "i \<in> sub_id ` set (subscriptions db)")
    case False
    have "get_subscription d i = None" if "map sub_id (subscriptions d) = map sub_id (subscriptions db)" for d
    proof -
      have "i \<notin> set (map sub_id (subscriptions d))" unfolding that using False by simp
      then show ?thesis by (auto simp: get_subscription_def filter_empty_conv)
    qed
    then show ?thesis
      using False by (auto simp: api_patch_def update_subscription_def Let_def map_update_where)
  next
    case True
    then obtain s where s: "s \<in> set (subscriptions db)" "sub_id s = i" by auto
    have uniq: "r = s" if "r \<in> set (subscriptions db)" "sub_id r = i" for r
      using assms s that by (metis distinct_map inj_onD)
    have row: "first_row (filter (\<lambda>r. sub_id r = i) (subscriptions db)) = Some s"
      by (rule first_row_filter_unique, rule s(1), rule s(2), rule uniq)
    show ?thesis
    proof (cases "dump_update req = []")
      case True
      have "map (\<lambda>r. if sub_id r = i then s else r) (subscriptions db) = subscriptions db"
        by (rule map_idI) (metis uniq)
      moreover have "api_patch db i req = Inr (s, db)"
        by (simp add: api_patch_def update_subscription_def get_subscription_def True row)
      moreover have "ur_url req = None" "ur_threshold req = None" "ur_version req = None" "ur_active req = None"
        using True by (simp_all add: dump_update_def split: option.splits)
      ultimately show ?thesis using s by (simp add: bexI [of _ s])
    next
      case False
      let ?f = "\<lambda>s. (fold set_item (dump_update req) s)\<lparr>sub_updated := now db\<rparr>"
      have rows: "update_where (\<lambda>r. sub_id r = i) ?f (subscriptions db)
          = map (\<lambda>r. if sub_id r = i then ?f s else r) (subscriptions db)"
        unfolding update_where_def
      proof (rule map_cong [OF refl])
        fix r assume "r \<in> set (subscriptions db)"
        then show "(if sub_id r = i then ?f r else r) = (if sub_id r = i then ?f s else r)"
          using uniq [of r] by (cases "sub_id r = i") simp_all
      qed
      have new: "first_row (filter (\<lambda>r. sub_id r = i) (map (\<lambda>r. if sub_id r = i then ?f s else r) (subscriptions db)))
          = Some (?f s)"
      proof (rule first_row_filter_unique)
        have id': "sub_id (?f s) = i" using s(2) by simp
        then show "?f s \<in> set (map (\<lambda>r. if sub_id r = i then ?f s else r) (subscriptions db))"
          using s by force
        show "sub_id (?f s) = i" by (rule id')
        show "r = ?f s" if "r \<in> set (map (\<lambda>r. if sub_id r = i then ?f s else r) (subscriptions db))"
          "sub_id r = i" for r using that by (auto simp only: set_map image_iff split: if_splits)
      qed
      have res: "api_patch db i req = Inr (?f s,
          db\<lparr>subscriptions := map (\<lambda>r. if sub_id r = i then ?f s else r) (subscriptions db)\<rparr>)"
        using new by (simp add: api_patch_def update_subscription_def mut False get_subscription_def Let_def rows)
      have cols: "sub_url (?f s) = (case ur_url req of None \<Rightarrow> sub_url s | Some u \<Rightarrow> u)"
        "sub_threshold (?f s) = (case ur_threshold req of None \<Rightarrow> sub_threshold s | Some t \<Rightarrow> t)"
        "sub_version (?f s) = (case ur_version req of None \<Rightarrow> sub_version s | Some v \<Rightarrow> Some v)"
        "sub_active (?f s) = (case ur_active req of None \<Rightarrow> sub_active s | Some a \<Rightarrow> a)"
        by (simp_all add: dump_update_def split: option.split)
      show ?thesis
        unfolding res sum.case prod.case cols
        by (rule bexI [OF _ s(1)]) (use s(2) False in simp)
    qed
  qed
qed

lemma patch_touches_one_row_witness:
  "api_patch (empty_rdb 0) ''x'' \<lparr>ur_url = None, ur_threshold = Some ''SAFE'', ur_version = None, ur_active = None\<rparr>
    = Inl (HTTPException 404 ''subscription not found'')"
proof -
  have "subscriptions (empty_rdb 0) = []" by (simp add: empty_rdb_def)
  with patch_touches_one_row [of "empty_rdb 0" "''x''"
      "\<lparr>ur_url = None, ur_threshold = Some ''SAFE'', ur_version = None, ur_active = None\<rparr>"]
  show ?thesis by (simp split: sum.splits prod.splits)
qed

end
