(* ===== verification/Document_Store.thy ===== *)
theory Document_Store
  imports Runtime_Tables
begin

text \<open>
  \<^verbatim>\<open>app/runtime/document_store.py\<close>: the documents the runtime guard keeps beside its tables. The
  in-memory store is a dict of documents per collection; the Mongo store calls a driver, whose
  three operations are parameters. Documents are values, so the deep copies of the source are
  the documents themselves.
\<close>

section \<open>Documents\<close>

definition json_document :: "string \<Rightarrow> moment \<Rightarrow> string \<Rightarrow> json pydict \<Rightarrow> json" where
  "json_document document_id t kind flds =
     JDict (dict_update
       [(''_id'', JStr document_id), (''document_id'', JStr document_id), (''kind'', JStr kind),
        (''created_at'', JStr (isoformat t))] flds)"

definition created_of :: "json \<Rightarrow> string" where
  "created_of doc = (case jget doc ''created_at'' of Some (JStr s) \<Rightarrow> s | _ \<Rightarrow> [])"

definition doc_id :: "json \<Rightarrow> string" where
  "doc_id doc = (case jget doc ''_id'' of Some (JStr s) \<Rightarrow> s | _ \<Rightarrow> [])"

text \<open>The fields of each kind of document, as the keyword arguments of its \<open>store_\<close> method.\<close>

definition metadata_or :: "json pydict option \<Rightarrow> json" where
  "metadata_or metadata = JDict (case metadata of None \<Rightarrow> [] | Some m \<Rightarrow> m)"

definition payload_snapshot_fields ::
  "string option \<Rightarrow> string \<Rightarrow> string \<Rightarrow> string \<Rightarrow> string \<Rightarrow> json \<Rightarrow> string \<Rightarrow> string \<Rightarrow> string \<Rightarrow>
   int option \<Rightarrow> json pydict option \<Rightarrow> json pydict" where
  "payload_snapshot_fields endpoint_id namespace service_name http_method route_path payload fp
     classification source schema_version metadata =
     [(''namespace'', JStr namespace), (''endpoint_id'', opt_json JStr endpoint_id),
      (''service_name'', JStr service_name), (''http_method'', JStr http_method),
      (''route_path'', JStr route_path), (''payload'', payload), (''fingerprint'', JStr fp),
      (''classification'', JStr classification), (''source'', JStr source),
      (''schema_version'', opt_json JInt schema_version), (''metadata'', metadata_or metadata)]"

definition schema_diff_fields ::
  "string \<Rightarrow> string \<Rightarrow> string \<Rightarrow> string \<Rightarrow> string \<Rightarrow> string \<Rightarrow> string \<Rightarrow> string \<Rightarrow> int \<Rightarrow> int \<Rightarrow>
   string \<Rightarrow> json \<Rightarrow> string \<Rightarrow> json pydict" where
  "schema_diff_fields endpoint_id endpoint_name namespace service_name http_method route_path
     old_fingerprint new_fingerprint old_version new_version classification ds source =
     [(''endpoint_id'', JStr endpoint_id), (''endpoint_name'', JStr endpoint_name),
      (''namespace'', JStr namespace), (''service_name'', JStr service_name),
      (''http_method'', JStr http_method), (''route_path'', JStr route_path),
      (''old_fingerprint'', JStr old_fingerprint), (''new_fingerprint'', JStr new_fingerprint),
      (''old_version'', JInt old_version), (''new_version'', JInt new_version),
      (''classification'', JStr classification), (''diffs'', ds), (''source'', JStr source)]"

definition validation_error_fields ::
  "string \<Rightarrow> string \<Rightarrow> json \<Rightarrow> string \<Rightarrow> json pydict option \<Rightarrow> json pydict" where
  "validation_error_fields source path errors raw_body metadata =
     [(''source'', JStr source), (''path'', JStr path), (''errors'', errors),
      (''raw_body'', JStr raw_body), (''metadata'', metadata_or metadata)]"

definition replay_artifact_fields :: "string \<Rightarrow> string \<Rightarrow> json \<Rightarrow> json pydict option \<Rightarrow> json pydict" where
  "replay_artifact_fields source artifact_type payload metadata =
     [(''source'', JStr source), (''artifact_type'', JStr artifact_type), (''payload'', payload),
      (''metadata'', metadata_or metadata)]"

definition contract_review_fields ::
  "string \<Rightarrow> string \<Rightarrow> string \<Rightarrow> string option \<Rightarrow> string \<Rightarrow> string \<Rightarrow> json \<Rightarrow> json \<Rightarrow> string \<Rightarrow> json pydict" where
  "contract_review_fields endpoint_id endpoint_name provider model_name evidence_summary
     consumer_impact review context source =
     [(''endpoint_id'', JStr endpoint_id), (''endpoint_name'', JStr endpoint_name),
      (''provider'', JStr provider), (''model_name'', opt_json JStr model_name),
      (''evidence_summary'', JStr evidence_summary), (''consumer_impact'', JStr consumer_impact),
      (''review'', review), (''context'', context), (''source'', JStr source)]"

section \<open>The in-memory store\<close>

record mem_store =
  ms_next :: nat
  ms_cols :: "string \<Rightarrow> json pydict"

definition empty_store :: mem_store where
  "empty_store = \<lparr>ms_next = 0, ms_cols = (\<lambda>c. [])\<rparr>"

definition mem_insert :: "mem_store \<Rightarrow> string \<Rightarrow> json \<Rightarrow> mem_store" where
  "mem_insert st collection doc =
     st\<lparr>ms_cols := (ms_cols st)(collection := dict_set (doc_id doc) doc (ms_cols st collection))\<rparr>"

definition mem_list :: "mem_store \<Rightarrow> string \<Rightarrow> nat \<Rightarrow> json list" where
  "mem_list st collection limit =
     take limit (sort_desc created_of (map snd (ms_cols st collection)))"

text \<open>A \<open>store_\<close> method: a fresh document is made and inserted.\<close>

definition mem_store_document ::
  "mem_store \<Rightarrow> string \<Rightarrow> string \<Rightarrow> json pydict \<Rightarrow> moment \<Rightarrow> json \<times> mem_store" where
  "mem_store_document st collection kind flds t =
     (let doc = json_document (gen_uuid (ms_next st)) t kind flds
      in (doc, mem_insert (st\<lparr>ms_next := Suc (ms_next st)\<rparr>) collection doc))"

definition get_payload_snapshot :: "mem_store \<Rightarrow> string \<Rightarrow> json option" where
  "get_payload_snapshot st document_id = map_of (ms_cols st ''payload_snapshots'') document_id"

definition list_payload_snapshots :: "mem_store \<Rightarrow> nat \<Rightarrow> json list" where
  "list_payload_snapshots st limit = mem_list st ''payload_snapshots'' limit"

definition list_schema_diffs :: "mem_store \<Rightarrow> nat \<Rightarrow> json list" where
  "list_schema_diffs st limit = mem_list st ''schema_diffs'' limit"

definition list_validation_errors :: "mem_store \<Rightarrow> nat \<Rightarrow> json list" where
  "list_validation_errors st limit = mem_list st ''validation_errors'' limit"

definition list_replay_artifacts :: "mem_store \<Rightarrow> nat \<Rightarrow> json list" where
  "list_replay_artifacts st limit = mem_list st ''replay_artifacts'' limit"

definition has_endpoint :: "string \<Rightarrow> json \<Rightarrow> bool" where
  "has_endpoint endpoint_id doc \<longleftrightarrow> py_str (jget_or doc ''endpoint_id'' JNull) = endpoint_id"

definition list_contract_reviews :: "mem_store \<Rightarrow> nat \<Rightarrow> string option \<Rightarrow> json list" where
  "list_contract_reviews st limit endpoint_id =
     (let docs = mem_list st ''contract_reviews''
                   (if endpoint_id \<noteq> None \<and> endpoint_id \<noteq> Some [] then limit * 4 else limit)
      in case endpoint_id of
           None \<Rightarrow> take limit docs
         | Some e \<Rightarrow> take limit (filter (has_endpoint e) docs))"

definition store_payload_snapshot :: "mem_store \<Rightarrow> json pydict \<Rightarrow> moment \<Rightarrow> json \<times> mem_store" where
  "store_payload_snapshot st flds t = mem_store_document st ''payload_snapshots'' ''payload_snapshot'' flds t"

definition store_schema_diff :: "mem_store \<Rightarrow> json pydict \<Rightarrow> moment \<Rightarrow> json \<times> mem_store" where
  "store_schema_diff st flds t = mem_store_document st ''schema_diffs'' ''schema_diff'' flds t"

definition store_validation_error :: "mem_store \<Rightarrow> json pydict \<Rightarrow> moment \<Rightarrow> json \<times> mem_store" where
  "store_validation_error st flds t = mem_store_document st ''validation_errors'' ''validation_error'' flds t"

definition store_replay_artifact :: "mem_store \<Rightarrow> json pydict \<Rightarrow> moment \<Rightarrow> json \<times> mem_store" where
  "store_replay_artifact st flds t = mem_store_document st ''replay_artifacts'' ''replay_artifact'' flds t"

definition store_contract_review :: "mem_store \<Rightarrow> json pydict \<Rightarrow> moment \<Rightarrow> json \<times> mem_store" where
  "store_contract_review st flds t = mem_store_document st ''contract_reviews'' ''contract_review'' flds t"

section \<open>The Mongo store\<close>

text \<open>
  The driver: \<open>insert_one\<close>, \<open>find_one\<close> by \<open>_id\<close>, and \<open>find().sort("created_at", -1).limit(n)\<close>, for a
  state of the database of any type.
\<close>

record 'm driver =
  insert_one :: "'m \<Rightarrow> string \<Rightarrow> json \<Rightarrow> 'm"
  find_one :: "'m \<Rightarrow> string \<Rightarrow> string \<Rightarrow> json option"
  find_newest :: "'m \<Rightarrow> string \<Rightarrow> nat \<Rightarrow> json list"

definition mongo_store_document ::
  "'m driver \<Rightarrow> nat \<Rightarrow> 'm \<Rightarrow> string \<Rightarrow> string \<Rightarrow> json pydict \<Rightarrow> moment \<Rightarrow> json \<times> nat \<times> 'm" where
  "mongo_store_document drv n m collection kind flds t =
     (let doc = json_document (gen_uuid n) t kind flds
      in (doc, Suc n, insert_one drv m collection doc))"

definition mongo_store_payload_snapshot ::
  "'m driver \<Rightarrow> nat \<Rightarrow> 'm \<Rightarrow> json pydict \<Rightarrow> moment \<Rightarrow> json \<times> nat \<times> 'm" where
  "mongo_store_payload_snapshot drv n m flds t = mongo_store_document drv n m ''payload_snapshots'' ''payload_snapshot'' flds t"

definition mongo_store_schema_diff ::
  "'m driver \<Rightarrow> nat \<Rightarrow> 'm \<Rightarrow> json pydict \<Rightarrow> moment \<Rightarrow> json \<times> nat \<times> 'm" where
  "mongo_store_schema_diff drv n m flds t = mongo_store_document drv n m ''schema_diffs'' ''schema_diff'' flds t"

definition mongo_store_validation_error ::
  "'m driver \<Rightarrow> nat \<Rightarrow> 'm \<Rightarrow> json pydict \<Rightarrow> moment \<Rightarrow> json \<times> nat \<times> 'm" where
  "mongo_store_validation_error drv n m flds t = mongo_store_document drv n m ''validation_errors'' ''validation_error'' flds t"

definition mongo_store_replay_artifact ::
  "'m driver \<Rightarrow> nat \<Rightarrow> 'm \<Rightarrow> json pydict \<Rightarrow> moment \<Rightarrow> json \<times> nat \<times> 'm" where
  "mongo_store_replay_artifact drv n m flds t = mongo_store_document drv n m ''replay_artifacts'' ''replay_artifact'' flds t"

definition mongo_store_contract_review ::
  "'m driver \<Rightarrow> nat \<Rightarrow> 'm \<Rightarrow> json pydict \<Rightarrow> moment \<Rightarrow> json \<times> nat \<times> 'm" where
  "mongo_store_contract_review drv n m flds t = mongo_store_document drv n m ''contract_reviews'' ''contract_review'' flds t"

definition mongo_get_payload_snapshot :: "'m driver \<Rightarrow> 'm \<Rightarrow> string \<Rightarrow> json option" where
  "mongo_get_payload_snapshot drv m document_id = find_one drv m ''payload_snapshots'' document_id"

definition mongo_list :: "'m driver \<Rightarrow> 'm \<Rightarrow> string \<Rightarrow> nat \<Rightarrow> json list" where
  "mongo_list drv m collection limit = find_newest drv m collection limit"

definition mongo_list_contract_reviews :: "'m driver \<Rightarrow> 'm \<Rightarrow> nat \<Rightarrow> string option \<Rightarrow> json list" where
  "mongo_list_contract_reviews drv m limit endpoint_id =
     (case endpoint_id of
        None \<Rightarrow> mongo_list drv m ''contract_reviews'' limit
      | Some e \<Rightarrow>
          take limit (filter (has_endpoint e)
            (mongo_list drv m ''contract_reviews'' (max (limit * 4) limit))))"

section \<open>Choice of the backend\<close>

datatype store_choice = InMemory | Mongo string string

text \<open>The three environment variables are \<open>None\<close> when they are not set.\<close>

definition build_document_store :: "string option \<Rightarrow> string option \<Rightarrow> string option \<Rightarrow> py_error + store_choice" where
  "build_document_store backend_var uri_var database_var =
     (let backend = py_lower (py_strip (case backend_var of None \<Rightarrow> ''memory'' | Some b \<Rightarrow> b)) in
      if backend \<in> {''memory'', ''noop'', ''none''} then Inr InMemory
      else if backend \<in> {''mongo'', ''cosmos'', ''cosmos_mongo''} then
        (case uri_var of
           None \<Rightarrow> Inl (RuntimeError ''DOCUMENT_STORE_URI is required when DOCUMENT_STORE_BACKEND uses Mongo'')
         | Some uri \<Rightarrow>
             if uri = [] then Inl (RuntimeError ''DOCUMENT_STORE_URI is required when DOCUMENT_STORE_BACKEND uses Mongo'')
             else Inr (Mongo uri (case database_var of None \<Rightarrow> ''driftgate_documents'' | Some d \<Rightarrow> d)))
      else Inl (ValueError (''Unsupported DOCUMENT_STORE_BACKEND: '' @ backend)))"

section \<open>What a document backend promises\<close>

text \<open>
  The collections as sequences of documents in the order of insertion: a stored document is
  appended to its collection alone, and a listing gives the newest documents first.
\<close>

lemma insort_key_greater: "(\<And>y. y \<in> set xs \<Longrightarrow> f y < f x) \<Longrightarrow> insort_key f x xs = xs @ [x]"
proof (induction xs)
  case (Cons a xs)
  then have "f a < f x" "insort_key f x xs = xs @ [x]" by simp_all
  then show ?case by (auto dest: leD)
qed simp

locale doc_backend =
  fixes ok :: "'s \<Rightarrow> bool"
    and good :: "json pydict \<Rightarrow> bool"
    and docs :: "'s \<Rightarrow> string \<Rightarrow> json list"
    and put :: "'s \<Rightarrow> string \<Rightarrow> string \<Rightarrow> json pydict \<Rightarrow> moment \<Rightarrow> json \<times> 's"
    and newest :: "'s \<Rightarrow> string \<Rightarrow> nat \<Rightarrow> json list"
  assumes put_ok: "ok s \<Longrightarrow> good f \<Longrightarrow> ok (snd (put s c k f t))"
    and put_docs: "ok s \<Longrightarrow> good f \<Longrightarrow> docs (snd (put s c k f t)) c' =
      (if c' = c then docs s c @ [fst (put s c k f t)] else docs s c')"
    and newest_docs: "ok s \<Longrightarrow> newest s c n = take n (sort_desc created_of (docs s c))"
begin

lemma newest_length: "ok s \<Longrightarrow> length (newest s c n) = min n (length (docs s c))"
  by (simp add: newest_docs min.commute)

lemma newest_in_docs: "ok s \<Longrightarrow> set (newest s c n) \<subseteq> set (docs s c)"
  unfolding newest_docs by (metis set_sort_desc set_take_subset)

lemma newest_all: "ok s \<Longrightarrow> length (docs s c) \<le> n \<Longrightarrow> newest s c n = sort_desc created_of (docs s c)"
  by (simp add: newest_docs)

lemma newest_sorted: "ok s \<Longrightarrow> sorted_wrt (\<lambda>x y. created_of y \<le> created_of x) (newest s c n)"
  by (simp add: newest_docs sorted_sort_desc sorted_wrt_take)

lemma put_is_newest:
  assumes "ok s" "good f" "0 < n" "\<And>d. d \<in> set (docs s c) \<Longrightarrow> created_of d < created_of (fst (put s c k f t))"
  shows "\<exists>rest. newest (snd (put s c k f t)) c n = fst (put s c k f t) # rest"
proof -
  let ?x = "fst (put s c k f t)"
  have "insort_key created_of ?x (sort_key created_of (rev (docs s c)))
      = sort_key created_of (rev (docs s c)) @ [?x]"
    by (rule insort_key_greater) (use assms(4) in auto)
  then have "sort_desc created_of (docs s c @ [?x]) = ?x # sort_desc created_of (docs s c)"
    by (simp add: sort_desc_def)
  then show ?thesis
    using assms(1-3) by (cases n) (simp_all add: newest_docs put_ok put_docs)
qed

end

section \<open>The in-memory store is such a backend\<close>

definition mem_ok :: "mem_store \<Rightarrow> bool" where
  "mem_ok st \<longleftrightarrow> (\<forall>c. \<forall>i \<in> fst ` set (ms_cols st c). issued (ms_next st) i)"

definition mem_docs :: "mem_store \<Rightarrow> string \<Rightarrow> json list" where
  "mem_docs st c = map snd (ms_cols st c)"

lemma mem_ok_empty [simp]: "mem_ok empty_store"
  by (simp add: mem_ok_def empty_store_def)

text \<open>The fields of a document never replace its identifier, kind or time.\<close>

definition field_keys_ok :: "json pydict \<Rightarrow> bool" where
  "field_keys_ok f \<longleftrightarrow> list_all (\<lambda>k. k \<notin> {''_id'', ''document_id'', ''kind'', ''created_at''}) (keys f)"

lemma dict_set_new: "k \<notin> fst ` set d \<Longrightarrow> dict_set k v d = d @ [(k, v)]"
  by (induction d) auto

lemma map_of_update_other: "k \<notin> fst ` set e \<Longrightarrow> map_of (dict_update d e) k = map_of d k"
proof (induction e arbitrary: d)
  case (Cons kv e)
  obtain l v where kv: "kv = (l, v)" by (cases kv)
  with Cons.prems have "k \<noteq> l" "k \<notin> fst ` set e" by auto
  then show ?case by (simp add: kv dict_update_Cons Cons.IH update_conv')
qed simp

lemma document_head:
  assumes "field_keys_ok f"
  shows "doc_id (json_document i t k f) = i" "created_of (json_document i t k f) = isoformat t"
proof -
  have "x \<in> {''_id'', ''document_id'', ''kind'', ''created_at''} \<Longrightarrow> x \<notin> fst ` set f" for x
    using assms by (auto simp: field_keys_ok_def list_all_iff)
  then have "''_id'' \<notin> fst ` set f" "''created_at'' \<notin> fst ` set f" by blast+
  then show "doc_id (json_document i t k f) = i" "created_of (json_document i t k f) = isoformat t"
    by (simp_all add: doc_id_def created_of_def json_document_def map_of_update_other)
qed

lemma mem_store_cols:
  assumes "mem_ok st" "field_keys_ok f"
  shows "ms_cols (snd (mem_store_document st c k f t)) =
    (ms_cols st)(c := ms_cols st c @ [(gen_uuid (ms_next st), fst (mem_store_document st c k f t))])"
proof -
  have "gen_uuid (ms_next st) \<notin> fst ` set (ms_cols st c)"
    using assms(1) unfolding mem_ok_def by (metis issued_fresh)
  then show ?thesis
    using assms(2) by (simp add: mem_store_document_def Let_def mem_insert_def document_head dict_set_new)
qed

lemma mem_store_next: "ms_next (snd (mem_store_document st c k f t)) = Suc (ms_next st)"
  by (simp add: mem_store_document_def Let_def mem_insert_def)

interpretation mem: doc_backend mem_ok field_keys_ok mem_docs mem_store_document mem_list
proof
  fix st c k c' n t and f :: "json pydict" assume ok: "mem_ok st" "field_keys_ok f"
  note cols = mem_store_cols [OF ok, of c k t]
  show "mem_ok (snd (mem_store_document st c k f t))"
    using ok unfolding mem_ok_def cols by (auto simp: mem_store_next)
  show "mem_docs (snd (mem_store_document st c k f t)) c' =
      (if c' = c then mem_docs st c @ [fst (mem_store_document st c k f t)] else mem_docs st c')"
    unfolding mem_docs_def cols by simp
qed (simp add: mem_list_def mem_docs_def)

lemma payload_snapshot_fields_ok: "field_keys_ok (payload_snapshot_fields e ns svc m r p fp c src v md)"
  by (simp add: field_keys_ok_def payload_snapshot_fields_def)

lemma replay_artifact_fields_ok: "field_keys_ok (replay_artifact_fields src ty p md)"
  by (simp add: field_keys_ok_def replay_artifact_fields_def)

section \<open>Properties\<close>

text \<open>A stored payload snapshot is found again: after it is stored at a later time than every
  snapshot before it, looking its \<open>document_id\<close> up gives exactly the stored document, and every
  listing with a positive limit starts with it and is at most that long.\<close>

theorem stored_snapshot_found:
  assumes "mem_ok st" and "0 < n"
    and "flds = payload_snapshot_fields e ns svc m r p fp c src v md"
    and "\<forall>d \<in> set (mem_docs st ''payload_snapshots''). created_of d < isoformat t"
    and "store_payload_snapshot st flds t = (doc, st')"
  shows "get_payload_snapshot st' (doc_id doc) = Some doc
    \<and> (\<exists>rest. list_payload_snapshots st' n = doc # rest \<and> length rest < n)
    \<and> jget doc ''payload'' = Some p"
proof (intro conjI)
  have good: "field_keys_ok flds" unfolding assms(3) by (rule payload_snapshot_fields_ok)
  have put: "mem_store_document st ''payload_snapshots'' ''payload_snapshot'' flds t = (doc, st')"
    using assms(5) by (simp add: store_payload_snapshot_def)
  then have doc: "doc = json_document (gen_uuid (ms_next st)) t ''payload_snapshot'' flds"
    by (simp add: mem_store_document_def Let_def)
  have fresh: "gen_uuid (ms_next st) \<notin> fst ` set (ms_cols st ''payload_snapshots'')"
    using assms(1) unfolding mem_ok_def by (metis issued_fresh)
  then have "map_of (ms_cols st ''payload_snapshots'') (gen_uuid (ms_next st)) = None"
    by (simp add: map_of_eq_None_iff)
  then show "get_payload_snapshot st' (doc_id doc) = Some doc"
    using mem_store_cols [OF assms(1) good, of "''payload_snapshots''" "''payload_snapshot''" t] put
    by (simp add: get_payload_snapshot_def doc document_head [OF good] map_add_def)
  have "\<exists>rest. mem_list st' ''payload_snapshots'' n = doc # rest"
    using mem.put_is_newest [OF assms(1) good assms(2), of "''payload_snapshots''" "''payload_snapshot''" t]
      assms(4) put by (simp add: doc document_head [OF good])
  then obtain rest where "mem_list st' ''payload_snapshots'' n = doc # rest" ..
  moreover have "length (mem_list st' ''payload_snapshots'' n) \<le> n" by (simp add: mem_list_def)
  ultimately show "\<exists>rest. list_payload_snapshots st' n = doc # rest \<and> length rest < n"
    by (simp add: list_payload_snapshots_def)
  show "jget doc ''payload'' = Some p"
    unfolding doc assms(3) by (simp add: json_document_def payload_snapshot_fields_def dict_update_Cons update_conv')
qed

lemma stored_snapshot_found_witness:
  "\<exists>doc st'. store_payload_snapshot empty_store
      (payload_snapshot_fields None ''n'' ''s'' ''GET'' ''/x'' (JDict [(''a'', JInt 1)]) ''fp'' ''SAFE'' ''test'' None None) 0
      = (doc, st') \<and> get_payload_snapshot st' (doc_id doc) = Some doc"
proof -
  let ?f = "payload_snapshot_fields None ''n'' ''s'' ''GET'' ''/x'' (JDict [(''a'', JInt 1)]) ''fp'' ''SAFE'' ''test'' None None"
  obtain doc st' where s: "store_payload_snapshot empty_store ?f 0 = (doc, st')" by (metis surj_pair)
  have "\<forall>d \<in> set (mem_docs empty_store ''payload_snapshots''). created_of d < isoformat 0"
    by (simp add: mem_docs_def empty_store_def)
  from stored_snapshot_found [OF mem_ok_empty zero_less_one refl this s] s show ?thesis by blast
qed

text \<open>The history of an endpoint's reviews is complete only while the store is small: with at
  most four times \<open>limit\<close> reviews in all, the newest \<open>limit\<close> reviews of the endpoint are listed;
  but when the newest \<open>4 * limit\<close> reviews are all of other endpoints nothing is listed, whatever
  older reviews of the endpoint there are.\<close>

theorem review_history_window:
  assumes "e \<noteq> []"
  shows "(length (mem_docs st ''contract_reviews'') \<le> 4 * limit \<longrightarrow>
      list_contract_reviews st limit (Some e) =
        take limit (filter (has_endpoint e) (sort_desc created_of (mem_docs st ''contract_reviews''))))
    \<and> ((\<forall>d \<in> set (take (4 * limit) (sort_desc created_of (mem_docs st ''contract_reviews''))). \<not> has_endpoint e d) \<longrightarrow>
      list_contract_reviews st limit (Some e) = [])"
  using assms
  by (auto simp: list_contract_reviews_def mem_list_def mem_docs_def mult.commute filter_empty_conv)

lemma review_history_window_witness:
  "list_contract_reviews empty_store 1 (Some ''e'') =
     take 1 (filter (has_endpoint ''e'') (sort_desc created_of (mem_docs empty_store ''contract_reviews'')))"
  using review_history_window [of "''e''" empty_store 1] by (simp add: mem_docs_def empty_store_def)


text \<open>A driver that keeps each collection as a list.\<close>

definition list_driver :: "(string \<Rightarrow> json list) driver" where
  "list_driver = \<lparr>insert_one = (\<lambda>m c d. m(c := m c @ [d])),
     find_one = (\<lambda>m c i. first_row (filter (\<lambda>d. doc_id d = i) (m c))),
     find_newest = (\<lambda>m c n. take n (sort_desc created_of (m c)))\<rparr>"


end
