(* ===== verification/Webhook.thy ===== *)
theory Webhook
  imports Keyed_Table Subscriptions Document_Store
begin

text \<open>
  \<^verbatim>\<open>app/runtime/webhook.py\<close>: delivery of a drift to a consumer with retries, the dead letter queue
  and its replay. The answers of the consumers' servers are the parameter \<open>post\<close>: the outcome of
  the \<open>n\<close>-th request (counted by the supply of identifiers, which every attempt advances) with the
  given URL and JSON body. The latency histograms and the closing of the client are left out.
\<close>

section \<open>The dead letter queue\<close>

definition dlq_key :: "dlq_row \<Rightarrow> string \<times> string" where
  "dlq_key r = (dl_event r, dl_consumer r)"

definition dlq_merge :: "dlq_row \<Rightarrow> dlq_row \<Rightarrow> dlq_row" where
  "dlq_merge excluded r = r\<lparr>dl_reason := dl_reason excluded,
     dl_count := max (dl_count r) (dl_count excluded), dl_last := dl_last excluded\<rparr>"

interpretation wdlq: keyed_table dlq_key dlq_merge
  by unfold_locales (simp add: dlq_key_def dlq_merge_def)

definition upsert_dlq ::
  "rdb \<Rightarrow> string \<Rightarrow> string \<Rightarrow> string \<Rightarrow> string \<Rightarrow> json \<Rightarrow> string \<Rightarrow> int \<Rightarrow> rdb" where
  "upsert_dlq db event_id consumer_id endpoint_id target_url payload failure_reason attempt_count =
     (let (i, db) = fresh_id db;
          (inserted, rows) = upsert_row dlq_key dlq_merge
            \<lparr>dl_id = i, dl_event = event_id, dl_consumer = consumer_id, dl_endpoint = endpoint_id,
             dl_url = target_url, dl_payload = payload, dl_reason = failure_reason,
             dl_count = attempt_count, dl_created = now db, dl_last = now db\<rparr> (dlq db)
      in db\<lparr>dlq := rows, dlq_size := dlq_size db + of_bool inserted\<rparr>)"

section \<open>Delivery\<close>

datatype http_outcome = Response int | Raised string

type_synonym http_post = "nat \<Rightarrow> string \<Rightarrow> json \<Rightarrow> http_outcome"

fun is_ok :: "http_outcome \<Rightarrow> bool" where
  "is_ok (Response c) = (200 \<le> c \<and> c < 300)"
| "is_ok (Raised m) = False"

fun reason_of :: "http_outcome \<Rightarrow> string" where
  "reason_of (Response c) = ''HTTP '' @ show_int c"
| "reason_of (Raised m) = m"

definition log_attempt ::
  "rdb \<Rightarrow> string \<Rightarrow> string \<Rightarrow> string \<Rightarrow> string \<Rightarrow> bool \<Rightarrow> string option \<Rightarrow> int \<Rightarrow> rdb" where
  "log_attempt db event_id consumer_id endpoint_id target_url success failure_reason attempt_count =
     (let (i, db) = fresh_id db
      in db\<lparr>attempts := attempts db @
           [\<lparr>da_id = i, da_event = event_id, da_consumer = consumer_id, da_endpoint = endpoint_id,
             da_url = target_url, da_success = success, da_reason = failure_reason,
             da_count = attempt_count, da_at = now db\<rparr>]\<rparr>)"

text \<open>The loop over \<open>range(1, max_attempts + 1)\<close>.\<close>

fun delivery_loop ::
  "http_post \<Rightarrow> string \<Rightarrow> string \<Rightarrow> subscription \<Rightarrow> json \<Rightarrow> int \<Rightarrow> bool \<Rightarrow> rdb \<Rightarrow> int list \<Rightarrow> bool \<times> rdb" where
  "delivery_loop post event_id endpoint_id sub payload max_attempts persist_dlq db [] = (False, db)"
| "delivery_loop post event_id endpoint_id sub payload max_attempts persist_dlq db (attempt # rest) =
     (let res = post (next_id db) (sub_url sub) payload in
      if is_ok res then
        (True, log_attempt db event_id (sub_consumer sub) endpoint_id (sub_url sub) True None attempt)
      else
        (let reason = reason_of res;
             db = db\<lparr>delivery_failures := Suc (delivery_failures db)\<rparr>;
             db = log_attempt db event_id (sub_consumer sub) endpoint_id (sub_url sub) False (Some reason) attempt
         in if attempt = max_attempts then
              (False,
               if persist_dlq
               then upsert_dlq db event_id (sub_consumer sub) endpoint_id (sub_url sub)
                      (JDict [(''event'', payload), (''failed_at'', JStr (isoformat (now db)))])
                      reason attempt
               else db)
            else delivery_loop post event_id endpoint_id sub payload max_attempts persist_dlq db rest))"

definition deliver_with_retry ::
  "http_post \<Rightarrow> rdb \<Rightarrow> string \<Rightarrow> string \<Rightarrow> subscription \<Rightarrow> json \<Rightarrow> int \<Rightarrow> bool \<Rightarrow> bool \<times> rdb" where
  "deliver_with_retry post db event_id endpoint_id sub payload max_attempts persist_dlq =
     (if \<not> sub_active sub then (False, db)
      else delivery_loop post event_id endpoint_id sub payload max_attempts persist_dlq db [1..max_attempts])"

section \<open>Reading and replaying the queue\<close>

definition dlq_entry :: "dlq_row \<Rightarrow> json" where
  "dlq_entry r = JDict
     [(''id'', JStr (dl_id r)), (''event_id'', JStr (dl_event r)), (''consumer_id'', JStr (dl_consumer r)),
      (''endpoint_id'', JStr (dl_endpoint r)), (''target_url'', JStr (dl_url r)),
      (''payload'', dl_payload r), (''failure_reason'', JStr (dl_reason r)),
      (''attempt_count'', JInt (dl_count r)), (''created_at'', JStr (isoformat (dl_created r))),
      (''last_attempt_at'', JStr (isoformat (dl_last r)))]"

definition list_dlq_entries :: "rdb \<Rightarrow> nat \<Rightarrow> json list" where
  "list_dlq_entries db limit = map dlq_entry (take limit (sort_desc dl_last (dlq db)))"

definition get_dlq_entry :: "rdb \<Rightarrow> string \<Rightarrow> dlq_row option" where
  "get_dlq_entry db dlq_id = row_at dl_id dlq_id (dlq db)"

definition attempt_entry :: "delivery_attempt \<Rightarrow> json" where
  "attempt_entry a = JDict
     [(''id'', JStr (da_id a)), (''event_id'', JStr (da_event a)), (''consumer_id'', JStr (da_consumer a)),
      (''endpoint_id'', JStr (da_endpoint a)), (''target_url'', JStr (da_url a)),
      (''success'', JBool (da_success a)), (''failure_reason'', opt_json JStr (da_reason a)),
      (''attempt_count'', JInt (da_count a)), (''attempted_at'', JStr (isoformat (da_at a)))]"

definition list_delivery_attempts :: "rdb \<Rightarrow> nat \<Rightarrow> json list" where
  "list_delivery_attempts db limit = map attempt_entry (take limit (sort_desc da_at (attempts db)))"

text \<open>The payload that a replay sends again: \<open>payload.get("event")\<close> of the stored one, as a dict.\<close>

definition replay_payload :: "json \<Rightarrow> json" where
  "replay_payload payload =
     (let event_payload = (if is_dict payload then jget_or payload ''event'' JNull else payload)
      in if is_dict event_payload then event_payload else JDict [(''value'', event_payload)])"

definition replay_dlq_entry ::
  "http_post \<Rightarrow> rdb \<Rightarrow> string \<Rightarrow> mem_store option \<Rightarrow> json \<times> rdb \<times> mem_store option" where
  "replay_dlq_entry post db dlq_id document_store =
     (case get_dlq_entry db dlq_id of
        None \<Rightarrow> (JDict [(''replayed'', JBool False), (''error'', JStr ''dlq_not_found'')], db, document_store)
      | Some entry \<Rightarrow>
          (case first_row (sort_desc sub_created (filter (\<lambda>s. sub_endpoint s = dl_endpoint entry
                  \<and> sub_consumer s = dl_consumer entry) (subscriptions db))) of
             None \<Rightarrow> (JDict [(''replayed'', JBool False), (''error'', JStr ''subscription_not_found''),
                            (''dlq'', dlq_entry entry)], db, document_store)
           | Some sub \<Rightarrow>
               (let (ok, db) = deliver_with_retry post db (dl_event entry) (dl_endpoint entry) sub
                                 (replay_payload (dl_payload entry)) 1 False;
                    artifact = JDict
                      [(''dlq_id'', JStr dlq_id), (''event_id'', JStr (dl_event entry)),
                       (''consumer_id'', JStr (dl_consumer entry)), (''endpoint_id'', JStr (dl_endpoint entry)),
                       (''target_url'', JStr (dl_url entry)), (''replayed'', JBool ok),
                       (''failure_reason'', if ok then JNull else JStr (dl_reason entry)),
                       (''replayed_at'', JStr (isoformat (now db)))]
                in (artifact, db,
                    map_option (\<lambda>st. snd (store_replay_artifact st
                      (replay_artifact_fields ''runtime-dlq'' ''dlq_replay'' artifact
                        (Some [(''dlq_id'', JStr dlq_id), (''consumer_id'', JStr (dl_consumer entry))]))
                      (now db))) document_store))))"

text \<open>The routes of \<^verbatim>\<open>app/api/reliability.py\<close> over this module.\<close>

definition api_webhook_dlq_entry :: "rdb \<Rightarrow> string \<Rightarrow> py_error + json" where
  "api_webhook_dlq_entry db dlq_id =
     (case get_dlq_entry db dlq_id of
        None \<Rightarrow> Inl (HTTPException 404 ''dlq entry not found'')
      | Some r \<Rightarrow> Inr (dlq_entry r))"

definition api_replay_webhook_dlq ::
  "http_post \<Rightarrow> rdb \<Rightarrow> string \<Rightarrow> mem_store option \<Rightarrow> (py_error + json) \<times> rdb \<times> mem_store option" where
  "api_replay_webhook_dlq post db dlq_id document_store =
     (let (result, db, st) = replay_dlq_entry post db dlq_id document_store in
      (if \<not> truthy (jget_or result ''replayed'' JNull)
          \<and> py_eq (jget_or result ''error'' JNull) (JStr ''dlq_not_found'')
       then Inl (HTTPException 404 ''dlq entry not found'')
       else Inr result, db, st))"

section \<open>What a delivery does\<close>

text \<open>The invariant of the queue: one row per event and consumer, and the gauge counts the rows.\<close>

definition dlq_ok :: "rdb \<Rightarrow> bool" where
  "dlq_ok db \<longleftrightarrow> distinct (map dlq_key (dlq db)) \<and> dlq_size db = int (length (dlq db))"

lemma upsert_dlq_ok: "dlq_ok db \<Longrightarrow> dlq_ok (upsert_dlq db ev c e url p r n)"
  by (simp add: dlq_ok_def upsert_dlq_def fresh_id_def Let_def case_prod_unfold
      wdlq.upsert_distinct wdlq.upsert_length)

lemma log_attempt_frame [simp]:
  "dlq (log_attempt db ev c e url ok r n) = dlq db"
  "dlq_size (log_attempt db ev c e url ok r n) = dlq_size db"
  "next_id (log_attempt db ev c e url ok r n) = Suc (next_id db)"
  "now (log_attempt db ev c e url ok r n) = now db"
  "subscriptions (log_attempt db ev c e url ok r n) = subscriptions db"
  "outbox (log_attempt db ev c e url ok r n) = outbox db"
  "versions (log_attempt db ev c e url ok r n) = versions db"
  "endpoints (log_attempt db ev c e url ok r n) = endpoints db"
  by (simp_all add: log_attempt_def fresh_id_def Let_def)

lemma upsert_dlq_frame [simp]:
  "attempts (upsert_dlq db ev c e url p r n) = attempts db"
  "now (upsert_dlq db ev c e url p r n) = now db"
  "subscriptions (upsert_dlq db ev c e url p r n) = subscriptions db"
  "outbox (upsert_dlq db ev c e url p r n) = outbox db"
  "versions (upsert_dlq db ev c e url p r n) = versions db"
  "endpoints (upsert_dlq db ev c e url p r n) = endpoints db"
  "next_id (upsert_dlq db ev c e url p r n) = Suc (next_id db)"
  by (simp_all add: upsert_dlq_def fresh_id_def Let_def case_prod_unfold)

text \<open>The row of a key after the upsert.\<close>

lemma upsert_dlq_row:
  "\<exists>x. row_at dlq_key (ev, c) (dlq (upsert_dlq db ev c e url p r n)) = Some x
    \<and> dl_reason x = r \<and> n \<le> dl_count x
    \<and> (row_at dlq_key (ev, c) (dlq db) = None \<longrightarrow> dl_payload x = p \<and> dl_count x = n)"
  by (auto simp: upsert_dlq_def fresh_id_def Let_def case_prod_unfold wdlq.upsert_row_at dlq_key_def
      dlq_merge_def split: option.splits)

lemma upsert_dlq_other:
  "k \<noteq> (ev, c) \<Longrightarrow> row_at dlq_key k (dlq (upsert_dlq db ev c e url p r n)) = row_at dlq_key k (dlq db)"
  by (simp add: upsert_dlq_def fresh_id_def Let_def case_prod_unfold wdlq.upsert_row_at)
    (simp add: dlq_key_def)

text \<open>What the loop leaves alone.\<close>

lemma delivery_loop_frame:
  assumes "delivery_loop post ev e sub p m persist db ks = (ok, db')"
  shows "now db' = now db \<and> subscriptions db' = subscriptions db \<and> outbox db' = outbox db
    \<and> versions db' = versions db \<and> endpoints db' = endpoints db
    \<and> (dlq_ok db \<longrightarrow> dlq_ok db') \<and> next_id db \<le> next_id db'"
  using assms
proof (induction ks arbitrary: db)
  case (Cons k ks)
  let ?db = "log_attempt (db\<lparr>delivery_failures := Suc (delivery_failures db)\<rparr>) ev (sub_consumer sub) e (sub_url sub)
    False (Some (reason_of (post (next_id db) (sub_url sub) p))) k"
  have ok: "dlq_ok db \<Longrightarrow> dlq_ok ?db" by (simp add: dlq_ok_def)
  show ?case
  proof (cases "is_ok (post (next_id db) (sub_url sub) p)")
    case True
    then show ?thesis using Cons.prems by (auto simp: Let_def dlq_ok_def)
  next
    case bad: False
    show ?thesis
    proof (cases "k = m")
      case True
      then show ?thesis using Cons.prems bad ok upsert_dlq_ok by (auto simp: Let_def)
    next
      case False
      then have "delivery_loop post ev e sub p m persist ?db ks = (ok, db')"
        using Cons.prems bad by (simp add: Let_def)
      from Cons.IH [OF this] ok show ?thesis by auto
    qed
  qed
qed simp

lemma deliver_frame:
  assumes "deliver_with_retry post db ev e sub p m persist = (ok, db')"
  shows "now db' = now db \<and> subscriptions db' = subscriptions db \<and> outbox db' = outbox db
    \<and> versions db' = versions db \<and> endpoints db' = endpoints db
    \<and> (dlq_ok db \<longrightarrow> dlq_ok db') \<and> next_id db \<le> next_id db'"
  using assms delivery_loop_frame by (auto simp: deliver_with_retry_def split: if_splits)

text \<open>The record of an attempt, and of the attempts \<open>k, k + 1, ..\<close> of one delivery.\<close>

definition attempt_view :: "delivery_attempt \<Rightarrow> string \<times> string \<times> string \<times> int \<times> bool \<times> string option" where
  "attempt_view a = (da_event a, da_consumer a, da_url a, da_count a, da_success a, da_reason a)"

lemma attempts_log:
  "map attempt_view (attempts (log_attempt db ev c e url ok r n)) =
    map attempt_view (attempts db) @ [(ev, c, url, n, ok, r)]"
  by (simp add: log_attempt_def fresh_id_def Let_def attempt_view_def)

text \<open>The answer to attempt \<open>j\<close> of a delivery that starts with attempt \<open>k\<close>, and the attempts that fail.\<close>

definition outcome_at :: "http_post \<Rightarrow> rdb \<Rightarrow> subscription \<Rightarrow> json \<Rightarrow> int \<Rightarrow> int \<Rightarrow> http_outcome" where
  "outcome_at post db sub p k j = post (next_id db + nat (j - k)) (sub_url sub) p"

definition failing :: "http_post \<Rightarrow> rdb \<Rightarrow> subscription \<Rightarrow> json \<Rightarrow> int \<Rightarrow> int \<Rightarrow> int list" where
  "failing post db sub p k m = takeWhile (\<lambda>j. \<not> is_ok (outcome_at post db sub p k j)) [k..m]"

lemma delivery_loop_spec:
  assumes "k \<le> m" and "delivery_loop post ev e sub p m persist db [k..m] = (ok, db')"
  shows "(ok \<longleftrightarrow> (\<exists>j \<in> {k..m}. is_ok (outcome_at post db sub p k j)))
    \<and> map attempt_view (attempts db') = map attempt_view (attempts db)
        @ map (\<lambda>j. (ev, sub_consumer sub, sub_url sub, j, False, Some (reason_of (outcome_at post db sub p k j)))) (failing post db sub p k m)
        @ (if ok then [(ev, sub_consumer sub, sub_url sub, k + int (length (failing post db sub p k m)), True, None)] else [])
    \<and> (ok \<or> \<not> persist \<longrightarrow> dlq db' = dlq db)
    \<and> (\<not> ok \<and> persist \<longrightarrow>
        (\<exists>x. row_at dlq_key (ev, sub_consumer sub) (dlq db') = Some x
          \<and> dl_reason x = reason_of (outcome_at post db sub p k m) \<and> m \<le> dl_count x
          \<and> (row_at dlq_key (ev, sub_consumer sub) (dlq db) = None \<longrightarrow> dl_count x = m
              \<and> replay_payload (dl_payload x) = replay_payload (JDict [(''event'', p)])))
        \<and> (\<forall>q. q \<noteq> (ev, sub_consumer sub) \<longrightarrow> row_at dlq_key q (dlq db') = row_at dlq_key q (dlq db)))"
  using assms
proof (induction "nat (m - k)" arbitrary: k db)
  case 0
  then have km: "k = m" "[k..m] = [m]" by simp_all
  let ?r = "post (next_id db) (sub_url sub) p"
  show ?case
  proof (cases "is_ok ?r")
    case True
    then show ?thesis using 0 km by (auto simp: Let_def attempts_log failing_def outcome_at_def)
  next
    case False
    let ?db = "log_attempt (db\<lparr>delivery_failures := Suc (delivery_failures db)\<rparr>) ev (sub_consumer sub) e (sub_url sub)
      False (Some (reason_of ?r)) m"
    have db': "\<not> ok" "db' = (if persist then upsert_dlq ?db ev (sub_consumer sub) e (sub_url sub)
        (JDict [(''event'', p), (''failed_at'', JStr (isoformat (now db)))]) (reason_of ?r) m else ?db)"
      using 0 km False by (auto simp: Let_def)
    have "replay_payload (JDict [(''event'', p), (''failed_at'', JStr (isoformat (now db)))])
        = replay_payload (JDict [(''event'', p)])"
      by (simp add: replay_payload_def jget_or_def)
    then show ?thesis
      using False db' km upsert_dlq_row [of ev "sub_consumer sub" ?db e "sub_url sub"
          "JDict [(''event'', p), (''failed_at'', JStr (isoformat (now db)))]" "reason_of ?r" m]
        upsert_dlq_other [of _ ev "sub_consumer sub" ?db]
      by (auto simp: attempts_log failing_def outcome_at_def)
  qed
next
  case (Suc n)
  then have k: "k < m" and n: "n = nat (m - (k + 1))" by simp_all
  then have ks: "[k..m] = k # [k + 1..m]" by (simp add: upto_rec1)
  let ?r = "post (next_id db) (sub_url sub) p"
  show ?case
  proof (cases "is_ok ?r")
    case True
    then have "ok" "db' = log_attempt db ev (sub_consumer sub) e (sub_url sub) True None k"
      using Suc.prems(2) by (simp_all add: ks Let_def)
    then show ?thesis
      using True k by (auto simp: failing_def outcome_at_def ks attempts_log intro!: bexI [of _ k])
  next
    case False
    let ?db = "log_attempt (db\<lparr>delivery_failures := Suc (delivery_failures db)\<rparr>) ev (sub_consumer sub) e (sub_url sub)
      False (Some (reason_of ?r)) k"
    have rest: "delivery_loop post ev e sub p m persist ?db [k + 1..m] = (ok, db')"
      using Suc.prems(2) False k by (simp add: ks Let_def)
    have out: "post (next_id ?db + nat (j - (k + 1))) (sub_url sub) p = outcome_at post db sub p k j" if "k + 1 \<le> j" for j
    proof -
      have "Suc (nat (j - (k + 1))) = nat (j - k)" using that by simp
      then show ?thesis by (simp add: outcome_at_def flip: add_Suc_right)
    qed
    have tw: "takeWhile (\<lambda>j. \<not> is_ok (post (next_id ?db + nat (j - (k + 1))) (sub_url sub) p)) [k + 1..m]
        = takeWhile (\<lambda>j. \<not> is_ok (outcome_at post db sub p k j)) [k + 1..m]"
      by (rule takeWhile_cong) (use out in auto)
    have fk: "failing post db sub p k m = k # takeWhile (\<lambda>j. \<not> is_ok (outcome_at post db sub p k j)) [k + 1..m]"
      using False by (simp add: failing_def outcome_at_def ks)
    have mp: "map (\<lambda>j. (ev, sub_consumer sub, sub_url sub, j, False,
          Some (reason_of (post (next_id ?db + nat (j - (k + 1))) (sub_url sub) p)))) (takeWhile P [k + 1..m])
        = map (\<lambda>j. (ev, sub_consumer sub, sub_url sub, j, False, Some (reason_of (outcome_at post db sub p k j)))) (takeWhile P [k + 1..m])" for P
      by (rule map_cong [OF refl]) (use out in \<open>auto dest!: set_takeWhileD\<close>)
    have ex: "(\<exists>j \<in> {k + 1..m}. is_ok (post (next_id ?db + nat (j - (k + 1))) (sub_url sub) p))
        \<longleftrightarrow> (\<exists>j \<in> {k..m}. is_ok (outcome_at post db sub p k j))"
    proof -
      have "{k..m} = insert k {k + 1..m}" using k by auto
      moreover have "\<not> is_ok (outcome_at post db sub p k k)" using False by (simp add: outcome_at_def)
      ultimately show ?thesis using out by auto
    qed
    have om: "post (next_id ?db + nat (m - (k + 1))) (sub_url sub) p = outcome_at post db sub p k m" by (rule out) (use k in simp)
    have first: "outcome_at post db sub p k k = ?r" by (simp add: outcome_at_def)
    have "k + 1 \<le> m" using k by simp
    from Suc.hyps(1) [OF n this rest]
    show ?thesis
      unfolding failing_def [of post ?db] outcome_at_def [of post ?db] tw mp ex om
      by (simp add: fk attempts_log first False add.assoc)
  qed
qed

section \<open>Properties\<close>

text \<open>C9: The delivery protocol: an active consumer is sent the payload until the first 2xx answer, at
  most \<open>m\<close> times; the delivery succeeds exactly when some answer is 2xx; every attempt is logged
  with its number and reason; the dead letter queue is touched exactly when all \<open>m\<close> attempts failed
  and it is wanted, and then the row of this event and consumer holds the last reason.\<close>

theorem delivery_protocol:
  assumes "sub_active sub" and "1 \<le> m"
    and "deliver_with_retry post db ev e sub p m persist = (ok, db')"
  shows "(ok \<longleftrightarrow> (\<exists>j \<in> {1..m}. is_ok (outcome_at post db sub p 1 j)))
    \<and> map attempt_view (attempts db') = map attempt_view (attempts db)
        @ map (\<lambda>j. (ev, sub_consumer sub, sub_url sub, j, False, Some (reason_of (outcome_at post db sub p 1 j))))
            (failing post db sub p 1 m)
        @ (if ok then [(ev, sub_consumer sub, sub_url sub, 1 + int (length (failing post db sub p 1 m)), True, None)] else [])
    \<and> (ok \<or> \<not> persist \<longrightarrow> dlq db' = dlq db)
    \<and> (\<not> ok \<and> persist \<longrightarrow>
        (\<exists>x. row_at dlq_key (ev, sub_consumer sub) (dlq db') = Some x
          \<and> dl_reason x = reason_of (outcome_at post db sub p 1 m) \<and> m \<le> dl_count x)
        \<and> (\<forall>q. q \<noteq> (ev, sub_consumer sub) \<longrightarrow> row_at dlq_key q (dlq db') = row_at dlq_key q (dlq db)))"
proof -
  have "delivery_loop post ev e sub p m persist db [1..m] = (ok, db')"
    using assms(1,3) by (simp add: deliver_with_retry_def)
  from delivery_loop_spec [OF assms(2) this] show ?thesis by blast
qed

definition demo_sub :: "bool \<Rightarrow> subscription" where
  "demo_sub active = \<lparr>sub_id = ''s'', sub_consumer = ''c'', sub_endpoint = ''e'', sub_url = ''u'',
     sub_threshold = ''RISKY'', sub_version = None, sub_active = active, sub_created = 0, sub_updated = 0\<rparr>"

lemma delivery_protocol_witness:
  "\<exists>db'. deliver_with_retry (\<lambda>n url p. if n = 0 then Response 500 else Response 200) (empty_rdb 0)
      ''ev'' ''e'' (demo_sub True) JNull 3 True = (True, db') \<and> dlq db' = []"
proof -
  let ?post = "\<lambda>n url p. if n = 0 then Response 500 else Response 200"
  obtain ok db' where d: "deliver_with_retry ?post (empty_rdb 0) ''ev'' ''e'' (demo_sub True) JNull 3 True = (ok, db')"
    by (metis surj_pair)
  have "sub_active (demo_sub True)" by (simp add: demo_sub_def)
  note P = delivery_protocol [OF this _ d]
  have "is_ok (outcome_at ?post (empty_rdb 0) (demo_sub True) JNull 1 2)"
    by (simp add: outcome_at_def empty_rdb_def)
  then have "\<exists>j \<in> {1..3}. is_ok (outcome_at ?post (empty_rdb 0) (demo_sub True) JNull 1 j)"
    by (rule bexI) simp
  with P have "ok" by simp
  moreover have "dlq db' = []" using P \<open>ok\<close> by (simp add: empty_rdb_def)
  ultimately show ?thesis using d by auto
qed

text \<open>Deliveries and replays keep the dead letter queue well formed: one row per event and
  consumer, and the gauge \<open>dlq_size\<close> equal to the number of rows.\<close>

theorem dlq_gauge_counts_rows:
  assumes "dlq_ok db"
  shows "dlq_ok (snd (deliver_with_retry post db ev e sub p m persist))
    \<and> dlq_ok (fst (snd (replay_dlq_entry post db i st)))"
proof
  have d: "dlq_ok (snd (deliver_with_retry post d ev e sub p m persist))" if "dlq_ok d" for d ev e sub p m persist
    using deliver_frame that by (metis prod.collapse)
  then show "dlq_ok (snd (deliver_with_retry post db ev e sub p m persist))" using assms .
  show "dlq_ok (fst (snd (replay_dlq_entry post db i st)))"
    using assms d by (auto simp: replay_dlq_entry_def Let_def case_prod_unfold split: option.split)
qed

lemma dlq_gauge_counts_rows_witness:
  "dlq_ok (snd (deliver_with_retry (\<lambda>n url p. Response 500) (empty_rdb 0) ''ev'' ''e'' (demo_sub True) JNull 1 True))"
  using dlq_gauge_counts_rows [of "empty_rdb 0"] by (simp add: dlq_ok_def empty_rdb_def)

text \<open>C30: A replay of a dead letter whose stored payload is the event \<open>JDict p\<close> sends exactly this
  event, once, to the target of the newest subscription of the consumer, and reports whether the
  answer was 2xx. The row stays in the queue, even after a successful replay.\<close>

theorem replay_sends_stored_event:
  assumes "get_dlq_entry db i = Some x" and "dl_payload x = JDict [(''event'', JDict p), (''failed_at'', t)]"
    and "first_row (sort_desc sub_created (filter (\<lambda>s. sub_endpoint s = dl_endpoint x
           \<and> sub_consumer s = dl_consumer x) (subscriptions db))) = Some sub"
    and "sub_active sub"
    and "api_replay_webhook_dlq post db i st = (res, db', st')"
  shows "(\<exists>artifact. res = Inr artifact \<and> jget artifact ''replayed''
          = Some (JBool (is_ok (post (next_id db) (sub_url sub) (JDict p)))))
    \<and> length (attempts db') = Suc (length (attempts db)) \<and> dlq db' = dlq db \<and> dlq_size db' = dlq_size db"
proof -
  have pl: "replay_payload (dl_payload x) = JDict p"
    by (simp add: assms(2) replay_payload_def jget_or_def)
  show ?thesis
    using assms(5)
    by (cases "is_ok (post (next_id db) (sub_url sub) (JDict p))")
      (auto simp: api_replay_webhook_dlq_def replay_dlq_entry_def assms(1,3,4) pl deliver_with_retry_def Let_def
        jget_or_def log_attempt_def fresh_id_def)
qed

lemma replay_sends_stored_event_witness:
  "\<exists>artifact db' st'. api_replay_webhook_dlq (\<lambda>n url p. Response 200)
      ((empty_rdb 0)\<lparr>subscriptions := [demo_sub True],
        dlq := [\<lparr>dl_id = ''i'', dl_event = ''ev'', dl_consumer = ''c'', dl_endpoint = ''e'', dl_url = ''u'',
          dl_payload = JDict [(''event'', JDict []), (''failed_at'', JStr [])], dl_reason = ''HTTP 500'',
          dl_count = 3, dl_created = 0, dl_last = 0\<rparr>]\<rparr>) ''i'' None = (Inr artifact, db', st')
    \<and> jget artifact ''replayed'' = Some (JBool True) \<and> length (dlq db') = 1"
proof -
  let ?x = "\<lparr>dl_id = ''i'', dl_event = ''ev'', dl_consumer = ''c'', dl_endpoint = ''e'', dl_url = ''u'',
          dl_payload = JDict [(''event'', JDict []), (''failed_at'', JStr [])], dl_reason = ''HTTP 500'',
          dl_count = 3, dl_created = 0, dl_last = 0\<rparr>"
  let ?db = "(empty_rdb 0)\<lparr>subscriptions := [demo_sub True], dlq := [?x]\<rparr>"
  obtain res db' st' where r: "api_replay_webhook_dlq (\<lambda>n url p. Response 200) ?db ''i'' None = (res, db', st')"
    by (metis prod_cases3)
  have g: "get_dlq_entry ?db ''i'' = Some ?x" by (simp add: get_dlq_entry_def row_at_def)
  have f: "first_row (sort_desc sub_created (filter (\<lambda>s. sub_endpoint s = dl_endpoint ?x
           \<and> sub_consumer s = dl_consumer ?x) (subscriptions ?db))) = Some (demo_sub True)"
    by (simp add: demo_sub_def sort_desc_def)
  have pay: "dl_payload ?x = JDict [(''event'', JDict []), (''failed_at'', JStr [])]" by simp
  have act: "sub_active (demo_sub True)" by (simp add: demo_sub_def)
  from replay_sends_stored_event [OF g pay f act r] r show ?thesis by auto
qed

end
