(* ===== verification/Outbox.thy ===== *)
theory Outbox
  imports Webhook
begin

text \<open>
  \<^verbatim>\<open>app/workers/outbox_worker.py\<close>: one poll of the webhook outbox by one worker. An exception in
  the middle of a poll ends it with what was committed before, so an item's result is an optional
  error and the database. \<open>json.loads\<close> of a payload stored as text is a parameter. Two workers
  that poll at once are the subject of the theory \<open>Outbox_Race\<close>.
\<close>

section \<open>Operations\<close>

definition backoff_seconds :: "int \<Rightarrow> nat" where
  "backoff_seconds n = min 60 (2 ^ nat (max 1 n))"

definition set_outbox :: "string \<Rightarrow> (outbox_row \<Rightarrow> outbox_row) \<Rightarrow> rdb \<Rightarrow> rdb" where
  "set_outbox i f db =
     db\<lparr>outbox := update_where (\<lambda>r. ob_id r = i) (\<lambda>r. (f r)\<lparr>ob_updated := now db\<rparr>) (outbox db)\<rparr>"

definition due :: "rdb \<Rightarrow> outbox_row \<Rightarrow> bool" where
  "due db r \<longleftrightarrow> ob_status r = PENDING \<and> ob_next r \<le> now db"

definition fetch_due :: "rdb \<Rightarrow> nat \<Rightarrow> outbox_row list" where
  "fetch_due db batch_size = take batch_size (sort_key ob_created (filter (due db) (outbox db)))"

text \<open>The identifier of the event, drawn afresh when the payload has none, and the body to send.\<close>

definition item_event :: "json \<Rightarrow> rdb \<Rightarrow> string \<times> rdb" where
  "item_event payload db =
     (case jget payload ''event_id'' of
        Some v \<Rightarrow> if truthy v then (py_str v, db) else fresh_id db
      | None \<Rightarrow> fresh_id db)"

definition item_body :: "(string \<Rightarrow> py_error + json) \<Rightarrow> json \<Rightarrow> py_error + json" where
  "item_body json_loads payload =
     (case payload of
        JDict d \<Rightarrow> Inr (JDict d)
      | JStr s \<Rightarrow> json_loads s
      | _ \<Rightarrow> Inl (TypeError ''the JSON object must be str, bytes or bytearray''))"

definition deliver_item ::
  "http_post \<Rightarrow> (string \<Rightarrow> py_error + json) \<Rightarrow> outbox_row \<Rightarrow> rdb \<Rightarrow> py_error option \<times> rdb" where
  "deliver_item post json_loads item db =
     (let db = set_outbox (ob_id item) (\<lambda>r. r\<lparr>ob_status := DELIVERING\<rparr>) db
      in case get_subscription db (ob_sub item) of
           None \<Rightarrow> (None, set_outbox (ob_id item) (\<lambda>r. r\<lparr>ob_status := FAILED\<rparr>) db)
         | Some sub \<Rightarrow>
             (let (event_id, db) = item_event (ob_payload item) db in
              case item_body json_loads (ob_payload item) of
                Inl err \<Rightarrow> (Some err, db)
              | Inr body \<Rightarrow>
                  (let (ok, db) = deliver_with_retry post db event_id (ob_endpoint item) sub body 1 False in
                   if ok then
                     (None, set_outbox (ob_id item)
                        (\<lambda>r. r\<lparr>ob_status := DELIVERED, ob_attempts := ob_attempts r + 1\<rparr>) db)
                   else
                     (let next_attempt = ob_attempts item + 1 in
                      if ob_max item \<le> next_attempt then
                        (None, upsert_dlq
                           (set_outbox (ob_id item)
                             (\<lambda>r. r\<lparr>ob_status := FAILED, ob_attempts := next_attempt\<rparr>) db)
                           event_id (sub_consumer sub) (ob_endpoint item) (sub_url sub)
                           (JDict [(''event'', ob_payload item), (''failed_at'', JStr (isoformat (now db)))])
                           ''outbox max attempts exhausted'' next_attempt)
                      else
                        (None, set_outbox (ob_id item)
                           (\<lambda>r. r\<lparr>ob_status := PENDING, ob_attempts := next_attempt,
                                  ob_next := now db + seconds (backoff_seconds next_attempt)\<rparr>) db)))))"

fun process_items ::
  "http_post \<Rightarrow> (string \<Rightarrow> py_error + json) \<Rightarrow> outbox_row list \<Rightarrow> int \<Rightarrow> rdb \<Rightarrow> py_error option \<times> int \<times> rdb" where
  "process_items post json_loads [] processed db = (None, processed, db)"
| "process_items post json_loads (item # items) processed db =
     (case deliver_item post json_loads item db of
        (Some err, db) \<Rightarrow> (Some err, processed, db)
      | (None, db) \<Rightarrow> process_items post json_loads items (processed + 1) db)"

definition pending_count :: "rdb \<Rightarrow> nat" where
  "pending_count db = length (filter (\<lambda>r. ob_status r = PENDING) (outbox db))"

definition poll_once ::
  "http_post \<Rightarrow> (string \<Rightarrow> py_error + json) \<Rightarrow> nat \<Rightarrow> rdb \<Rightarrow> (py_error + int) \<times> rdb" where
  "poll_once post json_loads batch_size db =
     (case process_items post json_loads (fetch_due db batch_size) 0 db of
        (Some err, _, db) \<Rightarrow> (Inl err, db)
      | (None, processed, db) \<Rightarrow>
          (Inr processed, db\<lparr>outbox_pending_gauge := int (pending_count db)\<rparr>))"

text \<open>
  The worker's loop: the time to sleep after a poll, in microseconds. The time passes between the
  polls; \<open>n\<close> polls are made before the stop event is set.
\<close>

definition worker_sleep :: "nat \<Rightarrow> (py_error + int) \<Rightarrow> nat" where
  "worker_sleep poll_interval res =
     (case res of Inl err \<Rightarrow> 1000000 | Inr processed \<Rightarrow> if processed = 0 then poll_interval else 0)"

fun run_outbox_worker ::
  "http_post \<Rightarrow> (string \<Rightarrow> py_error + json) \<Rightarrow> nat \<Rightarrow> nat \<Rightarrow> rdb \<Rightarrow> rdb" where
  "run_outbox_worker post json_loads poll_interval 0 db = db"
| "run_outbox_worker post json_loads poll_interval (Suc n) db =
     (let (res, db) = poll_once post json_loads 50 db
      in run_outbox_worker post json_loads poll_interval n
           (db\<lparr>now := now db + worker_sleep poll_interval res\<rparr>))"

section \<open>One item\<close>

abbreviation "outbox_ids db \<equiv> map ob_id (outbox db)"

lemma set_outbox_frame [simp]:
  "now (set_outbox i f db) = now db" "subscriptions (set_outbox i f db) = subscriptions db"
  "dlq (set_outbox i f db) = dlq db" "dlq_size (set_outbox i f db) = dlq_size db"
  "attempts (set_outbox i f db) = attempts db" "next_id (set_outbox i f db) = next_id db"
  "versions (set_outbox i f db) = versions db" "endpoints (set_outbox i f db) = endpoints db"
  by (simp_all add: set_outbox_def)

lemma get_subscription_frame [simp]: "get_subscription (set_outbox i f db) s = get_subscription db s"
  by (simp add: get_subscription_def)

lemma item_event_frame:
  assumes "item_event p db = (ev, db')"
  shows "outbox db' = outbox db" "now db' = now db" "subscriptions db' = subscriptions db" "dlq db' = dlq db"
    "dlq_size db' = dlq_size db" "attempts db' = attempts db"
  using assms by (auto simp: item_event_def fresh_id_def split: option.splits if_splits)

text \<open>The row of an identifier, through the table's updates.\<close>

definition outbox_row_at :: "rdb \<Rightarrow> string \<Rightarrow> outbox_row option" where
  "outbox_row_at db i = row_at ob_id i (outbox db)"

lemma row_at_set_outbox:
  assumes "\<And>r. ob_id (f r) = ob_id r"
  shows "outbox_row_at (set_outbox j f db) i =
    map_option (\<lambda>r. if ob_id r = j then (f r)\<lparr>ob_updated := now db\<rparr> else r) (outbox_row_at db i)"
  unfolding outbox_row_at_def set_outbox_def
  using row_at_update_where [of ob_id "\<lambda>r. (f r)\<lparr>ob_updated := now db\<rparr>" i j] assms by simp

lemma outbox_row_at_id: "outbox_row_at db i = Some r \<Longrightarrow> ob_id r = i"
  unfolding outbox_row_at_def by (rule row_at_SomeD [THEN conjunct2])

lemma ids_set_outbox [simp]: "(\<And>r. ob_id (f r) = ob_id r) \<Longrightarrow> outbox_ids (set_outbox i f db) = outbox_ids db"
  by (simp add: set_outbox_def map_update_where)

lemma row_at_other:
  assumes "\<And>r. ob_id (f r) = ob_id r" "i \<noteq> j"
  shows "outbox_row_at (set_outbox j f db) i = outbox_row_at db i"
  using assms outbox_row_at_id [of db i]
  by (cases "outbox_row_at db i") (simp_all add: row_at_set_outbox)

lemma row_at_own:
  assumes "\<And>r. ob_id (f r) = ob_id r"
  shows "outbox_row_at (set_outbox i f db) i = map_option (\<lambda>r. (f r)\<lparr>ob_updated := now db\<rparr>) (outbox_row_at db i)"
  using assms outbox_row_at_id [of db i]
  by (cases "outbox_row_at db i") (simp_all add: row_at_set_outbox)

text \<open>The new state of the row of a delivered item, by what happens.\<close>

datatype item_result = NoSubscription | Unreadable | Sent | Retry | Exhausted

definition item_result :: "http_post \<Rightarrow> (string \<Rightarrow> py_error + json) \<Rightarrow> outbox_row \<Rightarrow> rdb \<Rightarrow> item_result" where
  "item_result post json_loads item db =
     (case get_subscription db (ob_sub item) of
        None \<Rightarrow> NoSubscription
      | Some sub \<Rightarrow>
          (case item_body json_loads (ob_payload item) of
             Inl err \<Rightarrow> Unreadable
           | Inr body \<Rightarrow>
               if sub_active sub \<and>
                  is_ok (post (next_id (snd (item_event (ob_payload item) db))) (sub_url sub) body)
               then Sent
               else if ob_max item \<le> ob_attempts item + 1 then Exhausted else Retry))"

definition row_after :: "item_result \<Rightarrow> moment \<Rightarrow> outbox_row \<Rightarrow> outbox_row" where
  "row_after res t r =
     (case res of
        NoSubscription \<Rightarrow> r\<lparr>ob_status := FAILED, ob_updated := t\<rparr>
      | Unreadable \<Rightarrow> r\<lparr>ob_status := DELIVERING, ob_updated := t\<rparr>
      | Sent \<Rightarrow> r\<lparr>ob_status := DELIVERED, ob_attempts := ob_attempts r + 1, ob_updated := t\<rparr>
      | Exhausted \<Rightarrow> r\<lparr>ob_status := FAILED, ob_attempts := ob_attempts r + 1, ob_updated := t\<rparr>
      | Retry \<Rightarrow> r\<lparr>ob_status := PENDING, ob_attempts := ob_attempts r + 1,
                   ob_next := t + seconds (backoff_seconds (ob_attempts r + 1)), ob_updated := t\<rparr>)"

lemma deliver_once:
  "fst (deliver_with_retry post db ev e sub body 1 False) \<longleftrightarrow>
     sub_active sub \<and> is_ok (post (next_id db) (sub_url sub) body)"
  by (simp add: deliver_with_retry_def Let_def)

lemma item_event_next: "next_id (snd (item_event p (set_outbox i f db))) = next_id (snd (item_event p db))"
  by (simp add: item_event_def fresh_id_def split: option.split)

text \<open>An item changes the row of its own id, as its result says, and no other row.\<close>

lemma deliver_item_row:
  assumes "outbox_row_at db (ob_id item) = Some item"
    and "deliver_item post json_loads item db = (err, db')"
  shows "outbox_row_at db' (ob_id item) = Some (row_after (item_result post json_loads item db) (now db) item)"
    and "i \<noteq> ob_id item \<Longrightarrow> outbox_row_at db' i = outbox_row_at db i"
    and "err = None \<longleftrightarrow> item_result post json_loads item db \<noteq> Unreadable"
    and "now db' = now db" "outbox_ids db' = outbox_ids db"
proof -
  define res where "res = item_result post json_loads item db"
  let ?db1 = "set_outbox (ob_id item) (\<lambda>r. r\<lparr>ob_status := DELIVERING\<rparr>) db"
  have "outbox_row_at db' (ob_id item) = Some (row_after res (now db) item)
    \<and> (i \<noteq> ob_id item \<longrightarrow> outbox_row_at db' i = outbox_row_at db i)
    \<and> (err = None \<longleftrightarrow> res \<noteq> Unreadable) \<and> now db' = now db \<and> outbox_ids db' = outbox_ids db"
  proof (cases "get_subscription db (ob_sub item)")
    case None
    then have "res = NoSubscription" by (simp add: res_def item_result_def)
    moreover have "(err, db') = (None, set_outbox (ob_id item) (\<lambda>r. r\<lparr>ob_status := FAILED\<rparr>) ?db1)"
      using assms(2) None by (simp add: deliver_item_def Let_def)
    ultimately show ?thesis
      by (simp add: row_at_own assms(1) row_at_other row_after_def)
  next
    case (Some sub)
    obtain ev db2 where ev: "item_event (ob_payload item) ?db1 = (ev, db2)" by (cases "item_event (ob_payload item) ?db1")
    have n2: "next_id db2 = next_id (snd (item_event (ob_payload item) db))"
      using item_event_next ev by (metis snd_conv)
    have f2: "outbox db2 = outbox ?db1" "now db2 = now db" using item_event_frame [OF ev] by simp_all
    show ?thesis
    proof (cases "item_body json_loads (ob_payload item)")
      case (Inl x)
      then have "res = Unreadable" by (simp add: res_def item_result_def Some)
      moreover have "(err, db') = (Some x, db2)"
        using assms(2) Some Inl by (simp add: deliver_item_def Let_def ev)
      moreover have "outbox_row_at db2 j = outbox_row_at ?db1 j" for j
        unfolding outbox_row_at_def f2 ..
      ultimately show ?thesis
        by (simp add: row_at_own assms(1) row_at_other row_after_def f2)
    next
      case (Inr body)
      obtain ok db3 where d: "deliver_with_retry post db2 ev (ob_endpoint item) sub body 1 False = (ok, db3)"
        by (metis surj_pair)
      have f3: "outbox db3 = outbox ?db1" "now db3 = now db" using deliver_frame [OF d] f2 by simp_all
      have ok: "ok \<longleftrightarrow> sub_active sub \<and> is_ok (post (next_id db2) (sub_url sub) body)"
        using deliver_once [of post db2] d by (metis fst_conv)
      have row3: "outbox_row_at db3 j = outbox_row_at ?db1 j" for j by (simp add: outbox_row_at_def f3)
      have ids3: "outbox_ids db3 = outbox_ids db" by (simp add: f3 set_outbox_def map_update_where)
      have dlqrow: "outbox_row_at (upsert_dlq x a b c d y z w) j = outbox_row_at x j" for x a b c d y z w j
        by (simp add: outbox_row_at_def)
      show ?thesis
      proof (cases ok)
        case True
        then have "res = Sent" using ok n2 by (simp add: res_def item_result_def Some Inr)
        moreover have "(err, db') = (None, set_outbox (ob_id item)
            (\<lambda>r. r\<lparr>ob_status := DELIVERED, ob_attempts := ob_attempts r + 1\<rparr>) db3)"
          using assms(2) Some Inr True by (simp add: deliver_item_def Let_def ev d)
        ultimately show ?thesis
          by (simp add: row_at_own row3 assms(1) row_at_other row_after_def f3 ids3)
      next
        case nok: False
        show ?thesis
        proof (cases "ob_max item \<le> ob_attempts item + 1")
          case True
          then have "res = Exhausted" using ok n2 nok by (auto simp: res_def item_result_def Some Inr)
          moreover have "(err, db') = (None, upsert_dlq
              (set_outbox (ob_id item) (\<lambda>r. r\<lparr>ob_status := FAILED, ob_attempts := ob_attempts item + 1\<rparr>) db3)
              ev (sub_consumer sub) (ob_endpoint item) (sub_url sub)
              (JDict [(''event'', ob_payload item), (''failed_at'', JStr (isoformat (now db3)))])
              ''outbox max attempts exhausted'' (ob_attempts item + 1))"
            using assms(2) Some Inr nok True by (simp add: deliver_item_def Let_def ev d)
          ultimately show ?thesis
            by (simp add: row_at_own row3 assms(1) row_at_other row_after_def f3 ids3 dlqrow)
        next
          case False
          then have "res = Retry" using ok n2 nok by (auto simp: res_def item_result_def Some Inr)
          moreover have "(err, db') = (None, set_outbox (ob_id item)
              (\<lambda>r. r\<lparr>ob_status := PENDING, ob_attempts := ob_attempts item + 1,
                ob_next := now db3 + seconds (backoff_seconds (ob_attempts item + 1))\<rparr>) db3)"
            using assms(2) Some Inr nok False by (simp add: deliver_item_def Let_def ev d)
          ultimately show ?thesis
            by (simp add: row_at_own row3 assms(1) row_at_other row_after_def f3 ids3)
        qed
      qed
    qed
  qed
  then show "outbox_row_at db' (ob_id item) = Some (row_after (item_result post json_loads item db) (now db) item)"
    and "i \<noteq> ob_id item \<Longrightarrow> outbox_row_at db' i = outbox_row_at db i"
    and "err = None \<longleftrightarrow> item_result post json_loads item db \<noteq> Unreadable"
    and "now db' = now db" "outbox_ids db' = outbox_ids db"
    by (simp_all add: res_def)
qed

lemma row_after_id [simp]: "ob_id (row_after res t r) = ob_id r"
  by (cases res) (simp_all add: row_after_def)

text \<open>The dead letter of an exhausted item.\<close>

lemma deliver_item_dlq:
  assumes "deliver_item post json_loads item db = (err, db')"
  shows "(dlq_ok db \<longrightarrow> dlq_ok db')
    \<and> (item_result post json_loads item db = Exhausted \<longrightarrow>
        (\<exists>ev sub x. get_subscription db (ob_sub item) = Some sub
          \<and> row_at dlq_key (ev, sub_consumer sub) (dlq db') = Some x
          \<and> dl_reason x = ''outbox max attempts exhausted'' \<and> ob_attempts item + 1 \<le> dl_count x))"
proof (cases "get_subscription db (ob_sub item)")
  case None
  then show ?thesis
    using assms by (auto simp: deliver_item_def Let_def item_result_def dlq_ok_def)
next
  case (Some sub)
  let ?db1 = "set_outbox (ob_id item) (\<lambda>r. r\<lparr>ob_status := DELIVERING\<rparr>) db"
  obtain ev db2 where ev: "item_event (ob_payload item) ?db1 = (ev, db2)" by (cases "item_event (ob_payload item) ?db1")
  have n2: "next_id db2 = next_id (snd (item_event (ob_payload item) db))"
    using item_event_next ev by (metis snd_conv)
  have ok2: "dlq_ok db \<longrightarrow> dlq_ok db2" using item_event_frame [OF ev] by (simp add: dlq_ok_def)
  show ?thesis
  proof (cases "item_body json_loads (ob_payload item)")
    case (Inl x)
    then show ?thesis
      using assms Some ok2 by (auto simp: deliver_item_def Let_def ev item_result_def)
  next
    case (Inr body)
    obtain ok db3 where d: "deliver_with_retry post db2 ev (ob_endpoint item) sub body 1 False = (ok, db3)"
      by (metis surj_pair)
    have ok: "ok \<longleftrightarrow> sub_active sub \<and> is_ok (post (next_id db2) (sub_url sub) body)"
      using deliver_once [of post db2] d by (metis fst_conv)
    have ok3: "dlq_ok db \<longrightarrow> dlq_ok db3" using deliver_frame [OF d] ok2 by blast
    have set_ok: "dlq_ok (set_outbox i f x) = dlq_ok x" for i f x by (simp add: dlq_ok_def)
    show ?thesis
    proof (cases "\<not> ok \<and> ob_max item \<le> ob_attempts item + 1")
      case True
      then have "db' = upsert_dlq
              (set_outbox (ob_id item) (\<lambda>r. r\<lparr>ob_status := FAILED, ob_attempts := ob_attempts item + 1\<rparr>) db3)
              ev (sub_consumer sub) (ob_endpoint item) (sub_url sub)
              (JDict [(''event'', ob_payload item), (''failed_at'', JStr (isoformat (now db3)))])
              ''outbox max attempts exhausted'' (ob_attempts item + 1)"
        using assms Some Inr by (simp add: deliver_item_def Let_def ev d)
      then show ?thesis
        using ok3 upsert_dlq_ok set_ok upsert_dlq_row Some by metis
    next
      case False
      then have "item_result post json_loads item db \<noteq> Exhausted"
        using ok n2 by (auto simp: item_result_def Some Inr)
      moreover have "dlq_ok db \<longrightarrow> dlq_ok db'"
        using assms Some Inr False ok3 set_ok by (auto simp: deliver_item_def Let_def ev d split: if_splits)
      ultimately show ?thesis by simp
    qed
  qed
qed

section \<open>A poll\<close>

lemma item_result_Retry:
  "item_result post json_loads item db = Retry \<Longrightarrow> ob_attempts item + 1 < ob_max item"
  by (auto simp: item_result_def split: option.splits sum.splits if_splits)

lemma process_items_rows:
  assumes "distinct (map ob_id items)" and "\<And>it. it \<in> set items \<Longrightarrow> outbox_row_at db (ob_id it) = Some it"
    and "process_items post json_loads items n db = (err, k, db')"
  shows "now db' = now db \<and> outbox_ids db' = outbox_ids db \<and> (dlq_ok db \<longrightarrow> dlq_ok db')
    \<and> (err = None \<longrightarrow> k = n + int (length items))
    \<and> (\<forall>i. i \<notin> ob_id ` set items \<longrightarrow> outbox_row_at db' i = outbox_row_at db i)
    \<and> (\<forall>it \<in> set items. (err \<noteq> None \<and> outbox_row_at db' (ob_id it) = Some it)
        \<or> (\<exists>res. outbox_row_at db' (ob_id it) = Some (row_after res (now db) it)
              \<and> (err = None \<longrightarrow> res \<noteq> Unreadable)
              \<and> (res = Retry \<longrightarrow> ob_attempts it + 1 < ob_max it)))"
  using assms
proof (induction items arbitrary: n db)
  case (Cons it items)
  obtain e db1 where d: "deliver_item post json_loads it db = (e, db1)" by (metis surj_pair)
  have own: "outbox_row_at db (ob_id it) = Some it" using Cons.prems(2) by simp
  note D = deliver_item_row [OF own d] deliver_item_dlq [OF d]
  note retry = item_result_Retry [of post json_loads it db]
  show ?case
  proof (cases e)
    case None
    have rows1: "outbox_row_at db1 (ob_id x) = Some x" if "x \<in> set items" for x
    proof -
      have "ob_id x \<noteq> ob_id it" using Cons.prems(1) that by (metis distinct.simps(2) image_eqI list.simps(9) set_map)
      then show ?thesis using D(2) Cons.prems(2) that by simp
    qed
    have "process_items post json_loads items (n + 1) db1 = (err, k, db')"
      using Cons.prems(3) by (simp add: d None)
    from Cons.IH [OF _ rows1 this] Cons.prems(1)
    have IH: "now db' = now db1 \<and> outbox_ids db' = outbox_ids db1 \<and> (dlq_ok db1 \<longrightarrow> dlq_ok db')
      \<and> (err = None \<longrightarrow> k = n + 1 + int (length items))
      \<and> (\<forall>i. i \<notin> ob_id ` set items \<longrightarrow> outbox_row_at db' i = outbox_row_at db1 i)
      \<and> (\<forall>it \<in> set items. (err \<noteq> None \<and> outbox_row_at db' (ob_id it) = Some it)
        \<or> (\<exists>res. outbox_row_at db' (ob_id it) = Some (row_after res (now db1) it)
              \<and> (err = None \<longrightarrow> res \<noteq> Unreadable)
              \<and> (res = Retry \<longrightarrow> ob_attempts it + 1 < ob_max it)))"
      by auto
    have "ob_id it \<notin> ob_id ` set items" using Cons.prems(1) by simp
    then have "outbox_row_at db' (ob_id it) = Some (row_after (item_result post json_loads it db) (now db) it)"
      using IH D(1) by simp
    moreover have "item_result post json_loads it db \<noteq> Unreadable" using D(3) None by simp
    ultimately show ?thesis
      using IH D(2,4,5,6) retry by (auto 0 4)
  next
    case (Some x)
    then have "err = Some x" "db' = db1" using Cons.prems(3) by (simp_all add: d)
    moreover have "outbox_row_at db1 (ob_id y) = Some y" if "y \<in> set items" for y
    proof -
      have "ob_id y \<noteq> ob_id it" using Cons.prems(1) that by (metis distinct.simps(2) image_eqI list.simps(9) set_map)
      then show ?thesis using D(2) Cons.prems(2) that by simp
    qed
    ultimately show ?thesis using D retry by auto
  qed
qed simp

lemma fetch_due_rows:
  assumes "distinct (outbox_ids db)"
  shows "distinct (map ob_id (fetch_due db b))"
    and "it \<in> set (fetch_due db b) \<Longrightarrow> outbox_row_at db (ob_id it) = Some it \<and> due db it"
    and "length (fetch_due db b) = min b (length (filter (due db) (outbox db)))"
proof -
  have m: "mset (sort_key ob_created (filter (due db) (outbox db))) = mset (filter (due db) (outbox db))" by simp
  then have "distinct (map ob_id (sort_key ob_created (filter (due db) (outbox db))))"
    using assms by (metis distinct_map_filter mset_eq_imp_distinct_iff mset_map)
  then show "distinct (map ob_id (fetch_due db b))"
    unfolding fetch_due_def take_map [symmetric] by (rule distinct_take)
  show "outbox_row_at db (ob_id it) = Some it \<and> due db it" if "it \<in> set (fetch_due db b)"
  proof -
    have "it \<in> set (sort_key ob_created (filter (due db) (outbox db)))"
      using that unfolding fetch_due_def by (rule in_set_takeD)
    then have "it \<in> set (outbox db)" "due db it" by simp_all
    then show ?thesis using row_at_Some [OF assms] by (simp add: outbox_row_at_def)
  qed
  show "length (fetch_due db b) = min b (length (filter (due db) (outbox db)))"
    by (simp add: fetch_due_def min.commute)
qed

text \<open>What one poll does to every row of the outbox.\<close>

lemma poll_rows:
  assumes "distinct (outbox_ids db)" and "poll_once post json_loads b db = (res, db')"
  shows "now db' = now db \<and> outbox_ids db' = outbox_ids db \<and> (dlq_ok db \<longrightarrow> dlq_ok db')
    \<and> (\<forall>i. i \<notin> ob_id ` set (fetch_due db b) \<longrightarrow> outbox_row_at db' i = outbox_row_at db i)
    \<and> (\<forall>it \<in> set (fetch_due db b). (\<exists>e. res = Inl e) \<and> outbox_row_at db' (ob_id it) = Some it
        \<or> (\<exists>x. outbox_row_at db' (ob_id it) = Some (row_after x (now db) it)
              \<and> ((\<exists>k. res = Inr k) \<longrightarrow> x \<noteq> Unreadable)
              \<and> (x = Retry \<longrightarrow> ob_attempts it + 1 < ob_max it)))
    \<and> (\<forall>k. res = Inr k \<longrightarrow> k = int (min b (length (filter (due db) (outbox db))))
        \<and> outbox_pending_gauge db' = int (pending_count db'))"
proof -
  obtain err k db1 where p: "process_items post json_loads (fetch_due db b) 0 db = (err, k, db1)"
    by (metis prod_cases3)
  note F = fetch_due_rows [OF assms(1)]
  have R: "now db1 = now db \<and> outbox_ids db1 = outbox_ids db \<and> (dlq_ok db \<longrightarrow> dlq_ok db1)
    \<and> (err = None \<longrightarrow> k = 0 + int (length (fetch_due db b)))
    \<and> (\<forall>i. i \<notin> ob_id ` set (fetch_due db b) \<longrightarrow> outbox_row_at db1 i = outbox_row_at db i)
    \<and> (\<forall>it \<in> set (fetch_due db b). (err \<noteq> None \<and> outbox_row_at db1 (ob_id it) = Some it)
        \<or> (\<exists>res. outbox_row_at db1 (ob_id it) = Some (row_after res (now db) it)
              \<and> (err = None \<longrightarrow> res \<noteq> Unreadable)
              \<and> (res = Retry \<longrightarrow> ob_attempts it + 1 < ob_max it)))"
    by (rule process_items_rows [OF F(1) _ p]) (use F(2) in blast)
  show ?thesis
  proof (cases err)
    case None
    then have res: "res = Inr k" and db': "db' = db1\<lparr>outbox_pending_gauge := int (pending_count db1)\<rparr>"
      using assms(2) p by (simp_all add: poll_once_def)
    have same: "outbox_row_at db' i = outbox_row_at db1 i" for i by (simp add: db' outbox_row_at_def)
    show ?thesis
      using R None F(3) [of b] by (simp add: same res) (auto simp: db' dlq_ok_def pending_count_def)
  next
    case (Some e)
    then have "res = Inl e" "db' = db1" using assms(2) p by (simp_all add: poll_once_def)
    then show ?thesis using R Some by auto
  qed
qed

section \<open>Properties\<close>


definition demo_row :: outbox_row where
  "demo_row = \<lparr>ob_id = ''o'', ob_sub = ''s'', ob_endpoint = ''e'', ob_payload = JDict [(''event_id'', JStr ''ev'')],
     ob_status = PENDING, ob_attempts = 0, ob_max = 5, ob_next = 0, ob_created = 0, ob_updated = 0\<rparr>"

definition demo_outbox :: rdb where
  "demo_outbox = (empty_rdb 0)\<lparr>subscriptions := [demo_sub True], outbox := [demo_row]\<rparr>"

lemma demo_poll: "\<exists>db'. poll_once (\<lambda>n url p. Response 503) (\<lambda>s. Inr JNull) 50 demo_outbox = (Inr 1, db')"
  by (simp add: poll_once_def fetch_due_def demo_outbox_def demo_row_def due_def empty_rdb_def deliver_item_def
      get_subscription_def demo_sub_def item_event_def item_body_def deliver_with_retry_def Let_def set_outbox_def
      update_where_def log_attempt_def fresh_id_def)


text \<open>The bounds on the attempts of each row.\<close>

definition row_bounded :: "outbox_row \<Rightarrow> bool" where
  "row_bounded r \<longleftrightarrow> 0 \<le> ob_attempts r \<and> ob_attempts r \<le> ob_max r
     \<and> (ob_status r = PENDING \<longrightarrow> ob_attempts r < ob_max r)"

definition outbox_ok :: "rdb \<Rightarrow> bool" where
  "outbox_ok db \<longleftrightarrow> distinct (outbox_ids db) \<and> list_all row_bounded (outbox db)"

lemma outbox_ok_iff:
  "outbox_ok db \<longleftrightarrow> distinct (outbox_ids db) \<and> (\<forall>i r. outbox_row_at db i = Some r \<longrightarrow> row_bounded r)"
  unfolding outbox_ok_def outbox_row_at_def list_all_iff
  using row_at_SomeD [of ob_id _ "outbox db"] row_at_Some [of ob_id "outbox db"] by blast

lemma poll_keeps_ok:
  assumes ok: "outbox_ok db" and p: "poll_once post json_loads b db = (res, db')"
  shows "outbox_ok db'"
proof -
  have d: "distinct (outbox_ids db)" and bounded: "\<And>i r. outbox_row_at db i = Some r \<Longrightarrow> row_bounded r"
    using ok by (auto simp: outbox_ok_iff)
  note P = poll_rows [OF d p]
  have "row_bounded r" if r: "outbox_row_at db' i = Some r" for i r
  proof (cases "i \<in> ob_id ` set (fetch_due db b)")
    case False
    then show ?thesis using P r bounded by metis
  next
    case True
    then obtain it where it: "it \<in> set (fetch_due db b)" "i = ob_id it" by blast
    from fetch_due_rows(2) [OF d it(1)] have b: "row_bounded it" "due db it" using bounded by blast+
    from P it(1) consider "outbox_row_at db' (ob_id it) = Some it"
      | x where "outbox_row_at db' (ob_id it) = Some (row_after x (now db) it)"
        "x = Retry \<longrightarrow> ob_attempts it + 1 < ob_max it" by blast
    then show ?thesis
    proof cases
      case 1
      then show ?thesis using r b it(2) by simp
    next
      case (2 x)
      then show ?thesis
        using r b it(2) by (cases x) (auto simp: row_bounded_def row_after_def due_def)
    qed
  qed
  then show ?thesis using P d by (simp add: outbox_ok_iff)
qed

text \<open>Retries are bounded: when every row has between 0 and \<open>max_attempts\<close> attempts and a pending
  one less than that, this still holds after any number of polls, with any answers of the
  consumers; so no row is sent more than \<open>max_attempts\<close> times.\<close>

theorem retries_are_bounded:
  assumes "outbox_ok db"
  shows "outbox_ok (run_outbox_worker post json_loads t n db)"
  using assms
proof (induction n arbitrary: db)
  case (Suc n)
  obtain res db1 where p: "poll_once post json_loads 50 db = (res, db1)" by (metis surj_pair)
  have "outbox_ok (db1\<lparr>now := now db1 + worker_sleep t res\<rparr>)"
    using poll_keeps_ok [OF Suc.prems p] by (simp add: outbox_ok_def)
  then show ?case using Suc.IH by (simp add: p)
qed simp

lemma retries_are_bounded_witness:
  "outbox_ok (run_outbox_worker (\<lambda>n url p. Response 503) (\<lambda>s. Inr JNull) 250000 7 demo_outbox)"
  by (rule retries_are_bounded) (simp add: outbox_ok_def row_bounded_def demo_outbox_def demo_row_def)

text \<open>A row left in DELIVERING, as by a worker that stopped between its two commits or by a
  payload that cannot be read, is never picked up again: however many polls follow, it stays as it
  is and is neither delivered nor dead-lettered.\<close>

theorem delivering_row_is_stuck:
  assumes "distinct (outbox_ids db)" and "outbox_row_at db i = Some r" and "ob_status r = DELIVERING"
  shows "outbox_row_at (run_outbox_worker post json_loads t n db) i = Some r"
  using assms(1,2)
proof (induction n arbitrary: db)
  case (Suc n)
  obtain res db1 where p: "poll_once post json_loads 50 db = (res, db1)" by (metis surj_pair)
  note P = poll_rows [OF Suc.prems(1) p]
  have "i \<notin> ob_id ` set (fetch_due db 50)"
  proof
    assume "i \<in> ob_id ` set (fetch_due db 50)"
    then obtain it where "it \<in> set (fetch_due db 50)" "i = ob_id it" by blast
    with fetch_due_rows(2) [OF Suc.prems(1)] Suc.prems(2) have "due db r" by force
    then show False using assms(3) by (simp add: due_def)
  qed
  then have "outbox_row_at db1 i = Some r" using P Suc.prems(2) by metis
  then have "outbox_row_at (db1\<lparr>now := now db1 + worker_sleep t res\<rparr>) i = Some r"
    by (simp add: outbox_row_at_def)
  moreover have "distinct (outbox_ids (db1\<lparr>now := now db1 + worker_sleep t res\<rparr>))"
    using P Suc.prems(1) by simp
  ultimately show ?case using Suc.IH by (simp add: p)
qed simp

lemma delivering_row_is_stuck_witness:
  "outbox_row_at (run_outbox_worker (\<lambda>n url p. Response 200) (\<lambda>s. Inr JNull) 250000 9
      ((empty_rdb 0)\<lparr>outbox := [demo_row\<lparr>ob_status := DELIVERING\<rparr>]\<rparr>)) ''o''
    = Some (demo_row\<lparr>ob_status := DELIVERING\<rparr>)"
  by (rule delivering_row_is_stuck) (simp_all add: outbox_row_at_def row_at_def demo_row_def)

text \<open>The delay before attempt \<open>n + 1\<close> doubles with each failed attempt from 2 seconds and is
  capped at 60 seconds: it is at least 2 and at most 60, never decreases with \<open>n\<close>, is \<open>2 ^ n\<close> for 1
  to 5 and 60 from 6 on.\<close>

theorem backoff_bounds:
  "2 \<le> backoff_seconds n \<and> backoff_seconds n \<le> 60
    \<and> (n \<le> m \<longrightarrow> backoff_seconds n \<le> backoff_seconds m)
    \<and> (1 \<le> n \<and> n \<le> 5 \<longrightarrow> backoff_seconds n = 2 ^ nat n) \<and> (6 \<le> n \<longrightarrow> backoff_seconds n = 60)"
proof -
  have mono: "(2::nat) ^ nat (max 1 n) \<le> 2 ^ nat (max 1 m)" if "n \<le> m" for n m :: int
    by (rule power_increasing) (use that in auto)
  have "(2::nat) ^ 1 \<le> 2 ^ nat (max 1 n)" by (rule power_increasing) auto
  moreover have "backoff_seconds n = 2 ^ nat n" if "1 \<le> n" "n \<le> 5"
    using mono [of n 5] that by (simp add: backoff_seconds_def max_absorb2)
  moreover have "backoff_seconds n = 60" if "6 \<le> n"
    using mono [of 6 n] that by (simp add: backoff_seconds_def)
  moreover have "backoff_seconds n \<le> backoff_seconds m" if "n \<le> m"
    unfolding backoff_seconds_def by (rule min.mono [OF order_refl mono [OF that]])
  ultimately show ?thesis by (auto simp: backoff_seconds_def)
qed

lemma backoff_bounds_witness: "backoff_seconds 3 = 8 \<and> backoff_seconds 9 = 60"
  using backoff_bounds [of 3 9] backoff_bounds [of 9 9] by simp

text \<open>No delivery is lost silently: an item whose last allowed attempt failed is marked FAILED and
  at the same time has a dead letter for its consumer that says so.\<close>

theorem exhausted_item_is_dead_lettered:
  assumes "outbox_row_at db (ob_id item) = Some item"
    and "item_result post json_loads item db = Exhausted"
    and "deliver_item post json_loads item db = (err, db')"
  shows "err = None \<and> (\<exists>r. outbox_row_at db' (ob_id item) = Some r \<and> ob_status r = FAILED
      \<and> ob_attempts r = ob_attempts item + 1)
    \<and> (\<exists>ev sub x. get_subscription db (ob_sub item) = Some sub
        \<and> row_at dlq_key (ev, sub_consumer sub) (dlq db') = Some x
        \<and> dl_reason x = ''outbox max attempts exhausted'' \<and> ob_attempts item + 1 \<le> dl_count x)"
  using deliver_item_row [OF assms(1,3)] deliver_item_dlq [OF assms(3)] assms(2)
  by (simp add: row_after_def)

lemma exhausted_item_is_dead_lettered_witness:
  "\<exists>db' x. deliver_item (\<lambda>n url p. Response 503) (\<lambda>s. Inr JNull) (demo_row\<lparr>ob_attempts := 4\<rparr>)
      (demo_outbox\<lparr>outbox := [demo_row\<lparr>ob_attempts := 4\<rparr>]\<rparr>) = (None, db') \<and> x \<in> set (dlq db')"
proof -
  let ?it = "demo_row\<lparr>ob_attempts := 4\<rparr>" and ?db = "demo_outbox\<lparr>outbox := [demo_row\<lparr>ob_attempts := 4\<rparr>]\<rparr>"
  obtain err db' where d: "deliver_item (\<lambda>n url p. Response 503) (\<lambda>s. Inr JNull) ?it ?db = (err, db')"
    by (metis surj_pair)
  have "outbox_row_at ?db (ob_id ?it) = Some ?it" by (simp add: outbox_row_at_def row_at_def)
  moreover have "item_result (\<lambda>n url p. Response 503) (\<lambda>s. Inr JNull) ?it ?db = Exhausted"
    by (simp add: item_result_def get_subscription_def demo_outbox_def demo_row_def demo_sub_def item_body_def)
  ultimately have "err = None" "\<exists>k x. row_at dlq_key k (dlq db') = Some x"
    using exhausted_item_is_dead_lettered [OF _ _ d] by blast+
  then show ?thesis using d row_at_SomeD by metis
qed

end
