(* ===== verification/Outbox_Race.thy ===== *)
theory Outbox_Race
  imports Outbox
begin

text \<open>
  Several outbox workers at once (\<^verbatim>\<open>app/workers/outbox_worker.py\<close>, one per process). A poll selects
  its batch \<open>FOR UPDATE SKIP LOCKED\<close>: the rows are locked until the worker's transaction ends, and
  the worker commits after it marked the first row. The rows \<open>rows\<close> are all due, in the order of
  creation; \<open>b\<close> is the batch size; the subscriptions exist. An update of a row waits while another
  worker has it locked.
\<close>

section \<open>Steps\<close>

record race =
  status_of :: "string \<Rightarrow> outbox_status"
  lock_of :: "string \<Rightarrow> nat option"
  plan_of :: "nat \<Rightarrow> string list"
  busy_with :: "nat \<Rightarrow> string option"
  times_delivered :: "string \<Rightarrow> nat"

definition race_start :: race where
  "race_start = \<lparr>status_of = (\<lambda>i. PENDING), lock_of = (\<lambda>i. None), plan_of = (\<lambda>w. []),
     busy_with = (\<lambda>w. None), times_delivered = (\<lambda>i. 0)\<rparr>"

definition free_for :: "race \<Rightarrow> nat \<Rightarrow> string \<Rightarrow> bool" where
  "free_for s w i \<longleftrightarrow> lock_of s i = None \<or> lock_of s i = Some w"

definition selectable :: "race \<Rightarrow> string list \<Rightarrow> nat \<Rightarrow> string list" where
  "selectable s rows b = take b (filter (\<lambda>i. status_of s i = PENDING \<and> lock_of s i = None) rows)"

definition lock_all :: "nat \<Rightarrow> string list \<Rightarrow> race \<Rightarrow> race" where
  "lock_all w xs s = s\<lparr>lock_of := (\<lambda>i. if i \<in> set xs then Some w else lock_of s i)\<rparr>"

definition release_all :: "nat \<Rightarrow> race \<Rightarrow> race" where
  "release_all w s = s\<lparr>lock_of := (\<lambda>i. if lock_of s i = Some w then None else lock_of s i)\<rparr>"

definition set_status :: "string \<Rightarrow> outbox_status \<Rightarrow> race \<Rightarrow> race" where
  "set_status i st s = s\<lparr>status_of := (status_of s)(i := st)\<rparr>"

inductive race_step :: "string list \<Rightarrow> nat \<Rightarrow> race \<Rightarrow> race \<Rightarrow> bool" for rows b where
  fetch: "plan_of s w = [] \<Longrightarrow> busy_with s w = None \<Longrightarrow> xs = selectable s rows b \<Longrightarrow>
    race_step rows b s (lock_all w xs (s\<lparr>plan_of := (plan_of s)(w := xs)\<rparr>))"
| mark: "plan_of s w = i # rest \<Longrightarrow> busy_with s w = None \<Longrightarrow> free_for s w i \<Longrightarrow>
    race_step rows b s (release_all w (set_status i DELIVERING
      (s\<lparr>plan_of := (plan_of s)(w := rest), busy_with := (busy_with s)(w := Some i)\<rparr>)))"
| success: "busy_with s w = Some i \<Longrightarrow> free_for s w i \<Longrightarrow>
    race_step rows b s (set_status i DELIVERED
      (s\<lparr>busy_with := (busy_with s)(w := None),
         times_delivered := (times_delivered s)(i := Suc (times_delivered s i))\<rparr>))"
| failure: "busy_with s w = Some i \<Longrightarrow> free_for s w i \<Longrightarrow> st = PENDING \<or> st = FAILED \<Longrightarrow>
    race_step rows b s (set_status i st (s\<lparr>busy_with := (busy_with s)(w := None)\<rparr>))"

inductive race_reachable :: "string list \<Rightarrow> nat \<Rightarrow> race \<Rightarrow> bool" for rows b where
  race_init: "race_reachable rows b race_start"
| race_next: "race_reachable rows b s \<Longrightarrow> race_step rows b s t \<Longrightarrow> race_reachable rows b t"

lemmas race_defs = lock_all_def release_all_def set_status_def free_for_def selectable_def

section \<open>One row per poll is safe\<close>

definition race_ok :: "race \<Rightarrow> bool" where
  "race_ok s \<longleftrightarrow>
     (\<forall>w. plan_of s w = [] \<or> (\<exists>i. plan_of s w = [i] \<and> status_of s i = PENDING \<and> lock_of s i = Some w
            \<and> busy_with s w = None))
     \<and> (\<forall>w i. busy_with s w = Some i \<longrightarrow> status_of s i = DELIVERING)
     \<and> (\<forall>w v i. busy_with s w = Some i \<longrightarrow> busy_with s v = Some i \<longrightarrow> w = v)
     \<and> (\<forall>i. times_delivered s i \<le> 1 \<and> (times_delivered s i = 1 \<longrightarrow> status_of s i = DELIVERED))"

lemma race_okD:
  assumes "race_ok s"
  shows "plan_of s w = [] \<or> (\<exists>i. plan_of s w = [i] \<and> status_of s i = PENDING \<and> lock_of s i = Some w \<and> busy_with s w = None)"
    and "busy_with s w = Some i \<Longrightarrow> status_of s i = DELIVERING"
    and "busy_with s w = Some i \<Longrightarrow> busy_with s v = Some i \<Longrightarrow> w = v"
    and "times_delivered s i \<le> 1" and "times_delivered s i = 1 \<Longrightarrow> status_of s i = DELIVERED"
  using assms unfolding race_ok_def by blast+

text \<open>A worker's plan is not disturbed by a change of a row that is not pending.\<close>

lemma plan_kept:
  assumes "race_ok s" "status_of s i \<noteq> PENDING"
    and "plan_of t = plan_of s" "lock_of t = lock_of s" "status_of t = (status_of s)(i := st)"
    and "busy_with t = (busy_with s)(w := None)"
  shows "plan_of t v = [] \<or> (\<exists>j. plan_of t v = [j] \<and> status_of t j = PENDING \<and> lock_of t j = Some v
        \<and> busy_with t v = None)"
  using race_okD(1) [OF assms(1), of v]
proof (elim disjE exE conjE)
  fix j assume j: "plan_of s v = [j]" "status_of s j = PENDING" "lock_of s j = Some v" "busy_with s v = None"
  with assms(2) have "j \<noteq> i" by auto
  with j show ?thesis by (simp add: assms)
qed (simp add: assms)

lemma race_ok_step:
  assumes "race_step rows 1 s t" and ok: "race_ok s" shows "race_ok t"
  using assms(1)
proof cases
  case (fetch w xs)
  have len: "length xs \<le> 1" unfolding fetch(4) selectable_def by simp
  have sub: "status_of s i = PENDING \<and> lock_of s i = None" if "i \<in> set xs" for i
  proof -
    have "i \<in> set (filter (\<lambda>i. status_of s i = PENDING \<and> lock_of s i = None) rows)"
      using that unfolding fetch(4) selectable_def by (rule in_set_takeD)
    then show ?thesis by simp
  qed
  have xs: "xs = [] \<or> (\<exists>i. xs = [i] \<and> status_of s i = PENDING \<and> lock_of s i = None)"
  proof (cases xs)
    case (Cons i ys)
    with len have "ys = []" by simp
    with Cons sub [of i] show ?thesis by simp
  qed simp
  let ?t = "lock_all w xs (s\<lparr>plan_of := (plan_of s)(w := xs)\<rparr>)"
  have same: "status_of ?t = status_of s" "busy_with ?t = busy_with s" "times_delivered ?t = times_delivered s"
    by (simp_all add: lock_all_def)
  have plans: "plan_of ?t v = [] \<or> (\<exists>i. plan_of ?t v = [i] \<and> status_of s i = PENDING \<and> lock_of ?t i = Some v
          \<and> busy_with s v = None)" for v
  proof (cases "v = w")
    case True
    with xs fetch(3) show ?thesis by (elim disjE exE conjE) (simp_all add: lock_all_def)
  next
    case False
    from race_okD(1) [OF ok, of v] show ?thesis
    proof (elim disjE exE conjE)
      fix i assume i: "plan_of s v = [i]" "status_of s i = PENDING" "lock_of s i = Some v" "busy_with s v = None"
      with sub [of i] have "i \<notin> set xs" by auto
      with i False show ?thesis by (simp add: lock_all_def)
    qed (use False in \<open>simp add: lock_all_def\<close>)
  qed
  show ?thesis
    unfolding race_ok_def fetch(1) same
    using plans race_okD(2-5) [OF ok] by blast
next
  case (mark w i rest)
  from race_okD(1) [OF ok, of w] mark(2)
  have i: "rest = []" "status_of s i = PENDING" "lock_of s i = Some w" by auto
  have nobody: "busy_with s v \<noteq> Some i" for v using race_okD(2) [OF ok, of v i] i(2) by auto
  show ?thesis
    unfolding race_ok_def mark(1)
  proof (intro conjI allI impI)
    fix v
    let ?t = "release_all w (set_status i DELIVERING
      (s\<lparr>plan_of := (plan_of s)(w := rest), busy_with := (busy_with s)(w := Some i)\<rparr>))"
    show "plan_of ?t v = [] \<or> (\<exists>j. plan_of ?t v = [j] \<and> status_of ?t j = PENDING \<and> lock_of ?t j = Some v
        \<and> busy_with ?t v = None)"
    proof (cases "v = w")
      case True
      then show ?thesis using i(1) by (simp add: release_all_def set_status_def)
    next
      case False
      from race_okD(1) [OF ok, of v] show ?thesis
      proof (elim disjE exE conjE)
        fix j assume j: "plan_of s v = [j]" "status_of s j = PENDING" "lock_of s j = Some v" "busy_with s v = None"
        with False i(3) have "j \<noteq> i" by auto
        with j False show ?thesis by (simp add: release_all_def set_status_def)
      qed (use False in \<open>simp add: release_all_def set_status_def\<close>)
    qed
    show "busy_with ?t v = Some j \<Longrightarrow> status_of ?t j = DELIVERING" for j
      using race_okD(2) [OF ok, of v j] by (auto simp: release_all_def set_status_def split: if_splits)
    show "busy_with ?t v = Some j \<Longrightarrow> busy_with ?t u = Some j \<Longrightarrow> v = u" for u j
      using race_okD(3) [OF ok, of v j u] nobody by (auto simp: release_all_def set_status_def split: if_splits)
    show "times_delivered ?t j \<le> 1" for j using race_okD(4) [OF ok] by (simp add: release_all_def set_status_def)
    show "times_delivered ?t j = 1 \<Longrightarrow> status_of ?t j = DELIVERED" for j
      using race_okD(5) [OF ok, of j] i(2) by (auto simp: release_all_def set_status_def)
  qed
next
  case (success w i)
  have st: "status_of s i = DELIVERING" using race_okD(2) [OF ok success(2)] .
  then have z: "times_delivered s i = 0" using race_okD(4,5) [OF ok, of i] by (cases "times_delivered s i") auto
  have only: "busy_with s v = Some i \<Longrightarrow> v = w" for v using race_okD(3) [OF ok _ success(2)] .
  show ?thesis
    unfolding race_ok_def success(1)
  proof (intro conjI allI impI)
    fix v
    let ?t = "set_status i DELIVERED
      (s\<lparr>busy_with := (busy_with s)(w := None),
         times_delivered := (times_delivered s)(i := Suc (times_delivered s i))\<rparr>)"
    show "plan_of ?t v = [] \<or> (\<exists>j. plan_of ?t v = [j] \<and> status_of ?t j = PENDING \<and> lock_of ?t j = Some v
        \<and> busy_with ?t v = None)"
      by (rule plan_kept [OF ok, of i _ DELIVERED w]) (simp_all add: st set_status_def)
    show "busy_with ?t v = Some j \<Longrightarrow> status_of ?t j = DELIVERING" for j
      using race_okD(2) [OF ok, of v j] only [of v] by (auto simp: set_status_def split: if_splits)
    show "busy_with ?t v = Some j \<Longrightarrow> busy_with ?t u = Some j \<Longrightarrow> v = u" for u j
      using race_okD(3) [OF ok, of v j u] by (auto simp: set_status_def split: if_splits)
    show "times_delivered ?t j \<le> 1" for j using race_okD(4) [OF ok] z by (simp add: set_status_def)
    show "times_delivered ?t j = 1 \<Longrightarrow> status_of ?t j = DELIVERED" for j
      using race_okD(5) [OF ok, of j] by (auto simp: set_status_def split: if_splits)
  qed
next
  case (failure w i st)
  have del: "status_of s i = DELIVERING" using race_okD(2) [OF ok failure(2)] .
  then have z: "times_delivered s i = 0" using race_okD(4,5) [OF ok, of i] by (cases "times_delivered s i") auto
  have only: "busy_with s v = Some i \<Longrightarrow> v = w" for v using race_okD(3) [OF ok _ failure(2)] .
  show ?thesis
    unfolding race_ok_def failure(1)
  proof (intro conjI allI impI)
    fix v
    let ?t = "set_status i st (s\<lparr>busy_with := (busy_with s)(w := None)\<rparr>)"
    show "plan_of ?t v = [] \<or> (\<exists>j. plan_of ?t v = [j] \<and> status_of ?t j = PENDING \<and> lock_of ?t j = Some v
        \<and> busy_with ?t v = None)"
      by (rule plan_kept [OF ok, of i _ st w]) (simp_all add: del set_status_def)
    show "busy_with ?t v = Some j \<Longrightarrow> status_of ?t j = DELIVERING" for j
      using race_okD(2) [OF ok, of v j] only [of v] by (auto simp: set_status_def split: if_splits)
    show "busy_with ?t v = Some j \<Longrightarrow> busy_with ?t u = Some j \<Longrightarrow> v = u" for u j
      using race_okD(3) [OF ok, of v j u] by (auto simp: set_status_def split: if_splits)
    show "times_delivered ?t j \<le> 1" for j using race_okD(4) [OF ok] by (simp add: set_status_def)
    show "times_delivered ?t j = 1 \<Longrightarrow> status_of ?t j = DELIVERED" for j
      using race_okD(5) [OF ok, of j] z by (auto simp: set_status_def)
  qed
qed

lemma race_ok_start: "race_ok race_start"
  by (simp add: race_ok_def race_start_def)

lemma race_reachable_ok: "race_reachable rows 1 s \<Longrightarrow> race_ok s"
  by (induction rule: race_reachable.induct) (auto intro: race_ok_start race_ok_step)

text \<open>With a batch size of one, any number of workers deliver each row successfully at most once:
  the lock taken by the selection lasts until the row is marked DELIVERING, and a row that is not
  PENDING is not selected.\<close>

theorem single_row_batches_deliver_once:
  assumes "race_reachable rows 1 s"
  shows "times_delivered s i \<le> 1 \<and> (busy_with s w = Some i \<longrightarrow> busy_with s v = Some i \<longrightarrow> w = v)"
  using race_okD(3,4) [OF race_reachable_ok [OF assms]] by blast

lemma single_row_batches_deliver_once_witness:
  "times_delivered race_start ''a'' \<le> 1"
  using single_row_batches_deliver_once [OF race_init] by blast

section \<open>Larger batches are not\<close>

lemma race_run:
  "race_reachable rows b s \<Longrightarrow> race_step rows b s t' \<Longrightarrow> t' = t \<Longrightarrow> race_reachable rows b t"
  using race_next by blast

text \<open>C29: With the batch sizes the code uses (any size of at least two) two workers can both deliver
  the same row: the first worker's commit after marking its first row releases the locks on the
  rest of its batch, the second worker selects and delivers a row of that rest, and the first one
  then delivers it again without looking at its status.\<close>

theorem batches_can_deliver_twice:
  assumes "2 \<le> b" and "i \<noteq> j"
  shows "\<exists>s. race_reachable [i, j] b s \<and> times_delivered s j = 2"
proof -
  let ?S = "\<lambda>si sj li lj p0 p1 b0 b1 n m. race_start\<lparr>status_of := (\<lambda>x. PENDING)(i := si, j := sj),
    lock_of := (\<lambda>x. None)(i := li, j := lj), plan_of := (\<lambda>w. [])(0 := p0, 1 := p1),
    busy_with := (\<lambda>w. None)(0 := b0, 1 := b1), times_delivered := (\<lambda>x. 0)(i := n, j := m)\<rparr>"
  obtain c where b: "b = Suc (Suc c)" using assms(1) by (metis Suc_le_D Suc_le_mono numeral_2_eq_2)
  note defs = race_start_def race_defs fun_eq_iff
  have S1: "race_reachable [i, j] b (?S PENDING PENDING (Some 0) (Some 0) [i, j] [] None None 0 0)"
    by (rule race_run [OF race_init race_step.fetch [where w = 0, OF _ _ refl]]) (auto simp: defs b)
  have S2: "race_reachable [i, j] b (?S DELIVERING PENDING None None [j] [] (Some i) None 0 0)"
    by (rule race_run [OF S1 race_step.mark [where w = 0 and i = i and rest = "[j]"]]) (use assms(2) in \<open>auto simp: defs b\<close>)
  have S3: "race_reachable [i, j] b (?S DELIVERING PENDING None (Some 1) [j] [j] (Some i) None 0 0)"
    by (rule race_run [OF S2 race_step.fetch [where w = 1, OF _ _ refl]]) (use assms(2) in \<open>auto simp: defs b\<close>)
  have S4: "race_reachable [i, j] b (?S DELIVERING DELIVERING None None [j] [] (Some i) (Some j) 0 0)"
    by (rule race_run [OF S3 race_step.mark [where w = 1 and i = j and rest = "[]"]]) (use assms(2) in \<open>auto simp: defs b\<close>)
  have S5: "race_reachable [i, j] b (?S DELIVERING DELIVERED None None [j] [] (Some i) None 0 1)"
    by (rule race_run [OF S4 race_step.success [where w = 1 and i = j]]) (use assms(2) in \<open>auto simp: defs b\<close>)
  have S6: "race_reachable [i, j] b (?S DELIVERED DELIVERED None None [j] [] None None 1 1)"
    by (rule race_run [OF S5 race_step.success [where w = 0 and i = i]]) (use assms(2) in \<open>auto simp: defs b\<close>)
  have S7: "race_reachable [i, j] b (?S DELIVERED DELIVERING None None [] [] (Some j) None 1 1)"
    by (rule race_run [OF S6 race_step.mark [where w = 0 and i = j and rest = "[]"]]) (use assms(2) in \<open>auto simp: defs b\<close>)
  have S8: "race_reachable [i, j] b (?S DELIVERED DELIVERED None None [] [] None None 1 2)"
    by (rule race_run [OF S7 race_step.success [where w = 0 and i = j]]) (use assms(2) in \<open>auto simp: defs b\<close>)
  show ?thesis by (rule exI, rule conjI, rule S8) (use assms(2) in simp)
qed

lemma batches_can_deliver_twice_witness:
  "\<exists>s. race_reachable [''a'', ''b''] 50 s \<and> times_delivered s ''b'' = 2"
  by (rule batches_can_deliver_twice) simp_all

end
