(* ===== verification/Review_Heuristic.thy ===== *)
theory Review_Heuristic
  imports Json
begin

text \<open>
  \<^verbatim>\<open>app/runtime/contract_review.py\<close>, first part: the evidence bundle of a contract review, the review
  itself, and the review that is derived from the evidence alone. A confidence is a rational
  number; the text shows two decimals, which every derived confidence has. The construction of
  \<open>ContractReviewOutcome\<close> checks its fields, so deriving a review can raise.
\<close>

section \<open>Data\<close>

datatype review_decision = APPROVE | NEEDS_CHANGES | BLOCK

datatype review_severity = COMPATIBLE | RISKY_CHANGE | BREAKING_CHANGE

fun decision_value :: "review_decision \<Rightarrow> string" where
  "decision_value APPROVE = ''approve''"
| "decision_value NEEDS_CHANGES = ''needs_changes''"
| "decision_value BLOCK = ''block''"

fun severity_value :: "review_severity \<Rightarrow> string" where
  "severity_value COMPATIBLE = ''compatible''"
| "severity_value RISKY_CHANGE = ''risky''"
| "severity_value BREAKING_CHANGE = ''breaking''"

text \<open>\<open>severity.value.title()\<close>\<close>

fun severity_title :: "review_severity \<Rightarrow> string" where
  "severity_title COMPATIBLE = ''Compatible''"
| "severity_title RISKY_CHANGE = ''Risky''"
| "severity_title BREAKING_CHANGE = ''Breaking''"

record evidence_item =
  it_citation :: string
  it_kind :: string
  it_summary :: string
  it_details :: "json pydict"

record evidence =
  ev_endpoint_id :: string
  ev_endpoint_name :: string
  ev_space :: string
  ev_service :: string
  ev_method :: string
  ev_route :: string
  ev_current :: "int option"
  ev_schema_diffs :: "evidence_item list"
  ev_snapshots :: "evidence_item list"
  ev_validations :: "evidence_item list"
  ev_dlq :: "evidence_item list"
  ev_event_dlq :: "evidence_item list"
  ev_attempts :: "evidence_item list"
  ev_subscriptions :: "json list"
  ev_violations :: "evidence_item list"
  ev_notes :: "string list"
  ev_insufficient :: bool

record outcome =
  oc_decision :: review_decision
  oc_severity :: review_severity
  oc_summary :: string
  oc_impact :: string
  oc_consumers :: "string list"
  oc_explanation :: string
  oc_risk :: string
  oc_rollout :: string
  oc_evidence :: "string list"
  oc_fixes :: "string list"
  oc_migration :: string
  oc_comment :: string
  oc_confidence :: rat
  oc_insufficient :: bool

definition cited_items :: "evidence \<Rightarrow> evidence_item list" where
  "cited_items e = ev_schema_diffs e @ ev_snapshots e @ ev_validations e @ ev_dlq e @ ev_event_dlq e
     @ ev_attempts e @ ev_violations e"

definition citations :: "evidence \<Rightarrow> string list" where
  "citations e = map it_citation (cited_items e)"

definition evidence_count :: "evidence \<Rightarrow> nat" where
  "evidence_count e = length (citations e)"

text \<open>The declared bounds of the fields of \<open>ContractReviewOutcome\<close>.\<close>

definition outcome_valid :: "outcome \<Rightarrow> bool" where
  "outcome_valid r \<longleftrightarrow> oc_summary r \<noteq> [] \<and> oc_impact r \<noteq> [] \<and> oc_migration r \<noteq> [] \<and> oc_comment r \<noteq> []
     \<and> 0 \<le> oc_confidence r \<and> oc_confidence r \<le> 1"

section \<open>Text\<close>

definition truncate_text :: "json \<Rightarrow> nat \<Rightarrow> string" where
  "truncate_text v limit =
     (let text_value = (case v of JStr s \<Rightarrow> s | _ \<Rightarrow> json_dumps False '', '' '': '' v)
      in if py_len text_value \<le> limit then text_value
         else py_take (limit - 1) text_value @ ellipsis)"

definition detail :: "evidence_item \<Rightarrow> string \<Rightarrow> string \<Rightarrow> string" where
  "detail item k dflt = py_str (jget_or (JDict (it_details item)) k (JStr dflt))"

definition citation_line :: "evidence_item \<Rightarrow> string" where
  "citation_line item = ''['' @ it_citation item @ ''] '' @ it_summary item"

text \<open>\<open>f"{confidence:.2f}"\<close> of a confidence in hundredths.\<close>

definition two_decimals :: "rat \<Rightarrow> string" where
  "two_decimals c =
     (let n = nat \<lfloor>100 * c + 1 / 2\<rfloor>
      in show_nat (n div 100) @ ''.'' @ (if n mod 100 < 10 then ''0'' else []) @ show_nat (n mod 100))"

section \<open>Severity\<close>

definition breaking_tokens :: "string list" where
  "breaking_tokens = [''removed required'', ''required field'', ''enum contraction'', ''type changed'',
     ''nullable field becomes required'', ''removed'']"

definition risky_tokens :: "string list" where
  "risky_tokens = [''risky'', ''widening'', ''nullable'', ''added required'', ''nested shape'']"

definition mentions :: "string list \<Rightarrow> string \<Rightarrow> bool" where
  "mentions tokens text = list_ex (\<lambda>token. py_in token text) tokens"

definition graded_text :: "evidence_item \<Rightarrow> string" where
  "graded_text item = py_lower (it_summary item @ '' '' @ py_lower (detail item ''change_type'' []))"

definition is_breaking_item :: "evidence_item \<Rightarrow> bool" where
  "is_breaking_item item \<longleftrightarrow> py_lower (detail item ''severity'' []) = ''breaking'' \<or> mentions breaking_tokens (graded_text item)"

definition is_risky_item :: "evidence_item \<Rightarrow> bool" where
  "is_risky_item item \<longleftrightarrow> py_lower (detail item ''severity'' []) = ''risky'' \<or> mentions risky_tokens (graded_text item)"

fun severity_loop :: "review_severity \<Rightarrow> evidence_item list \<Rightarrow> review_severity" where
  "severity_loop severity [] = severity"
| "severity_loop severity (item # items) =
     (if is_breaking_item item then BREAKING_CHANGE
      else if is_risky_item item then severity_loop RISKY_CHANGE items
      else severity_loop severity items)"

definition severity_from_evidence :: "evidence \<Rightarrow> review_severity" where
  "severity_from_evidence e = severity_loop COMPATIBLE (ev_schema_diffs e @ ev_violations e)"

definition decision_for_severity :: "review_severity \<Rightarrow> bool \<Rightarrow> review_decision" where
  "decision_for_severity severity insufficient_evidence =
     (if insufficient_evidence then BLOCK
      else if severity = BREAKING_CHANGE then BLOCK
      else if severity = RISKY_CHANGE then NEEDS_CHANGES
      else APPROVE)"

definition confidence_for_review :: "review_severity \<Rightarrow> nat \<Rightarrow> bool \<Rightarrow> rat" where
  "confidence_for_review severity n insufficient_evidence =
     (if insufficient_evidence then (if n \<noteq> 0 then 25 / 100 else 12 / 100)
      else if severity = BREAKING_CHANGE then (if 3 \<le> n then 94 / 100 else 88 / 100)
      else if severity = RISKY_CHANGE then (if 2 \<le> n then 82 / 100 else 74 / 100)
      else if 2 \<le> n then 79 / 100 else 68 / 100)"

section \<open>The texts of a review\<close>

definition consumer_label :: "json \<Rightarrow> string option" where
  "consumer_label sub =
     (let s = (\<lambda>k dflt. py_strip (py_str (jget_or sub k (JStr dflt))));
          consumer_id = s ''consumer_id'' []; target_url = s ''target_url'' [];
          threshold = s ''severity_threshold'' ''unknown'';
          label = (if consumer_id \<noteq> [] then consumer_id else target_url)
      in if \<not> truthy (jget_or sub ''active'' (JBool True)) then None
         else if consumer_id = [] \<and> target_url = [] then None
         else Some (if threshold \<noteq> [] then label @ '' (threshold='' @ threshold @ '')'' else label))"

definition impacted_consumers :: "evidence \<Rightarrow> string list" where
  "impacted_consumers e = List.map_filter consumer_label (ev_subscriptions e)"

definition severity_explanation :: "review_severity \<Rightarrow> evidence \<Rightarrow> string" where
  "severity_explanation severity e =
     (case severity of
        BREAKING_CHANGE \<Rightarrow> ''A breaking review means at least one grounded schema diff or drift violation removes a required field, narrows an enum, or tightens a type in a way that can break existing consumers.''
      | RISKY_CHANGE \<Rightarrow> ''A risky review means the collected evidence points to a compatibility change that may require a rollout plan, version bump, or consumer communication before release.''
      | COMPATIBLE \<Rightarrow>
          if ev_insufficient e then ''The review is conservative because the evidence bundle is sparse.''
          else ''No grounded diff, validation failure, DLQ item, or delivery failure suggests consumer impact.'')"

definition exposed :: "evidence \<Rightarrow> string list \<Rightarrow> string" where
  "exposed e impacted =
     show_nat (if length impacted \<noteq> 0 then length impacted else length (ev_subscriptions e))"

definition risk_summary :: "review_severity \<Rightarrow> evidence \<Rightarrow> string list \<Rightarrow> string" where
  "risk_summary severity e impacted =
     (case severity of
        BREAKING_CHANGE \<Rightarrow> exposed e impacted @ '' consumer(s) are likely affected and should not be cut over until the contract is versioned or a compatibility shim is in place.''
      | RISKY_CHANGE \<Rightarrow> exposed e impacted @ '' consumer(s) may be exposed to a behavior change; validate the rollout path and keep the previous shape available.''
      | COMPATIBLE \<Rightarrow> ''Current evidence does not show an immediate consumer break, but the review remains tied to the collected artifacts.'')"

definition rollout_action :: "review_severity \<Rightarrow> bool \<Rightarrow> string" where
  "rollout_action severity insufficient_evidence =
     (if insufficient_evidence then ''Pause rollout until the review has enough citations to justify a decision.''
      else case severity of
        BREAKING_CHANGE \<Rightarrow> ''Block rollout, notify impacted consumers, and ship a versioned compatibility path.''
      | RISKY_CHANGE \<Rightarrow> ''Roll out behind a guardrail or staged deployment and monitor the evidence trail closely.''
      | COMPATIBLE \<Rightarrow> ''Proceed with rollout and keep the evidence bundle attached to the release record.'')"

definition migration_note :: "review_severity \<Rightarrow> evidence \<Rightarrow> string \<Rightarrow> string" where
  "migration_note severity e consumer_impact =
     (case severity of
        BREAKING_CHANGE \<Rightarrow> ''Hold the change until consumers covered by '' @ show_nat (length (ev_subscriptions e))
          @ '' subscription(s) and '' @ py_lower consumer_impact @ '' are updated.''
      | RISKY_CHANGE \<Rightarrow> ''Ship behind a compatibility check, communicate the change, and keep the old shape alive during rollout.''
      | COMPATIBLE \<Rightarrow> ''No migration work is required for the currently collected evidence.'')"

definition fix_for :: "evidence_item \<Rightarrow> string option" where
  "fix_for item =
     (let change_type = py_lower (detail item ''change_type'' []);
          path = detail item ''path'' (it_summary item);
          summary = py_lower (it_summary item);
          q = [CHR 0x60] @ path @ [CHR 0x60]
      in if py_in ''removed required'' change_type \<or> py_in ''removed required'' summary
         then Some (''Restore '' @ q @ '' or version the contract before rollout.'')
         else if py_in ''new required'' change_type \<or> py_in ''added required'' summary
         then Some (''Make '' @ q @ '' optional or supply a backward-compatible default.'')
         else if py_in ''type'' change_type \<or> py_in ''type changed'' summary
         then Some (''Preserve the existing type for '' @ q @ '' or add coercion on both sides.'')
         else if py_in ''enum'' change_type \<or> py_in ''enum'' summary
         then Some (''Restore removed enum values for '' @ q @ '' or add a migration layer.'')
         else if py_in ''null'' change_type \<or> py_in ''nullable'' summary
         then Some (''Keep '' @ q @ '' nullable until all consumers can handle the tightened schema.'')
         else if py_in ''nested'' change_type \<or> py_in ''shape'' summary
         then Some (''Document the nested shape change for '' @ q @ '' and update payload examples.'')
         else None)"

text \<open>\<open>list(dict.fromkeys(fixes))\<close>: the first occurrences.\<close>

definition unique_first :: "'a list \<Rightarrow> 'a list" where
  "unique_first xs = rev (remdups (rev xs))"

definition recommended_fixes :: "evidence \<Rightarrow> string list" where
  "recommended_fixes e = unique_first (List.map_filter fix_for (ev_schema_diffs e @ ev_violations e))"

definition bullet :: "string \<Rightarrow> string" where
  "bullet s = ''- '' @ s"

definition code_quoted :: "string \<Rightarrow> string \<Rightarrow> string" where
  "code_quoted label v = ''- '' @ label @ '': '' @ [CHR 0x60] @ v @ [CHR 0x60]"

definition review_comment :: "outcome \<Rightarrow> string \<Rightarrow> string \<Rightarrow> string" where
  "review_comment review evidence_summary consumer_impact = py_join nl
     ([''## DRIFTGATE Contract Review'', code_quoted ''Decision'' (decision_value (oc_decision review)),
       code_quoted ''Severity'' (severity_value (oc_severity review)),
       code_quoted ''Confidence'' (two_decimals (oc_confidence review)), [],
       ''### Summary'' @ nl @ oc_summary review, [], ''### Consumer impact'' @ nl @ consumer_impact, [],
       ''### Severity explanation'' @ nl @ oc_explanation review, [], ''### Risk summary'' @ nl @ oc_risk review, [],
       ''### Rollout action'' @ nl @ oc_rollout review, [], ''### Evidence'']
      @ (if oc_evidence review \<noteq> [] then map bullet (oc_evidence review)
         else [''- No grounded evidence was cited.''])
      @ (if evidence_summary \<noteq> [] then [[], ''### Evidence summary'' @ nl @ evidence_summary] else [])
      @ (if oc_fixes review \<noteq> [] then [[], ''### Recommended fixes''] @ map bullet (oc_fixes review) else [])
      @ (if oc_consumers review \<noteq> [] then [[], ''### Impacted consumers''] @ map bullet (oc_consumers review) else [])
      @ [[], ''### Migration note'' @ nl @ oc_migration review])"

section \<open>The derived review\<close>

definition derived_items :: "evidence \<Rightarrow> evidence_item list" where
  "derived_items e = take (max 1 (min 5 (evidence_count e)))
     (ev_schema_diffs e @ ev_snapshots e @ ev_validations e @ ev_dlq e @ ev_attempts e @ ev_violations e)"

definition derived_insufficient :: "evidence \<Rightarrow> bool" where
  "derived_insufficient e \<longleftrightarrow> ev_insufficient e \<or> evidence_count e = 0"

definition review_summary :: "review_severity \<Rightarrow> bool \<Rightarrow> string option \<Rightarrow> string" where
  "review_summary severity insufficient_evidence insufficient_reason =
     (let reason = (case insufficient_reason of None \<Rightarrow> [] | Some r \<Rightarrow> r);
          summary = (if reason \<noteq> [] then reason
            else if severity = COMPATIBLE then ''No breaking changes were grounded in the collected evidence.''
            else severity_title severity @ '' contract changes were grounded in the collected evidence.'');
          summary = (if insufficient_evidence \<and> reason = []
            then ''There is too little supporting evidence to produce a confident contract review.'' else summary)
      in if \<not> insufficient_evidence \<and> reason \<noteq> []
         then summary @ '' The model failed, so this review was derived directly from grounded evidence.''
         else summary)"

text \<open>The review with its draft comment, and the note appended to the comment.\<close>

definition draft_review :: "evidence \<Rightarrow> string \<Rightarrow> string option \<Rightarrow> outcome" where
  "draft_review e consumer_impact insufficient_reason =
     (let severity = severity_from_evidence e;
          insufficient_evidence = derived_insufficient e
      in \<lparr>oc_decision = decision_for_severity severity insufficient_evidence,
          oc_severity = (if \<not> insufficient_evidence then severity else RISKY_CHANGE),
          oc_summary = review_summary severity insufficient_evidence insufficient_reason,
          oc_impact = consumer_impact, oc_consumers = impacted_consumers e,
          oc_explanation = severity_explanation severity e,
          oc_risk = risk_summary severity e (impacted_consumers e),
          oc_rollout = rollout_action severity insufficient_evidence,
          oc_evidence = map citation_line (derived_items e),
          oc_fixes = (if insufficient_evidence then [] else recommended_fixes e),
          oc_migration = migration_note severity e consumer_impact, oc_comment = ''Draft review'',
          oc_confidence = confidence_for_review severity (evidence_count e) insufficient_evidence,
          oc_insufficient = insufficient_evidence\<rparr>)"

definition comment_note :: "evidence \<Rightarrow> string option \<Rightarrow> string" where
  "comment_note e insufficient_reason =
     (if derived_insufficient e
      then nl @ nl @ ''### Note'' @ nl @ ''Insufficient evidence was returned because the available data was too sparse.''
      else case insufficient_reason of
          None \<Rightarrow> []
        | Some reason \<Rightarrow> if reason \<noteq> [] then nl @ nl @ ''### Note'' @ nl @ reason else [])"

definition build_heuristic_review ::
  "evidence \<Rightarrow> string \<Rightarrow> string \<Rightarrow> string option \<Rightarrow> py_error + outcome" where
  "build_heuristic_review e evidence_summary consumer_impact insufficient_reason =
     (let review = draft_review e consumer_impact insufficient_reason
      in if outcome_valid review
         then Inr (review\<lparr>oc_comment := review_comment review evidence_summary consumer_impact
                            @ comment_note e insufficient_reason\<rparr>)
         else Inl (ValueError ''validation error for ContractReviewOutcome''))"

end
