(* ===== verification/Event_Dlq.thy ===== *)
theory Event_Dlq
  imports Keyed_Table Document_Store
begin

text \<open>
  Drift events: \<^verbatim>\<open>app/runtime/models.py\<close> (the event), \<^verbatim>\<open>app/runtime/event_backends.py\<close>,
  \<^verbatim>\<open>app/runtime/events.py\<close> and \<^verbatim>\<open>app/runtime/drift_event_dlq.py\<close>. A publisher is a parameter: what
  its \<open>n\<close>-th call with an event raises, as the text \<open>Type: message\<close>, or \<open>None\<close> when it returns.
  The background task of \<open>publish_fire_and_forget\<close> is run to its end.
\<close>

section \<open>Events\<close>

record drift_event =
  ev_id :: string
  ev_endpoint :: string
  ev_name :: string
  ev_namespace :: string
  ev_old_fp :: string
  ev_new_fp :: string
  ev_old_version :: int
  ev_new_version :: int
  ev_severity :: string
  ev_class :: string
  ev_timestamp :: string
  ev_diffs :: "json list"
  ev_consumers :: int

definition event_fields :: "string \<Rightarrow> drift_event \<Rightarrow> json" where
  "event_fields name_key e = JDict
     [(''event_id'', JStr (ev_id e)), (''endpoint_id'', JStr (ev_endpoint e)),
      (name_key, JStr (ev_name e)), (''namespace'', JStr (ev_namespace e)),
      (''old_fingerprint'', JStr (ev_old_fp e)), (''new_fingerprint'', JStr (ev_new_fp e)),
      (''old_version'', JInt (ev_old_version e)), (''new_version'', JInt (ev_new_version e)),
      (''severity'', JStr (ev_severity e)), (''compatibility_classification'', JStr (ev_class e)),
      (''timestamp'', JStr (ev_timestamp e)), (''schema_diff_summary'', JList (ev_diffs e)),
      (''affected_consumer_count'', JInt (ev_consumers e))]"

text \<open>\<open>_event_payload\<close> of the dead letter queue (and \<open>serialize_event\<close>), and the one of the backends.\<close>

definition event_payload :: "drift_event \<Rightarrow> json" where
  "event_payload e = event_fields ''endpoint_name'' e"

definition serialize_event :: "drift_event \<Rightarrow> json" where
  "serialize_event e = event_payload e"

definition backend_payload :: "drift_event \<Rightarrow> json" where
  "backend_payload e = event_fields ''endpoint_path_name'' e"

section \<open>Backends\<close>

type_synonym publisher = "nat \<Rightarrow> drift_event \<Rightarrow> string option"

definition noop_publish :: publisher where
  "noop_publish n e = None"

text \<open>A sender offers \<open>send_messages\<close>, \<open>send_message\<close>, or neither.\<close>

record sender =
  send_messages :: "(nat \<Rightarrow> string \<Rightarrow> string option) option"
  send_message :: "(nat \<Rightarrow> string \<Rightarrow> string option) option"

definition azure_publish :: "sender \<Rightarrow> publisher" where
  "azure_publish s n e =
     (let payload = json_dumps False '','' '':'' (backend_payload e) in
      case send_messages s of
        Some send \<Rightarrow> send n payload
      | None \<Rightarrow>
          (case send_message s of
             Some send \<Rightarrow> send n payload
           | None \<Rightarrow> Some ''TypeError: Azure Service Bus sender must expose send_messages or send_message''))"

definition configured_backend_name :: "string option \<Rightarrow> string" where
  "configured_backend_name event_backend =
     py_lower (py_strip (case event_backend of None \<Rightarrow> ''noop'' | Some b \<Rightarrow> b))"

definition build_event_backend :: "string option \<Rightarrow> sender option \<Rightarrow> py_error + publisher" where
  "build_event_backend event_backend service_bus_sender =
     (if configured_backend_name event_backend = ''azure_service_bus'' then
        (case service_bus_sender of
           Some s \<Rightarrow> Inr (azure_publish s)
         | None \<Rightarrow> Inl (RuntimeError
             ''EVENT_BACKEND=azure_service_bus requires a service_bus_sender or an explicit noop configuration''))
      else Inr noop_publish)"

section \<open>Publishing with retries\<close>

text \<open>
  The loop over the attempts: what is raised, the number of calls, and the delays in milliseconds
  (\<open>wait\<close> doubles from 50). \<open>range(1, retries + 1)\<close> is empty for \<open>retries < 1\<close>.
\<close>

fun publish_loop :: "publisher \<Rightarrow> drift_event \<Rightarrow> int \<Rightarrow> nat \<Rightarrow> nat \<Rightarrow> int list \<Rightarrow> string option \<times> nat \<times> nat list" where
  "publish_loop pub e retries wait n [] = (None, n, [])"
| "publish_loop pub e retries wait n (attempt # rest) =
     (case pub n e of
        None \<Rightarrow> (None, Suc n, [])
      | Some err \<Rightarrow>
          if attempt = retries then (Some err, Suc n, [])
          else (let (r, calls, waits) = publish_loop pub e retries (wait * 2) (Suc n) rest
                in (r, calls, wait # waits)))"

definition publish_with_retry :: "publisher \<Rightarrow> drift_event \<Rightarrow> int \<Rightarrow> string option \<times> nat \<times> nat list" where
  "publish_with_retry pub e retries = publish_loop pub e retries 50 0 [1..retries]"

section \<open>The dead letter queue of events\<close>

definition event_merge :: "event_dlq_row \<Rightarrow> event_dlq_row \<Rightarrow> event_dlq_row" where
  "event_merge excluded r = r\<lparr>ed_reason := ed_reason excluded, ed_publisher := ed_publisher excluded,
     ed_count := ed_count r + 1, ed_last := ed_last excluded\<rparr>"

interpretation edlq: keyed_table ed_event event_merge
  by unfold_locales (simp add: event_merge_def)

definition new_event_row :: "rdb \<Rightarrow> string \<Rightarrow> drift_event \<Rightarrow> string \<Rightarrow> string \<Rightarrow> event_dlq_row" where
  "new_event_row db i e failure_reason publisher_name =
     \<lparr>ed_id = i, ed_event = ev_id e, ed_endpoint = ev_endpoint e, ed_name = ev_name e,
      ed_namespace = ev_namespace e, ed_payload = event_payload e, ed_reason = failure_reason,
      ed_publisher = publisher_name, ed_count = 1, ed_status = EV_PENDING, ed_error = None,
      ed_created = now db, ed_updated = now db, ed_last = now db, ed_replayed = None\<rparr>"

definition record_event_failure :: "rdb \<Rightarrow> drift_event \<Rightarrow> string \<Rightarrow> string \<Rightarrow> rdb" where
  "record_event_failure db e failure_reason publisher_name =
     (let (i, db) = fresh_id db;
          (inserted, rows) = upsert_row ed_event event_merge
             (new_event_row db i e failure_reason publisher_name) (event_dlq db)
      in db\<lparr>event_dlq := rows, event_dlq_size := event_dlq_size db + of_bool inserted\<rparr>)"

definition publish_fire_and_forget :: "publisher \<Rightarrow> string \<Rightarrow> rdb \<Rightarrow> drift_event \<Rightarrow> rdb" where
  "publish_fire_and_forget pub class_name db e =
     (case publish_with_retry pub e 3 of
        (None, _) \<Rightarrow> db
      | (Some err, _) \<Rightarrow>
          record_event_failure (db\<lparr>publish_failures := Suc (publish_failures db)\<rparr>) e
            (''publish failed via '' @ class_name) class_name)"

definition event_entry :: "event_dlq_row \<Rightarrow> json" where
  "event_entry r = JDict
     [(''id'', JStr (ed_id r)), (''event_id'', JStr (ed_event r)), (''endpoint_id'', JStr (ed_endpoint r)),
      (''endpoint_name'', JStr (ed_name r)), (''namespace'', JStr (ed_namespace r)),
      (''payload'', ed_payload r), (''failure_reason'', JStr (ed_reason r)),
      (''publisher_name'', JStr (ed_publisher r)), (''attempt_count'', JInt (ed_count r)),
      (''status'', JStr (case ed_status r of EV_PENDING \<Rightarrow> ''PENDING'' | EV_REPLAYED \<Rightarrow> ''REPLAYED'')),
      (''created_at'', JStr (isoformat (ed_created r))), (''updated_at'', JStr (isoformat (ed_updated r))),
      (''last_failure_at'', JStr (isoformat (ed_last r))),
      (''replayed_at'', opt_json (\<lambda>t. JStr (isoformat t)) (ed_replayed r)),
      (''replay_error'', opt_json JStr (ed_error r))]"

definition get_event_row :: "rdb \<Rightarrow> string \<Rightarrow> event_dlq_row option" where
  "get_event_row db i = row_at ed_id i (event_dlq db)"

definition list_event_dlq :: "rdb \<Rightarrow> nat \<Rightarrow> json list" where
  "list_event_dlq db limit = map event_entry (take limit (sort_desc ed_last (event_dlq db)))"

section \<open>Replay\<close>

text \<open>
  \<open>int(v)\<close> and \<open>list(v)\<close>. A text is a number when it is digits with an optional sign and blanks
  around it; a float is truncated at its point (no exponents).
\<close>

definition is_digits :: "string \<Rightarrow> bool" where
  "is_digits s \<longleftrightarrow> s \<noteq> [] \<and> list_all (\<lambda>c. 48 \<le> (of_char c :: nat) \<and> (of_char c :: nat) \<le> 57) s"

definition parse_int :: "string \<Rightarrow> int option" where
  "parse_int s =
     (let t = py_strip s in
      case t of
        c # r \<Rightarrow>
          if c = CHR ''-'' then (if is_digits r then Some (- int (read_nat r)) else None)
          else if c = CHR ''+'' then (if is_digits r then Some (int (read_nat r)) else None)
          else if is_digits t then Some (int (read_nat t)) else None
      | [] \<Rightarrow> None)"

fun py_int :: "json \<Rightarrow> py_error + int" where
  "py_int (JInt i) = Inr i"
| "py_int (JBool b) = Inr (of_bool b)"
| "py_int (JStr s) = (case parse_int s of Some i \<Rightarrow> Inr i | None \<Rightarrow> Inl (ValueError ''invalid literal for int()''))"
| "py_int (JFloat r) =
     (case parse_int (takeWhile (\<lambda>c. c \<noteq> CHR ''.'') r) of
        Some i \<Rightarrow> Inr i | None \<Rightarrow> Inl (ValueError ''cannot convert float to integer''))"
| "py_int _ = Inl (TypeError ''int() argument must be a string or a real number'')"

fun py_list :: "json \<Rightarrow> py_error + json list" where
  "py_list (JList xs) = Inr xs"
| "py_list (JDict d) = Inr (map (\<lambda>(k, v). JStr k) d)"
| "py_list (JStr s) = Inr (map (\<lambda>c. JStr [c]) s)"
| "py_list _ = Inl (TypeError ''object is not iterable'')"

definition event_of_row :: "event_dlq_row \<Rightarrow> moment \<Rightarrow> py_error + drift_event" where
  "event_of_row row t =
     (let payload = (if is_dict (ed_payload row) then ed_payload row else JDict []);
          s = (\<lambda>k dflt. py_str (jget_or payload k (JStr dflt)));
          i = (\<lambda>k. py_int (jget_or payload k (JInt 0)))
      in bind_err (i ''old_version'') (\<lambda>old_version.
         bind_err (i ''new_version'') (\<lambda>new_version.
         bind_err (py_list (jget_or payload ''schema_diff_summary'' (JList []))) (\<lambda>summary.
         bind_err (i ''affected_consumer_count'') (\<lambda>consumers.
           Inr \<lparr>ev_id = s ''event_id'' (ed_event row), ev_endpoint = s ''endpoint_id'' (ed_endpoint row),
                ev_name = s ''endpoint_name'' (ed_name row), ev_namespace = s ''namespace'' (ed_namespace row),
                ev_old_fp = s ''old_fingerprint'' [], ev_new_fp = s ''new_fingerprint'' [],
                ev_old_version = old_version, ev_new_version = new_version,
                ev_severity = s ''severity'' ''SAFE'', ev_class = s ''compatibility_classification'' ''SAFE'',
                ev_timestamp = s ''timestamp'' (isoformat t), ev_diffs = summary,
                ev_consumers = consumers\<rparr>)))))"

definition set_event_row :: "string \<Rightarrow> (event_dlq_row \<Rightarrow> event_dlq_row) \<Rightarrow> rdb \<Rightarrow> rdb" where
  "set_event_row i f db =
     db\<lparr>event_dlq := update_where (\<lambda>r. ed_id r = i) (\<lambda>r. (f r)\<lparr>ed_updated := now db\<rparr>) (event_dlq db)\<rparr>"

definition replay_event_dlq ::
  "publisher \<Rightarrow> string \<Rightarrow> rdb \<Rightarrow> string \<Rightarrow> mem_store option \<Rightarrow> (py_error + json) \<times> rdb \<times> mem_store option" where
  "replay_event_dlq pub publisher_name db dlq_id document_store =
     (case get_event_row db dlq_id of
        None \<Rightarrow> (Inr (JDict [(''replayed'', JBool False), (''error'', JStr ''dlq_not_found'')]), db, document_store)
      | Some row \<Rightarrow>
          if ed_status row = EV_REPLAYED then
            (Inr (JDict [(''replayed'', JBool True), (''dlq'', event_entry row), (''already_replayed'', JBool True)]),
             db, document_store)
          else
            (case event_of_row row (now db) of
               Inl err \<Rightarrow> (Inl err, db, document_store)
             | Inr event \<Rightarrow>
                 (let replay_error = pub 0 event;
                      db = (case replay_error of
                        None \<Rightarrow> set_event_row dlq_id (\<lambda>r. r\<lparr>ed_status := EV_REPLAYED,
                                  ed_replayed := Some (now db), ed_error := None\<rparr>) db
                      | Some err \<Rightarrow> set_event_row dlq_id (\<lambda>r. r\<lparr>ed_status := EV_PENDING,
                                  ed_count := ed_count r + 1, ed_error := Some err, ed_last := now db\<rparr>) db)
                  in case get_event_row db dlq_id of
                       None \<Rightarrow> (Inr (JDict [(''replayed'', JBool (replay_error = None)), (''dlq'', JNull)]), db, document_store)
                     | Some updated \<Rightarrow>
                         (let db = (if ed_status updated = EV_REPLAYED
                                    then db\<lparr>event_dlq_size := event_dlq_size db - 1\<rparr> else db);
                              artifact = JDict
                                [(''dlq_id'', JStr dlq_id), (''event_id'', JStr (ed_event updated)),
                                 (''endpoint_id'', JStr (ed_endpoint updated)), (''endpoint_name'', JStr (ed_name updated)),
                                 (''replayed'', JBool (ed_status updated = EV_REPLAYED)),
                                 (''replay_error'', opt_json JStr replay_error)];
                              store = map_option (\<lambda>st. snd (store_replay_artifact st
                                (replay_artifact_fields ''runtime-drift-event-dlq'' ''drift_event_replay'' artifact
                                  (Some [(''publisher'', JStr publisher_name)])) (now db))) document_store
                          in (Inr (case replay_error of
                                Some err \<Rightarrow> JDict [(''replayed'', JBool False), (''error'', JStr err),
                                                   (''dlq'', event_entry updated)]
                              | None \<Rightarrow> JDict [(''replayed'', JBool True), (''dlq'', event_entry updated)]),
                              db, store)))))"

definition api_drift_event_entry :: "rdb \<Rightarrow> string \<Rightarrow> py_error + json" where
  "api_drift_event_entry db i =
     (case get_event_row db i of
        None \<Rightarrow> Inl (HTTPException 404 ''drift event dlq entry not found'')
      | Some r \<Rightarrow> Inr (event_entry r))"

definition api_replay_drift_event ::
  "publisher \<Rightarrow> string \<Rightarrow> rdb \<Rightarrow> string \<Rightarrow> mem_store option \<Rightarrow> (py_error + json) \<times> rdb \<times> mem_store option" where
  "api_replay_drift_event pub publisher_name db dlq_id document_store =
     (let (res, db, st) = replay_event_dlq pub publisher_name db dlq_id document_store in
      (bind_err res (\<lambda>result.
         if \<not> truthy (jget_or result ''replayed'' JNull)
           \<and> py_eq (jget_or result ''error'' JNull) (JStr ''dlq_not_found'')
         then Inl (HTTPException 404 ''drift event dlq entry not found'') else Inr result), db, st))"

section \<open>The invariant of the queue\<close>

text \<open>One row per event and per identifier, and the gauge counts the rows that wait for a replay.\<close>

definition is_waiting :: "event_dlq_row \<Rightarrow> bool" where
  "is_waiting r \<longleftrightarrow> ed_status r = EV_PENDING"

definition event_dlq_ok :: "rdb \<Rightarrow> bool" where
  "event_dlq_ok db \<longleftrightarrow>
     distinct (map ed_event (event_dlq db)) \<and> distinct (map ed_id (event_dlq db))
     \<and> list_all (\<lambda>r. issued (next_id db) (ed_id r)) (event_dlq db)
     \<and> event_dlq_size db = int (length (filter is_waiting (event_dlq db)))"

lemma event_dlq_ok_empty [simp]: "event_dlq_ok (empty_rdb t)"
  by (simp add: event_dlq_ok_def empty_rdb_def)

lemma filter_update_where_same:
  "(\<And>r. r \<in> set rows \<Longrightarrow> p r \<Longrightarrow> P (f r) = P r) \<Longrightarrow>
    length (filter P (update_where p f rows)) = length (filter P rows)"
  by (induction rows) (auto simp: update_where_def)

lemma filter_update_where_less:
  assumes "distinct (map g rows)" "r \<in> set rows" "P r" "\<not> P (f r)"
  shows "length (filter P rows) = Suc (length (filter P (update_where (\<lambda>x. g x = g r) f rows)))"
  using assms
proof (induction rows)
  case (Cons x rows)
  show ?case
  proof (cases "x = r")
    case True
    with Cons.prems(1) have "y \<in> set rows \<Longrightarrow> g y \<noteq> g r" for y
      by (metis distinct.simps(2) image_eqI list.simps(9) set_map)
    then have "update_where (\<lambda>x. g x = g r) f rows = rows" by (intro update_where_none) blast
    then show ?thesis using True Cons.prems by (simp add: update_where_def)
  next
    case False
    then have "r \<in> set rows" "g x \<noteq> g r" using Cons.prems(1,2) by force+
    then show ?thesis using Cons by (simp add: update_where_def)
  qed
qed simp

lemma record_event_rows:
  "event_dlq (record_event_failure db e reason name) =
     snd (upsert_row ed_event event_merge (new_event_row db (gen_uuid (next_id db)) e reason name) (event_dlq db))"
  "event_dlq_size (record_event_failure db e reason name) = event_dlq_size db
     + of_bool (ev_id e \<notin> ed_event ` set (event_dlq db))"
  "next_id (record_event_failure db e reason name) = Suc (next_id db)"
  using edlq.upsert_inserted [of "new_event_row db (gen_uuid (next_id db)) e reason name" "event_dlq db"]
  by (simp_all add: record_event_failure_def fresh_id_def Let_def case_prod_unfold new_event_row_def)

lemma record_event_ok:
  assumes ok: "event_dlq_ok db" shows "event_dlq_ok (record_event_failure db e reason name)"
proof -
  let ?new = "new_event_row db (gen_uuid (next_id db)) e reason name"
  have new: "ed_event ?new = ev_id e" "ed_id ?new = gen_uuid (next_id db)" "is_waiting ?new"
    by (simp_all add: new_event_row_def is_waiting_def)
  have d: "distinct (map ed_event (event_dlq (record_event_failure db e reason name)))"
    unfolding record_event_rows using ok by (intro edlq.upsert_distinct) (simp add: event_dlq_ok_def)
  show ?thesis
  proof (cases "ev_id e \<in> ed_event ` set (event_dlq db)")
    case True
    then have rows: "event_dlq (record_event_failure db e reason name) =
        update_where (\<lambda>r. ed_event r = ev_id e) (event_merge ?new) (event_dlq db)"
      by (simp add: record_event_rows upsert_row_def list_ex_key new)
    have ids: "map ed_id (update_where (\<lambda>r. ed_event r = ev_id e) (event_merge ?new) (event_dlq db)) = map ed_id (event_dlq db)"
      by (rule map_update_where) (simp add: event_merge_def)
    have "list_all (issued (Suc (next_id db))) (map ed_id (event_dlq db))"
      using ok by (auto simp: event_dlq_ok_def list_all_iff)
    then have "list_all (\<lambda>r. issued (Suc (next_id db)) (ed_id r)) (event_dlq (record_event_failure db e reason name))"
      unfolding rows ids [symmetric] by (simp add: list_all_iff)
    then show ?thesis
      using ok d True ids unfolding event_dlq_ok_def record_event_rows(2,3)
      by (simp add: rows filter_update_where_same event_merge_def is_waiting_def)
  next
    case False
    then have rows: "event_dlq (record_event_failure db e reason name) = event_dlq db @ [?new]"
      by (simp add: record_event_rows upsert_row_def list_ex_key new)
    have "gen_uuid (next_id db) \<notin> set (map ed_id (event_dlq db))"
      using ok issued_fresh [of "next_id db"] unfolding event_dlq_ok_def list_all_iff set_map
      by (metis imageE)
    then show ?thesis
      using ok d False new unfolding event_dlq_ok_def record_event_rows(2,3)
      by (simp add: rows list_all_iff)
  qed
qed

text \<open>The row of an identifier after its update.\<close>

lemma get_set_event_row:
  assumes "\<And>r. ed_id (f r) = ed_id r"
  shows "get_event_row (set_event_row i f db) i = map_option (\<lambda>r. (f r)\<lparr>ed_updated := now db\<rparr>) (get_event_row db i)"
proof (cases "get_event_row db i")
  case (Some r)
  then have "ed_id r = i" unfolding get_event_row_def by (rule row_at_SomeD [THEN conjunct2])
  then show ?thesis
    using Some row_at_update_where [of ed_id "\<lambda>r. (f r)\<lparr>ed_updated := now db\<rparr>" i i "event_dlq db"] assms
    by (simp add: get_event_row_def set_event_row_def)
next
  case None
  then show ?thesis
    using row_at_update_where [of ed_id "\<lambda>r. (f r)\<lparr>ed_updated := now db\<rparr>" i i "event_dlq db"] assms
    by (simp add: get_event_row_def set_event_row_def)
qed

lemma set_event_row_ok:
  assumes ok: "event_dlq_ok db" and r: "get_event_row db i = Some r" "is_waiting r"
    and f: "\<And>r. ed_id (f r) = ed_id r" "\<And>r. ed_event (f r) = ed_event r"
  shows "is_waiting (f r) \<Longrightarrow> (\<And>x. is_waiting (f x)) \<Longrightarrow> event_dlq_ok (set_event_row i f db)"
    and "(\<And>x. \<not> is_waiting (f x)) \<Longrightarrow>
      event_dlq_ok ((set_event_row i f db)\<lparr>event_dlq_size := event_dlq_size db - 1\<rparr>)"
proof -
  let ?rows = "update_where (\<lambda>r. ed_id r = i) (\<lambda>r. (f r)\<lparr>ed_updated := now db\<rparr>) (event_dlq db)"
  have keep: "map ed_id ?rows = map ed_id (event_dlq db)" "map ed_event ?rows = map ed_event (event_dlq db)"
    by (rule map_update_where, simp add: f)+
  have "list_all (issued (next_id db)) (map ed_id (event_dlq db))"
    using ok by (auto simp: event_dlq_ok_def list_all_iff)
  then have iss: "list_all (\<lambda>r. issued (next_id db) (ed_id r)) ?rows"
    unfolding keep(1) [symmetric] by (simp add: list_all_iff)
  have rin: "r \<in> set (event_dlq db)" "ed_id r = i"
    using r(1) row_at_SomeD [of ed_id i "event_dlq db" r] by (simp_all add: get_event_row_def)
  have "x = r" if "x \<in> set (event_dlq db)" "ed_id x = i" for x
    using ok that rin unfolding event_dlq_ok_def by (metis distinct_map inj_onD)
  then have same: "(\<And>x. is_waiting (f x)) \<Longrightarrow> length (filter is_waiting ?rows) = length (filter is_waiting (event_dlq db))"
    by (intro filter_update_where_same) (use r(2) in \<open>auto simp: is_waiting_def\<close>)
  show "event_dlq_ok (set_event_row i f db)" if "is_waiting (f r)" "\<And>x. is_waiting (f x)"
    using ok keep iss same [OF that(2)] by (simp add: event_dlq_ok_def set_event_row_def)
  show "event_dlq_ok ((set_event_row i f db)\<lparr>event_dlq_size := event_dlq_size db - 1\<rparr>)" if "\<And>x. \<not> is_waiting (f x)"
  proof -
    have "length (filter is_waiting (event_dlq db)) = Suc (length (filter is_waiting ?rows))"
      using filter_update_where_less [of ed_id "event_dlq db" r is_waiting "\<lambda>r. (f r)\<lparr>ed_updated := now db\<rparr>"]
        ok rin r(2) that by (simp add: event_dlq_ok_def is_waiting_def)
    then show ?thesis using ok keep iss by (simp add: event_dlq_ok_def set_event_row_def)
  qed
qed

lemma event_dlq_ok_frame:
  "event_dlq db' = event_dlq db \<Longrightarrow> event_dlq_size db' = event_dlq_size db \<Longrightarrow> next_id db' = next_id db \<Longrightarrow>
    event_dlq_ok db' = event_dlq_ok db"
  by (simp add: event_dlq_ok_def)

lemma event_of_payload: "ed_payload row = event_payload e \<Longrightarrow> event_of_row row t = Inr e"
  by (simp add: event_of_row_def event_payload_def event_fields_def jget_or_def Let_def)

text \<open>What a replay does to a row that waits.\<close>

lemma replay_waiting:
  assumes row: "get_event_row db i = Some row" "ed_status row = EV_PENDING"
    and ev: "event_of_row row (now db) = Inr e"
    and rep: "replay_event_dlq pub name db i st = (res, db', st')"
  shows "(case pub 0 e of
      None \<Rightarrow> db' = (set_event_row i (\<lambda>r. r\<lparr>ed_status := EV_REPLAYED, ed_replayed := Some (now db), ed_error := None\<rparr>) db)
          \<lparr>event_dlq_size := event_dlq_size db - 1\<rparr>
        \<and> (\<exists>r. res = Inr (JDict [(''replayed'', JBool True), (''dlq'', event_entry r)])
              \<and> get_event_row db' i = Some r \<and> ed_status r = EV_REPLAYED)
    | Some err \<Rightarrow> db' = set_event_row i (\<lambda>r. r\<lparr>ed_status := EV_PENDING, ed_count := ed_count r + 1,
            ed_error := Some err, ed_last := now db\<rparr>) db
        \<and> (\<exists>r. res = Inr (JDict [(''replayed'', JBool False), (''error'', JStr err), (''dlq'', event_entry r)])
              \<and> get_event_row db' i = Some r \<and> ed_status r = EV_PENDING \<and> ed_count r = ed_count row + 1
              \<and> ed_payload r = ed_payload row))"
proof -
  have gauge: "get_event_row (x\<lparr>event_dlq_size := n\<rparr>) i = get_event_row x i" for x n
    by (simp add: get_event_row_def)
  have sz: "event_dlq_size (set_event_row i f x) = event_dlq_size x" for f x
    by (simp add: set_event_row_def)
  show ?thesis
  proof (cases "pub 0 e")
    case None
    let ?set = "set_event_row i (\<lambda>r. r\<lparr>ed_status := EV_REPLAYED, ed_replayed := Some (now db), ed_error := None\<rparr>) db"
    let ?row = "row\<lparr>ed_status := EV_REPLAYED, ed_replayed := Some (now db), ed_error := None, ed_updated := now db\<rparr>"
    have g: "get_event_row ?set i = Some ?row"
      by (subst get_set_event_row) (simp_all add: row(1))
    have "res = Inr (JDict [(''replayed'', JBool True), (''dlq'', event_entry ?row)])"
      "db' = ?set\<lparr>event_dlq_size := event_dlq_size db - 1\<rparr>"
      using rep by (simp_all add: replay_event_dlq_def row ev None Let_def g sz)
    then show ?thesis
      using g by (simp add: None gauge exI [of _ ?row])
  next
    case (Some err)
    let ?set = "set_event_row i (\<lambda>r. r\<lparr>ed_status := EV_PENDING, ed_count := ed_count r + 1,
            ed_error := Some err, ed_last := now db\<rparr>) db"
    let ?row = "row\<lparr>ed_status := EV_PENDING, ed_count := ed_count row + 1, ed_error := Some err,
            ed_last := now db, ed_updated := now db\<rparr>"
    have g: "get_event_row ?set i = Some ?row"
      by (subst get_set_event_row) (simp_all add: row(1))
    have "res = Inr (JDict [(''replayed'', JBool False), (''error'', JStr err), (''dlq'', event_entry ?row)])"
      "db' = ?set"
      using rep by (simp_all add: replay_event_dlq_def row ev Some Let_def g sz)
    then show ?thesis
      using g by (simp add: Some gauge exI [of _ ?row])
  qed
qed

lemma replay_keeps_ok:
  assumes ok: "event_dlq_ok db" and rep: "replay_event_dlq pub name db i st = (res, db', st')"
  shows "event_dlq_ok db'"
proof (cases "get_event_row db i")
  case None
  then show ?thesis using ok rep by (auto simp: replay_event_dlq_def)
next
  case (Some row)
  show ?thesis
  proof (cases "ed_status row = EV_REPLAYED")
    case True
    then show ?thesis using ok rep Some by (auto simp: replay_event_dlq_def)
  next
    case False
    then have pending: "ed_status row = EV_PENDING" by (cases "ed_status row") simp_all
    then have waiting: "is_waiting row" by (simp add: is_waiting_def)
    show ?thesis
    proof (cases "event_of_row row (now db)")
      case (Inl err)
      then show ?thesis using ok rep Some pending by (auto simp: replay_event_dlq_def)
    next
      case (Inr e)
      note R = replay_waiting [OF Some pending Inr rep]
      show ?thesis
      proof (cases "pub 0 e")
        case None
        with R have "db' = (set_event_row i (\<lambda>r. r\<lparr>ed_status := EV_REPLAYED, ed_replayed := Some (now db), ed_error := None\<rparr>) db)
          \<lparr>event_dlq_size := event_dlq_size db - 1\<rparr>" by simp
        then show ?thesis
          using set_event_row_ok(2) [OF ok Some waiting] by (simp add: is_waiting_def)
      next
        case (Some err)
        with R have "db' = set_event_row i (\<lambda>r. r\<lparr>ed_status := EV_PENDING, ed_count := ed_count r + 1,
            ed_error := Some err, ed_last := now db\<rparr>) db" by simp
        then show ?thesis
          using set_event_row_ok(1) [OF ok \<open>get_event_row db i = Some row\<close> waiting] by (simp add: is_waiting_def)
      qed
    qed
  qed
qed

section \<open>The retry loop\<close>

lemma publish_loop_spec:
  assumes "k \<le> m" and "publish_loop pub e m w n [k..m] = (res, calls, waits)"
  shows "n < calls \<and> calls \<le> n + nat (m - k) + 1 \<and> res = pub (calls - 1) e
    \<and> (\<forall>j. n \<le> j \<longrightarrow> j < calls - 1 \<longrightarrow> pub j e \<noteq> None)
    \<and> (res \<noteq> None \<longrightarrow> calls = n + nat (m - k) + 1)
    \<and> waits = map (\<lambda>j. w * 2 ^ j) [0..<calls - n - 1]"
  using assms
proof (induction "nat (m - k)" arbitrary: k w n waits)
  case 0
  then have "k = m" "[k..m] = [m]" by simp_all
  then show ?case using 0 by (auto split: option.splits)
next
  case (Suc d)
  then have k: "k < m" "d = nat (m - (k + 1))" by simp_all
  then have ks: "[k..m] = k # [k + 1..m]" by (simp add: upto_rec1)
  show ?case
  proof (cases "pub n e")
    case None
    then show ?thesis using Suc.prems by (auto simp: ks)
  next
    case (Some err)
    obtain waits' where rest: "publish_loop pub e m (w * 2) (Suc n) [k + 1..m] = (res, calls, waits')"
      and waits: "waits = w # waits'"
      using Suc.prems(2) Some k by (auto simp: ks split: prod.splits)
    from k have "k + 1 \<le> m" by simp
    from Suc.hyps(1) [OF k(2) this rest]
    have IH: "Suc n < calls" "calls \<le> Suc n + nat (m - (k + 1)) + 1" "res = pub (calls - 1) e"
      "\<forall>j. Suc n \<le> j \<longrightarrow> j < calls - 1 \<longrightarrow> pub j e \<noteq> None"
      "res \<noteq> None \<longrightarrow> calls = Suc n + nat (m - (k + 1)) + 1"
      "waits' = map (\<lambda>j. w * 2 * 2 ^ j) [0..<calls - Suc n - 1]" by blast+
    have nat: "nat (m - k) = Suc (nat (m - (k + 1)))" using k by simp
    have q: "calls - n - 1 = Suc (calls - Suc n - 1)" using IH(1) by simp
    have up: "[0..<Suc q] = 0 # map Suc [0..<q]" for q
      by (simp only: map_Suc_upt upt_conv_Cons zero_less_Suc)
    have w: "waits = map (\<lambda>j. w * 2 ^ j) [0..<calls - n - 1]"
      unfolding waits IH(6) q up by (simp add: comp_def mult.assoc)
    have failed: "pub j e \<noteq> None" if "n \<le> j" "j < calls - 1" for j
      using IH(4) Some that by (cases "j = n") auto
    have "n < calls" "calls \<le> n + nat (m - k) + 1" using IH(1,2) nat by linarith+
    moreover have "res \<noteq> None \<longrightarrow> calls = n + nat (m - k) + 1" using IH(5) nat by linarith
    ultimately show ?thesis using IH(3) failed w by blast
  qed
qed

lemma publish_retry_facts:
  assumes r: "1 \<le> retries" and p: "publish_with_retry pub e retries = (res, calls, waits)"
  shows "0 < calls" "calls \<le> nat retries" "res = pub (calls - 1) e" "\<forall>j < calls - 1. pub j e \<noteq> None"
    "res = None \<longleftrightarrow> (\<exists>j < nat retries. pub j e = None)" "waits = map (\<lambda>j. 50 * 2 ^ j) [0..<calls - 1]"
proof -
  note L = publish_loop_spec [OF r p [unfolded publish_with_retry_def]]
  have n: "nat (retries - 1) + 1 = nat retries" using r by linarith
  show pos: "0 < calls" using L by blast
  have "calls \<le> 0 + nat (retries - 1) + 1" using L by blast
  then show le: "calls \<le> nat retries" using n by linarith
  show res: "res = pub (calls - 1) e" using L by blast
  show failed: "\<forall>j < calls - 1. pub j e \<noteq> None" using L le0 by blast
  have all: "res \<noteq> None \<Longrightarrow> calls = nat retries" using L n by (metis add_0)
  show "res = None \<longleftrightarrow> (\<exists>j < nat retries. pub j e = None)"
  proof
    assume "res = None"
    moreover have "calls - 1 < nat retries" using pos le by linarith
    ultimately show "\<exists>j < nat retries. pub j e = None" using res by metis
  next
    assume "\<exists>j < nat retries. pub j e = None"
    then obtain j where j: "j < nat retries" "pub j e = None" by blast
    show "res = None"
    proof (rule ccontr)
      assume nn: "res \<noteq> None"
      then have "j = calls - 1 \<or> j < calls - 1" using j(1) all by linarith
      then show False using j(2) nn res failed by metis
    qed
  qed
  have "waits = map (\<lambda>j. 50 * 2 ^ j) [0..<calls - 0 - 1]" using L by blast
  then show "waits = map (\<lambda>j. 50 * 2 ^ j) [0..<calls - 1]" by simp
qed

section \<open>Properties\<close>

text \<open>Publishing with at least one retry calls the publisher until it returns, at most \<open>retries\<close>
  times: it returns exactly when one of these calls does, otherwise it raises what the last call
  raised; before the \<open>j\<close>-th repetition it waits \<open>50 * 2 ^ j\<close> milliseconds. With no retry at all it
  returns as if it had published, without a call.\<close>

theorem publish_retries:
  assumes "publish_with_retry pub e retries = (res, calls, waits)"
  shows "(if 1 \<le> retries
      then 0 < calls \<and> calls \<le> nat retries \<and> res = pub (calls - 1) e \<and> (\<forall>j < calls - 1. pub j e \<noteq> None)
        \<and> (res = None \<longleftrightarrow> (\<exists>j < nat retries. pub j e = None))
        \<and> waits = map (\<lambda>j. 50 * 2 ^ j) [0..<calls - 1]
      else res = None \<and> calls = 0 \<and> waits = [])"
proof (cases "1 \<le> retries")
  case True
  with publish_retry_facts [OF True assms] show ?thesis by metis
next
  case False
  then have "[1..retries] = []" by simp
  then show ?thesis using assms False by (simp add: publish_with_retry_def)
qed

lemma publish_retries_witness:
  "\<exists>waits. publish_with_retry (\<lambda>n e. if n < 2 then Some ''OSError: down'' else None)
      \<lparr>ev_id = ''ev'', ev_endpoint = ''e'', ev_name = ''s GET /x'', ev_namespace = ''n'', ev_old_fp = ''f'', ev_new_fp = ''g'',
       ev_old_version = 1, ev_new_version = 2, ev_severity = ''RISKY'', ev_class = ''RISKY'', ev_timestamp = ''t'',
       ev_diffs = [], ev_consumers = 0\<rparr> 3 = (None, 3, waits) \<and> waits = [50, 100]"
proof -
  let ?pub = "\<lambda>n e. if n < (2::nat) then Some ''OSError: down'' else None"
  let ?e = "\<lparr>ev_id = ''ev'', ev_endpoint = ''e'', ev_name = ''s GET /x'', ev_namespace = ''n'', ev_old_fp = ''f'', ev_new_fp = ''g'',
       ev_old_version = 1, ev_new_version = 2, ev_severity = ''RISKY'', ev_class = ''RISKY'', ev_timestamp = ''t'',
       ev_diffs = [], ev_consumers = 0\<rparr>"
  obtain res calls waits where p: "publish_with_retry ?pub ?e 3 = (res, calls, waits)" by (metis prod_cases3)
  have "(\<exists>j < nat 3. ?pub j ?e = None)" by (rule exI [of _ 2]) simp
  moreover have "(1::int) \<le> 3" by simp
  ultimately have r: "res = None" "calls \<le> nat 3" "res = ?pub (calls - 1) ?e"
    "waits = map (\<lambda>j. 50 * 2 ^ j) [0..<calls - 1]" using publish_retries [OF p] by metis+
  have "?pub (calls - 1) ?e = None" using r(3) unfolding r(1) by (rule sym)
  then have "\<not> calls - 1 < 2" by (rule contrapos_pn) simp
  with r(2) have c: "calls = 3" by simp
  have "[0..<3 - 1] = [0, 1::nat]" by code_simp
  then have "waits = map (\<lambda>j. 50 * 2 ^ j) [0, 1::nat]" using r(4) unfolding c by metis
  then have w: "waits = [50, 100]" by simp
  show ?thesis by (rule exI [of _ waits], rule conjI [OF _ w]) (rule p [unfolded r(1) c])
qed

text \<open>C31: No drift event is lost: when every attempt to publish it fails, the event is in the dead
  letter queue, waiting, with a payload from which exactly this event is rebuilt; when an attempt
  succeeds the database is unchanged.\<close>

theorem unpublished_event_is_kept:
  assumes "row_at ed_event (ev_id e) (event_dlq db) = None"
  shows "(if \<exists>j < 3. pub j e = None then publish_fire_and_forget pub name db e = db
      else (\<exists>r. row_at ed_event (ev_id e) (event_dlq (publish_fire_and_forget pub name db e)) = Some r
        \<and> ed_status r = EV_PENDING \<and> ed_publisher r = name \<and> event_of_row r t = Inr e))"
proof -
  obtain res calls waits where p: "publish_with_retry pub e 3 = (res, calls, waits)" by (metis prod_cases3)
  have iff: "res = None \<longleftrightarrow> (\<exists>j < 3. pub j e = None)" using publish_retry_facts(5) [OF _ p] by simp
  show ?thesis
  proof (cases res)
    case None
    then show ?thesis using iff p by (simp add: publish_fire_and_forget_def)
  next
    case (Some err)
    let ?db = "db\<lparr>publish_failures := Suc (publish_failures db)\<rparr>"
    let ?new = "new_event_row ?db (gen_uuid (next_id db)) e (''publish failed via '' @ name) name"
    have "event_dlq (publish_fire_and_forget pub name db e) = snd (upsert_row ed_event event_merge ?new (event_dlq db))"
      using p Some record_event_rows(1) [of ?db] by (simp add: publish_fire_and_forget_def)
    moreover have "ed_event ?new = ev_id e" by (simp add: new_event_row_def)
    ultimately have "row_at ed_event (ev_id e) (event_dlq (publish_fire_and_forget pub name db e)) = Some ?new"
      using assms edlq.upsert_row_at [of "ev_id e" ?new "event_dlq db"] by simp
    moreover have "ed_status ?new = EV_PENDING" "ed_publisher ?new = name" "event_of_row ?new t = Inr e"
      using event_of_payload [of ?new e t] by (simp_all add: new_event_row_def)
    moreover have "\<not> (\<exists>j < 3. pub j e = None)" using iff Some by simp
    ultimately show ?thesis by auto
  qed
qed

lemma unpublished_event_is_kept_witness:
  "\<exists>r. row_at ed_event ''ev'' (event_dlq (publish_fire_and_forget (\<lambda>n e. Some ''OSError: down'') ''P'' (empty_rdb 0)
      \<lparr>ev_id = ''ev'', ev_endpoint = ''e'', ev_name = ''s GET /x'', ev_namespace = ''n'', ev_old_fp = ''f'', ev_new_fp = ''g'',
       ev_old_version = 1, ev_new_version = 2, ev_severity = ''RISKY'', ev_class = ''RISKY'', ev_timestamp = ''t'',
       ev_diffs = [], ev_consumers = 0\<rparr>)) = Some r \<and> ed_status r = EV_PENDING"
  using unpublished_event_is_kept [of "\<lparr>ev_id = ''ev'', ev_endpoint = ''e'', ev_name = ''s GET /x'', ev_namespace = ''n'',
       ev_old_fp = ''f'', ev_new_fp = ''g'', ev_old_version = 1, ev_new_version = 2, ev_severity = ''RISKY'',
       ev_class = ''RISKY'', ev_timestamp = ''t'', ev_diffs = [], ev_consumers = 0\<rparr>" "empty_rdb 0" "\<lambda>n e. Some ''OSError: down''" "''P''" 0]
  by (auto simp: empty_rdb_def)

text \<open>Replaying a waiting dead letter publishes the stored event exactly as it was: if the
  publisher returns, the row becomes REPLAYED and every later replay is answered without publishing
  and without any change; if it raises, the row keeps waiting with one more attempt counted and the
  same payload.\<close>

theorem event_replay:
  assumes "get_event_row db i = Some row" and "ed_status row = EV_PENDING" and "ed_payload row = event_payload e"
    and "replay_event_dlq pub name db i st = (res, db', st')"
  shows "(case pub 0 e of
      None \<Rightarrow> (\<exists>r. get_event_row db' i = Some r \<and> ed_status r = EV_REPLAYED
        \<and> (\<forall>pub' st2. replay_event_dlq pub' name db' i st2 =
            (Inr (JDict [(''replayed'', JBool True), (''dlq'', event_entry r), (''already_replayed'', JBool True)]), db', st2)))
    | Some err \<Rightarrow> (\<exists>r. get_event_row db' i = Some r \<and> ed_status r = EV_PENDING
        \<and> ed_count r = ed_count row + 1 \<and> ed_payload r = event_payload e
        \<and> res = Inr (JDict [(''replayed'', JBool False), (''error'', JStr err), (''dlq'', event_entry r)])))"
  using replay_waiting [OF assms(1,2) event_of_payload [OF assms(3)] assms(4)]
  by (auto simp: replay_event_dlq_def assms(3) split: option.splits)

lemma event_replay_witness:
  "\<exists>r db'. fst (snd (replay_event_dlq (\<lambda>n e. None) ''P'' (record_event_failure (empty_rdb 0)
      \<lparr>ev_id = ''ev'', ev_endpoint = ''e'', ev_name = ''s GET /x'', ev_namespace = ''n'', ev_old_fp = ''f'', ev_new_fp = ''g'',
       ev_old_version = 1, ev_new_version = 2, ev_severity = ''RISKY'', ev_class = ''RISKY'', ev_timestamp = ''t'',
       ev_diffs = [], ev_consumers = 0\<rparr> ''down'' ''P'') (gen_uuid 0) None)) = db'
    \<and> get_event_row db' (gen_uuid 0) = Some r \<and> ed_status r = EV_REPLAYED"
proof -
  let ?e = "\<lparr>ev_id = ''ev'', ev_endpoint = ''e'', ev_name = ''s GET /x'', ev_namespace = ''n'', ev_old_fp = ''f'', ev_new_fp = ''g'',
       ev_old_version = 1, ev_new_version = 2, ev_severity = ''RISKY'', ev_class = ''RISKY'', ev_timestamp = ''t'',
       ev_diffs = [], ev_consumers = 0\<rparr>"
  let ?db = "record_event_failure (empty_rdb 0) ?e ''down'' ''P''"
  let ?row = "new_event_row (empty_rdb 0) (gen_uuid 0) ?e ''down'' ''P''"
  obtain res db' st' where r: "replay_event_dlq (\<lambda>n e. None) ''P'' ?db (gen_uuid 0) None = (res, db', st')"
    by (metis prod_cases3)
  have "event_dlq ?db = [?row]"
    by (simp add: record_event_rows upsert_row_def empty_rdb_def)
  then have "get_event_row ?db (gen_uuid 0) = Some ?row" by (simp add: get_event_row_def row_at_def new_event_row_def)
  moreover have "ed_status ?row = EV_PENDING" "ed_payload ?row = event_payload ?e" by (simp_all add: new_event_row_def)
  ultimately have "\<exists>r. get_event_row db' (gen_uuid 0) = Some r \<and> ed_status r = EV_REPLAYED"
    using event_replay [OF _ _ _ r] by fastforce
  with r show ?thesis by auto
qed

text \<open>The gauge \<open>drift_event_dlq_size\<close> is the number of dead letters that wait for a replay, not
  the number of rows: recording a failure and replaying a row, with any publisher, keep it so, and
  keep one row per event.\<close>

theorem event_gauge_counts_waiting:
  assumes "event_dlq_ok db"
  shows "event_dlq_ok (record_event_failure db e reason name)
    \<and> event_dlq_ok (fst (snd (replay_event_dlq pub name db i st)))"
  using record_event_ok [OF assms] replay_keeps_ok [OF assms]
  by (metis prod.collapse)

lemma event_gauge_counts_waiting_witness:
  "event_dlq_ok (fst (snd (replay_event_dlq (\<lambda>n e. None) ''P'' (empty_rdb 0) ''i'' None)))"
  using event_gauge_counts_waiting [OF event_dlq_ok_empty] by blast

end
