(* ===== verification/Review_Providers.thy ===== *)
theory Review_Providers
  imports Review_Heuristic Event_Dlq
begin

text \<open>
  \<^verbatim>\<open>app/runtime/contract_review.py\<close>, second part: the providers of a review. A provider maps the
  evidence and its two summaries to a review or an exception. What the model providers use from
  outside is a record of parameters: the renderer of the prompt templates, the HTTP call (the
  decoded answer, or the exception it or \<open>raise_for_status\<close> raised) and the parser of the
  model's output. \<open>ContractReviewOutcome.model_validate\<close> returns an instance as it is.
\<close>

type_synonym review_provider = "evidence \<Rightarrow> string \<Rightarrow> string \<Rightarrow> py_error + outcome"

section \<open>Providers without a model\<close>

definition disabled_generate :: review_provider where
  "disabled_generate e evidence_summary consumer_impact =
     build_heuristic_review e evidence_summary consumer_impact None"

definition fake_generate ::
  "outcome option \<Rightarrow> (evidence \<Rightarrow> string \<Rightarrow> string \<Rightarrow> outcome) option \<Rightarrow> review_provider" where
  "fake_generate fixed factory e evidence_summary consumer_impact =
     (case factory of
        Some f \<Rightarrow> Inr (f e evidence_summary consumer_impact)
      | None \<Rightarrow>
          (case fixed of
             Some r \<Rightarrow> Inr r
           | None \<Rightarrow> build_heuristic_review e evidence_summary consumer_impact None))"

section \<open>Prompts\<close>

definition item_json :: "evidence_item \<Rightarrow> json" where
  "item_json item = JDict [(''citation'', JStr (it_citation item)), (''kind'', JStr (it_kind item)),
     (''summary'', JStr (it_summary item)), (''details'', JDict (it_details item))]"

definition items_text :: "evidence_item list \<Rightarrow> string" where
  "items_text items = json_indent 0 (JList (map item_json items))"

definition system_template :: string where
  "system_template = ''You are DRIFTGATE's contract review agent. Use only the supplied evidence. Return JSON only and never invent facts.''"

definition human_template :: string where
  "human_template =
     ''Endpoint: {endpoint_name}'' @ nl @ ''Route: {http_method} {route_path}'' @ nl
     @ ''Diff summary:'' @ nl @ ''{evidence_summary}'' @ nl @ nl
     @ ''Consumer impact:'' @ nl @ ''{consumer_impact}'' @ nl @ nl
     @ ''Evidence JSON:'' @ nl @ ''{evidence_json}'' @ nl @ nl
     @ ''Validation failures:'' @ nl @ ''{validation_json}'' @ nl @ nl
     @ ''DLQ context:'' @ nl @ ''{dlq_json}'' @ nl @ nl @ ''{format_instructions}''"

text \<open>The variables of the prompt; the local model is shown fewer kinds of items.\<close>

definition prompt_vars :: "evidence_item list \<Rightarrow> evidence \<Rightarrow> string \<Rightarrow> string \<Rightarrow> string \<Rightarrow> string pydict" where
  "prompt_vars items e evidence_summary consumer_impact format_instructions =
     [(''endpoint_name'', ev_endpoint_name e), (''http_method'', ev_method e), (''route_path'', ev_route e),
      (''evidence_summary'', evidence_summary), (''consumer_impact'', consumer_impact),
      (''evidence_json'', items_text items), (''validation_json'', items_text (ev_validations e)),
      (''dlq_json'', items_text (ev_dlq e @ ev_attempts e)), (''format_instructions'', format_instructions)]"

definition ollama_items :: "evidence \<Rightarrow> evidence_item list" where
  "ollama_items e = ev_schema_diffs e @ ev_snapshots e @ ev_dlq e @ ev_violations e"

section \<open>Model calls\<close>

record model_world =
  mw_render :: "string \<Rightarrow> string \<Rightarrow> string pydict \<Rightarrow> string \<times> string"
  mw_post :: "string \<Rightarrow> string pydict \<Rightarrow> string pydict \<Rightarrow> json \<Rightarrow> py_error + json"
  mw_parse :: "json \<Rightarrow> py_error + outcome"
  mw_instructions :: string

text \<open>\<open>j.get(k, default)\<close> and \<open>j[0]\<close> on a decoded answer.\<close>

definition answer_get :: "string \<Rightarrow> json \<Rightarrow> json \<Rightarrow> py_error + json" where
  "answer_get k dflt j =
     (if is_dict j then Inr (jget_or j k dflt) else Inl (TypeError ''object has no attribute get''))"

definition answer_first :: "json \<Rightarrow> py_error + json" where
  "answer_first j =
     (case j of
        JList (x # xs) \<Rightarrow> Inr x
      | JList [] \<Rightarrow> Inl (KeyError ''list index out of range'')
      | JStr (c # s) \<Rightarrow> Inr (JStr [c])
      | _ \<Rightarrow> Inl (TypeError ''object is not subscriptable''))"

definition chat_messages :: "string \<times> string \<Rightarrow> json" where
  "chat_messages prompt = JList
     [JDict [(''role'', JStr ''system''), (''content'', JStr (fst prompt))],
      JDict [(''role'', JStr ''user''), (''content'', JStr (snd prompt))]]"

definition ollama_call :: "model_world \<Rightarrow> string \<Rightarrow> string \<Rightarrow> review_provider" where
  "ollama_call w base_url model_name e evidence_summary consumer_impact =
     (let prompt = mw_render w system_template human_template
            (prompt_vars (ollama_items e) e evidence_summary consumer_impact (mw_instructions w));
          payload = JDict [(''model'', JStr model_name), (''messages'', chat_messages prompt),
            (''stream'', JBool False),
            (''options'', JDict [(''temperature'', JInt 0), (''num_predict'', JInt 1024)])]
      in bind_err (mw_post w (base_url @ ''/api/chat'') [] [] payload) (\<lambda>data.
         bind_err (answer_get ''message'' (JDict []) data) (\<lambda>message.
         bind_err (answer_get ''content'' (JStr []) message) (\<lambda>content.
         mw_parse w content))))"

definition openai_call :: "model_world \<Rightarrow> string \<Rightarrow> string \<Rightarrow> string \<Rightarrow> review_provider" where
  "openai_call w api_key base_url model_name e evidence_summary consumer_impact =
     (let prompt = mw_render w system_template human_template
            (prompt_vars (cited_items e) e evidence_summary consumer_impact (mw_instructions w));
          payload = JDict [(''model'', JStr model_name), (''messages'', chat_messages prompt),
            (''temperature'', JInt 0), (''response_format'', JDict [(''type'', JStr ''json_object'')])]
      in bind_err (mw_post w (base_url @ ''/v1/chat/completions'') [(''Authorization'', ''Bearer '' @ api_key)] [] payload) (\<lambda>data.
         bind_err (answer_get ''choices'' (JList [JDict []]) data) (\<lambda>choices.
         bind_err (answer_first choices) (\<lambda>choice.
         bind_err (answer_get ''message'' (JDict []) choice) (\<lambda>message.
         bind_err (answer_get ''content'' (JStr []) message) (\<lambda>content.
         mw_parse w content))))))"

definition gemini_call :: "model_world \<Rightarrow> string \<Rightarrow> string \<Rightarrow> string \<Rightarrow> review_provider" where
  "gemini_call w api_key base_url model_name e evidence_summary consumer_impact =
     (let prompt = mw_render w system_template human_template
            (prompt_vars (cited_items e) e evidence_summary consumer_impact (mw_instructions w));
          payload = JDict
            [(''contents'', JList [JDict [(''role'', JStr ''user''),
               (''parts'', JList [JDict [(''text'', JStr (fst prompt @ nl @ nl @ snd prompt))]])]]),
             (''generationConfig'', JDict [(''temperature'', JInt 0), (''maxOutputTokens'', JInt 1024)])]
      in bind_err (mw_post w (base_url @ ''/v1beta/models/'' @ model_name @ '':generateContent'') []
                     [(''key'', api_key)] payload) (\<lambda>data.
         bind_err (answer_get ''candidates'' (JList [JDict []]) data) (\<lambda>candidates.
         bind_err (answer_first candidates) (\<lambda>candidate.
         bind_err (answer_get ''content'' (JDict []) candidate) (\<lambda>content.
         bind_err (answer_get ''parts'' (JList [JDict []]) content) (\<lambda>parts.
         bind_err (answer_first parts) (\<lambda>part.
         bind_err (answer_get ''text'' (JStr []) part) (\<lambda>text.
         mw_parse w text))))))))"

definition fallback_reason :: string where
  "fallback_reason = ''Model generation failed; using evidence-only fallback review.''"

text \<open>A call whose exceptions are replaced by the derived review.\<close>

definition or_derived :: "review_provider \<Rightarrow> review_provider" where
  "or_derived call e evidence_summary consumer_impact =
     (case call e evidence_summary consumer_impact of
        Inr r \<Rightarrow> Inr r
      | Inl err \<Rightarrow> build_heuristic_review e evidence_summary consumer_impact (Some fallback_reason))"

definition ollama_generate :: "model_world \<Rightarrow> string \<Rightarrow> string \<Rightarrow> string option \<Rightarrow> review_provider" where
  "ollama_generate w base_url model_name fallback_model_name =
     or_derived (\<lambda>e evidence_summary consumer_impact.
       case ollama_call w base_url model_name e evidence_summary consumer_impact of
         Inr r \<Rightarrow> Inr r
       | Inl err \<Rightarrow>
           (case fallback_model_name of
              Some fallback \<Rightarrow>
                if fallback \<noteq> [] \<and> fallback \<noteq> model_name
                then ollama_call w base_url fallback e evidence_summary consumer_impact
                else Inl err
            | None \<Rightarrow> Inl err))"

definition openai_generate :: "model_world \<Rightarrow> string \<Rightarrow> string \<Rightarrow> string \<Rightarrow> review_provider" where
  "openai_generate w api_key base_url model_name = or_derived (openai_call w api_key base_url model_name)"

definition gemini_generate :: "model_world \<Rightarrow> string \<Rightarrow> string \<Rightarrow> string \<Rightarrow> review_provider" where
  "gemini_generate w api_key base_url model_name = or_derived (gemini_call w api_key base_url model_name)"

section \<open>The choice of a provider\<close>

datatype provider_choice =
    Disabled
  | Fake
  | OpenAI string string string int
  | Gemini string string string int
  | Ollama string string "string option" int

text \<open>\<open>os.getenv(k, default)\<close>; \<open>base_url.rstrip("/")\<close>; \<open>int(os.getenv("AI_TIMEOUT_SECONDS", "20"))\<close>.\<close>

definition getenv :: "(string \<Rightarrow> string option) \<Rightarrow> string \<Rightarrow> string \<Rightarrow> string" where
  "getenv env k dflt = (case env k of None \<Rightarrow> dflt | Some v \<Rightarrow> v)"

definition strip_slashes :: "string \<Rightarrow> string" where
  "strip_slashes s = rev (dropWhile (\<lambda>c. c = CHR ''/'') (rev s))"

definition timeout_seconds :: "(string \<Rightarrow> string option) \<Rightarrow> py_error + int" where
  "timeout_seconds env = py_int (JStr (getenv env ''AI_TIMEOUT_SECONDS'' ''20''))"

definition ollama_choice :: "(string \<Rightarrow> string option) \<Rightarrow> py_error + provider_choice" where
  "ollama_choice env =
     bind_err (timeout_seconds env) (\<lambda>t.
       Inr (Ollama (strip_slashes (getenv env ''OLLAMA_BASE_URL'' ''http://localhost:11434''))
              (getenv env ''AI_MODEL'' ''qwen2.5-coder:7b'')
              (let f = getenv env ''AI_FALLBACK_MODEL'' ''llama3.1:8b'' in if f = [] then None else Some f) t))"

definition build_review_provider :: "(string \<Rightarrow> string option) \<Rightarrow> py_error + provider_choice" where
  "build_review_provider env =
     (let provider = py_lower (py_strip (getenv env ''AI_PROVIDER'' ''disabled''));
          open_to = (\<lambda>name. List.member [[], ''disabled'', ''auto'', name] provider);
          set_in = (\<lambda>k. getenv env k [] \<noteq> [])
      in if provider = ''fake'' then Inr Fake
         else if open_to ''openai'' \<and> set_in ''OPENAI_API_KEY'' then
           bind_err (timeout_seconds env) (\<lambda>t.
             Inr (OpenAI (getenv env ''OPENAI_API_KEY'' []) (getenv env ''AI_MODEL'' ''gpt-4.1-mini'')
               (strip_slashes (getenv env ''OPENAI_BASE_URL'' ''https://api.openai.com'')) t))
         else if open_to ''gemini'' \<and> set_in ''GEMINI_API_KEY'' then
           bind_err (timeout_seconds env) (\<lambda>t.
             Inr (Gemini (getenv env ''GEMINI_API_KEY'' []) (getenv env ''AI_MODEL'' ''gemini-2.5-flash'')
               (strip_slashes (getenv env ''GEMINI_BASE_URL'' ''https://generativelanguage.googleapis.com'')) t))
         else if provider = ''ollama'' \<or> provider = ''local'' then ollama_choice env
         else if set_in ''OLLAMA_BASE_URL'' \<and> open_to [] then ollama_choice env
         else Inr Disabled)"

definition provider_of :: "model_world \<Rightarrow> provider_choice \<Rightarrow> review_provider" where
  "provider_of w c =
     (case c of
        Disabled \<Rightarrow> disabled_generate
      | Fake \<Rightarrow> fake_generate None None
      | OpenAI key model url t \<Rightarrow> openai_generate w key url model
      | Gemini key model url t \<Rightarrow> gemini_generate w key url model
      | Ollama url model fallback t \<Rightarrow> ollama_generate w url model fallback)"

definition provider_name :: "provider_choice \<Rightarrow> string" where
  "provider_name c =
     (case c of Disabled \<Rightarrow> ''disabled'' | Fake \<Rightarrow> ''fake'' | OpenAI _ _ _ _ \<Rightarrow> ''openai''
      | Gemini _ _ _ _ \<Rightarrow> ''gemini'' | Ollama _ _ _ _ \<Rightarrow> ''ollama'')"

definition model_name :: "provider_choice \<Rightarrow> string option" where
  "model_name c =
     (case c of Disabled \<Rightarrow> None | Fake \<Rightarrow> Some ''fake'' | OpenAI _ m _ _ \<Rightarrow> Some m
      | Gemini _ m _ _ \<Rightarrow> Some m | Ollama _ m _ _ \<Rightarrow> Some m)"

end
