(* ===== verification/Legacy_Parser.thy ===== *)
theory Legacy_Parser
  imports Canonical
begin

text \<open>
  \<^verbatim>\<open>app/core/parser.py\<close>: the schema texts and fingerprint of the legacy \<open>/track\<close> path. The
  branches for values no JSON payload holds return \<open>"unknown"\<close>; after \<open>extract_structural_type\<close>
  only strings, lists and dicts are left.
\<close>

fun primitive_type :: "json \<Rightarrow> string" where
  "primitive_type JNull = ''null''"
| "primitive_type (JBool b) = ''bool''"
| "primitive_type (JInt i) = ''int''"
| "primitive_type (JFloat r) = ''float''"
| "primitive_type (JStr s) = ''string''"
| "primitive_type _ = ''unknown''"

fun normalize_types :: "json \<Rightarrow> json" where
  "normalize_types (JDict d) = JDict (map_vals normalize_types (sorted_items d))"
| "normalize_types (JList xs) = JList (map normalize_types xs)"
| "normalize_types v = JStr (primitive_type v)"

fun serialize_ast_to_string :: "json \<Rightarrow> string" where
  "serialize_ast_to_string (JStr s) = s"
| "serialize_ast_to_string (JDict d) =
     ''object{'' @ py_join '';''
       (map (\<lambda>(k, t). k @ '':'' @ t) (sorted_items (map_vals serialize_ast_to_string d))) @ ''}''"
| "serialize_ast_to_string (JList xs) =
     ''array['' @ py_join '','' (map serialize_ast_to_string xs) @ '']''"
| "serialize_ast_to_string _ = ''unknown''"

text \<open>The result for an array: the sorted set of its primitive types, then the sorted texts of the rest.\<close>

fun is_str :: "json \<Rightarrow> bool" where
  "is_str (JStr s) = True"
| "is_str _ = False"

definition array_types :: "json list \<Rightarrow> json" where
  "array_types resolved =
     JList (map JStr
       (sorted_set (map serialize_ast_to_string (filter is_str resolved))
        @ sort (map serialize_ast_to_string (filter (\<lambda>r. \<not> is_str r) resolved))))"

fun extract_structural_type :: "json \<Rightarrow> json" where
  "extract_structural_type (JDict d) = JDict (map_vals extract_structural_type (sorted_items d))"
| "extract_structural_type (JList []) = JList [JStr ''empty_array'']"
| "extract_structural_type (JList (x # xs)) = array_types (map extract_structural_type (x # xs))"
| "extract_structural_type v = JStr (primitive_type v)"

fun structural_ast :: "json \<Rightarrow> string" where
  "structural_ast (JDict d) =
     ''object{'' @ py_join '';''
       (map (\<lambda>(k, t). k @ '':'' @ t) (sorted_items (map_vals structural_ast d))) @ ''}''"
| "structural_ast (JList []) = ''array_unknown''"
| "structural_ast (JList (x # xs)) =
     (let first = structural_ast x in
      if list_all (\<lambda>v. structural_ast v = first) (x # xs)
      then ''array_'' @ first else ''array_mixed'')"
| "structural_ast v = primitive_type v"

definition structural_string :: "json \<Rightarrow> py_error + string" where
  "structural_string payload =
     (case payload of
        JDict d \<Rightarrow>
          Inr (concat (map (\<lambda>(k, v). k @ '':'' @ serialize_ast_to_string (extract_structural_type v) @ '';'')
            (sorted_items d)))
      | _ \<Rightarrow> Inl (TypeError ''payload must be a JSON object at the root''))"

definition fingerprint_schema :: "(string \<Rightarrow> string) \<Rightarrow> json \<Rightarrow> py_error + string" where
  "fingerprint_schema sha256 payload =
     bind_err (structural_string payload) (\<lambda>structural. Inr (sha256 structural))"

section \<open>What the texts depend on\<close>

text \<open>\<open>normalize_types\<close> and \<open>extract_structural_type\<close> see the shape of a payload only.\<close>

fun legacy_name :: "string \<Rightarrow> string" where
  "legacy_name t =
     (if t = ''boolean'' then ''bool'' else if t = ''integer'' then ''int''
      else if t = ''number'' then ''float'' else t)"

fun norm_of_shape :: "shape \<Rightarrow> json" where
  "norm_of_shape (SObject d) = JDict (map_vals norm_of_shape d)"
| "norm_of_shape (SArray xs) = JList (map norm_of_shape xs)"
| "norm_of_shape (SLeaf t n) = JStr (legacy_name t)"

fun ext_of_shape :: "shape \<Rightarrow> json" where
  "ext_of_shape (SObject d) = JDict (map_vals ext_of_shape d)"
| "ext_of_shape (SArray xs) =
     (if xs = [] then JList [JStr ''empty_array''] else array_types (map ext_of_shape xs))"
| "ext_of_shape (SLeaf t n) = JStr (legacy_name t)"

lemma normalize_types_shape: "normalize_types p = norm_of_shape (shape_of p)"
proof (induction p rule: normalize_types.induct)
  case (1 d)
  then have "map_vals normalize_types (sorted_items d) = map_vals (norm_of_shape \<circ> shape_of) (sorted_items d)"
    by (intro map_vals_cong) auto
  then show ?case by simp
qed simp_all

lemma extract_shape: "extract_structural_type p = ext_of_shape (shape_of p)"
proof (induction p rule: extract_structural_type.induct)
  case (1 d)
  then have "map_vals extract_structural_type (sorted_items d)
      = map_vals (ext_of_shape \<circ> shape_of) (sorted_items d)"
    by (intro map_vals_cong) auto
  then show ?case by simp
next
  case (3 x xs)
  then have eq: "map extract_structural_type (x # xs) = map ext_of_shape (map shape_of (x # xs))"
    by simp
  show ?case unfolding extract_structural_type.simps eq by simp
qed simp_all

lemma structural_string_shape:
  "shape_of p = shape_of q \<Longrightarrow> structural_string p = structural_string q"
proof -
  assume eq: "shape_of p = shape_of q"
  let ?t = "\<lambda>(k, v). k @ '':'' @ serialize_ast_to_string v @ '';''"
  have d: "structural_string (JDict d) =
      Inr (concat (map ?t (map_vals ext_of_shape (map_vals shape_of (sorted_items d)))))" for d
    by (simp add: structural_string_def extract_shape map_vals_def comp_def case_prod_unfold)
  show ?thesis
  proof (cases p)
    case (JDict a)
    with eq obtain b where q: "q = JDict b" by (cases q) auto
    from eq have "map_vals shape_of (sorted_items a) = map_vals shape_of (sorted_items b)"
      unfolding JDict q by simp
    then show ?thesis unfolding JDict q d by (rule arg_cong)
  next
    case (JList a)
    with eq show ?thesis by (cases q) (simp_all add: structural_string_def)
  qed (use eq in \<open>cases q; simp_all add: structural_string_def\<close>)+
qed

text \<open>The order and, for primitive elements, the number of array elements do not matter.\<close>

lemma array_types_mset: "mset xs = mset ys \<Longrightarrow> array_types xs = array_types ys"
proof -
  assume m: "mset xs = mset ys"
  then have "mset (map serialize_ast_to_string (filter P xs)) = mset (map serialize_ast_to_string (filter P ys))" for P
    by simp
  then have "sort (map serialize_ast_to_string (filter P xs)) = sort (map serialize_ast_to_string (filter P ys))" for P
    by (metis properties_for_sort mset_sort sorted_sort)
  moreover have "set (map serialize_ast_to_string (filter P xs)) = set (map serialize_ast_to_string (filter P ys))" for P
    using m by (metis mset_eq_setD mset_filter mset_map)
  ultimately show ?thesis
    unfolding array_types_def by (metis sorted_set_unique)
qed

lemma extract_array_mset:
  "mset xs = mset ys \<Longrightarrow> extract_structural_type (JList xs) = extract_structural_type (JList ys)"
proof -
  assume m: "mset xs = mset ys"
  then have "mset (map extract_structural_type xs) = mset (map extract_structural_type ys)" by simp
  with m show ?thesis
    by (cases xs; cases ys) (auto intro: array_types_mset simp del: list.map)
qed

section \<open>Properties\<close>

text \<open>The legacy structural text is a function of the shape of the payload, and inside an array
  not even of the order of its elements: payloads with the same shape, and payloads that differ
  in the order of one array field's elements, get the same text and the same fingerprint.\<close>

theorem legacy_text_of_shape:
  assumes "shape_of p = shape_of q" and "mset xs = mset ys"
  shows "structural_string p = structural_string q
    \<and> fingerprint_schema sha256 (JDict (dict_set k (JList xs) d))
      = fingerprint_schema sha256 (JDict (dict_set k (JList ys) d))"
proof
  show "structural_string p = structural_string q" by (rule structural_string_shape) fact
  have ext: "map_vals extract_structural_type (dict_set k (JList xs) d)
      = map_vals extract_structural_type (dict_set k (JList ys) d)"
    using extract_array_mset [OF assms(2)] by (induction d) auto
  let ?t = "\<lambda>(k, v). k @ '':'' @ serialize_ast_to_string v @ '';''"
  have d: "structural_string (JDict e) =
      Inr (concat (map ?t (sorted_items (map_vals extract_structural_type e))))" for e
    unfolding sorted_items_map_vals
    by (simp add: structural_string_def map_vals_def comp_def case_prod_unfold)
  show "fingerprint_schema sha256 (JDict (dict_set k (JList xs) d))
      = fingerprint_schema sha256 (JDict (dict_set k (JList ys) d))"
    unfolding fingerprint_schema_def d ext ..
qed

lemma legacy_text_of_shape_witness:
  "structural_string (JDict [(''a'', JInt 1)]) = structural_string (JDict [(''a'', JInt 2)])
    \<and> fingerprint_schema id (JDict (dict_set ''x'' (JList [JInt 1, JNull]) []))
      = fingerprint_schema id (JDict (dict_set ''x'' (JList [JNull, JInt 1]) []))"
  by (rule legacy_text_of_shape) (simp_all add: add_mset_commute sorted_items_def)

text \<open>The legacy structural text does not determine the schema: keys are not escaped, so an object
  with the two fields \<open>k\<close> and \<open>l\<close> and an object with the one field \<open>k:int;l\<close> have the same
  fingerprint, while the canonical schemas of the runtime guard differ.\<close>

theorem legacy_text_collision:
  assumes "k < l"
  shows "fingerprint_schema sha256 (JDict [(k, JInt i), (l, v)])
      = fingerprint_schema sha256 (JDict [(k @ '':int;'' @ l, v)])
    \<and> canonicalize (JDict [(k, JInt i), (l, v)]) \<noteq> canonicalize (JDict [(k @ '':int;'' @ l, v)])"
proof
  have "sorted_items [(k, JInt i), (l, v)] = [(k, JInt i), (l, v)]"
    unfolding sorted_items_def by (rule sort_key_id_if_sorted) (use assms in simp)
  then show "fingerprint_schema sha256 (JDict [(k, JInt i), (l, v)])
      = fingerprint_schema sha256 (JDict [(k @ '':int;'' @ l, v)])"
    by (simp add: fingerprint_schema_def structural_string_def sorted_items_def)
  have "length (sorted_items e) = length e" for e :: "json pydict"
    by (simp add: sorted_items_def)
  then have "length (map_vals canonicalize (sorted_items [(k, JInt i), (l, v)])) \<noteq>
      length (map_vals canonicalize (sorted_items [(k @ '':int;'' @ l, v)]))"
    by (simp only: length_map_vals) simp
  then show "canonicalize (JDict [(k, JInt i), (l, v)]) \<noteq> canonicalize (JDict [(k @ '':int;'' @ l, v)])"
    by (auto simp only: canonicalize.simps json.inject)
qed

lemma legacy_text_collision_witness:
  "fingerprint_schema id (JDict [(''a'', JInt 1), (''b'', JInt 2)])
      = fingerprint_schema id (JDict [(''a'' @ '':int;'' @ ''b'', JInt 2)])"
  using legacy_text_collision [of "''a''" "''b''" id 1 "JInt 2"] by simp

end
