(* ===== verification/Legacy_Engine.thy ===== *)
theory Legacy_Engine
  imports Legacy_Parser Classifier Registry
begin

text \<open>
  \<^verbatim>\<open>app/core/engine.py\<close>: the legacy tables, the comparison of normalized schemas with the active
  baseline, its severities, and the metrics query. The comparison is the second differ over
  flat paths; \<open>Path_Diff\<close> gives it what the runtime classifier has.
\<close>

section \<open>Comparison\<close>

definition route_lock_id :: "(string \<Rightarrow> string) \<Rightarrow> string \<Rightarrow> int" where
  "route_lock_id sha256 route_path = hex_int (take 15 (sha256 route_path))"

fun flatten_schema :: "json \<Rightarrow> string \<Rightarrow> string pydict" where
  "flatten_schema (JDict d) pre =
     foldl dict_update [] (map (\<lambda>(k, v). flatten_schema v (join_path pre k)) d)"
| "flatten_schema (JList xs) pre =
     foldl dict_update [(pre, ''array'')]
       (map (\<lambda>(i, v). flatten_schema v (index_path pre i)) (enumerate 0 xs))"
| "flatten_schema j pre = [(pre, py_str j)]"

record legacy_item =
  li_path :: string
  li_old :: "string option"
  li_new :: "string option"
  li_severity :: "string option"

definition legacy_item_of :: "string \<Rightarrow> string option \<Rightarrow> string option \<Rightarrow> py_error + legacy_item" where
  "legacy_item_of path x y = Inr \<lparr>li_path = path, li_old = x, li_new = y, li_severity = None\<rparr>"

definition structural_diff :: "json \<Rightarrow> json \<Rightarrow> legacy_item list" where
  "structural_diff baseline_schema incoming_schema =
     (case diff_paths (=) legacy_item_of (flatten_schema baseline_schema []) (flatten_schema incoming_schema []) of
        Inr ds \<Rightarrow> ds
      | Inl e \<Rightarrow> [])"

section \<open>Severities\<close>

text \<open>Three passes over the list, each giving a severity to items that have none yet.\<close>

definition safe_item :: "legacy_item \<Rightarrow> legacy_item" where
  "safe_item item = (if li_old item = None \<and> li_new item \<noteq> None then item\<lparr>li_severity := Some ''SAFE''\<rparr> else item)"

definition classify_safe_changes :: "legacy_item list \<Rightarrow> legacy_item list" where
  "classify_safe_changes ds = map safe_item ds"

definition primitive_types :: "string list" where
  "primitive_types = [''int'', ''float'', ''string'', ''bool'']"

definition risky_item :: "legacy_item \<Rightarrow> legacy_item" where
  "risky_item item =
     (if li_severity item \<noteq> None then item
      else (case (li_old item, li_new item) of
        (Some old, Some new) \<Rightarrow>
          if List.member primitive_types old \<and> List.member primitive_types new \<and> old \<noteq> new then
            (if old = ''int'' \<and> new = ''float'' then item\<lparr>li_severity := Some ''RISKY''\<rparr>
             else if old = ''float'' \<and> new = ''int'' then item\<lparr>li_severity := Some ''BREAKING''\<rparr>
             else item\<lparr>li_severity := Some ''BREAKING''\<rparr>)
          else item
      | _ \<Rightarrow> item))"

definition classify_risky_mutations :: "legacy_item list \<Rightarrow> legacy_item list" where
  "classify_risky_mutations ds = map risky_item ds"

definition breaking_item :: "legacy_item \<Rightarrow> legacy_item" where
  "breaking_item item =
     (if li_severity item \<noteq> None then item
      else if li_old item \<noteq> None \<and> li_new item = None then item\<lparr>li_severity := Some ''BREAKING''\<rparr>
      else (case li_old item of
        Some old \<Rightarrow>
          if startswith old ''nullable_'' \<and> li_new item = Some (drop 9 old)
          then item\<lparr>li_severity := Some ''BREAKING''\<rparr> else item
      | None \<Rightarrow> item))"

definition classify_breaking_changes :: "legacy_item list \<Rightarrow> legacy_item list" where
  "classify_breaking_changes ds = map breaking_item ds"

definition classify_contract_drift :: "legacy_item list \<Rightarrow> legacy_item list" where
  "classify_contract_drift ds =
     classify_breaking_changes (classify_risky_mutations (classify_safe_changes ds))"

section \<open>The legacy tables\<close>

definition legacy_key :: "api_endpoint \<Rightarrow> string \<times> string \<times> string" where
  "legacy_key e = (ae_service e, ae_method e, ae_route e)"

definition legacy_ensure_endpoint :: "rdb \<Rightarrow> string \<Rightarrow> string \<Rightarrow> string \<Rightarrow> string \<times> rdb" where
  "legacy_ensure_endpoint db service_name http_method route_path =
     (case first_row (filter (\<lambda>e. legacy_key e = (service_name, http_method, route_path)) (api_endpoints db)) of
        Some e \<Rightarrow> (ae_id e, db)
      | None \<Rightarrow>
          (let (i, db) = fresh_id db
           in (i, db\<lparr>api_endpoints := api_endpoints db
                 @ [\<lparr>ae_id = i, ae_service = service_name, ae_method = http_method, ae_route = route_path\<rparr>]\<rparr>)))"

definition is_snapshot :: "string \<Rightarrow> string \<Rightarrow> schema_snapshot \<Rightarrow> bool" where
  "is_snapshot endpoint_id fp s \<longleftrightarrow> ss_endpoint s = endpoint_id \<and> ss_fingerprint s = fp"

definition register_snapshot :: "rdb \<Rightarrow> string \<Rightarrow> string \<Rightarrow> json \<Rightarrow> bool \<times> rdb" where
  "register_snapshot db endpoint_id fp normalized_schema =
     (if list_ex (is_snapshot endpoint_id fp) (schema_snapshots db) then (False, db)
      else (let (i, db) = fresh_id db
            in (True, db\<lparr>schema_snapshots := schema_snapshots db
                  @ [\<lparr>ss_id = i, ss_endpoint = endpoint_id, ss_fingerprint = fp, ss_schema = normalized_schema,
                      ss_baseline = False, ss_created = now db\<rparr>]\<rparr>)))"

definition register_payload_snapshot ::
  "rdb \<Rightarrow> string \<Rightarrow> string \<Rightarrow> string \<Rightarrow> string \<Rightarrow> json \<Rightarrow> (string \<times> bool) \<times> rdb" where
  "register_payload_snapshot db service_name http_method route_path fp normalized_schema =
     (let (endpoint_id, db) = legacy_ensure_endpoint db service_name http_method route_path;
          (inserted, db) = register_snapshot db endpoint_id fp normalized_schema
      in ((endpoint_id, inserted), db))"

definition baseline_rows :: "rdb \<Rightarrow> string \<Rightarrow> schema_snapshot list" where
  "baseline_rows db endpoint_id = filter (\<lambda>s. ss_endpoint s = endpoint_id \<and> ss_baseline s) (schema_snapshots db)"

definition get_active_baseline :: "rdb \<Rightarrow> string \<Rightarrow> json option" where
  "get_active_baseline db endpoint_id =
     map_option ss_schema (first_row (sort_desc ss_created (baseline_rows db endpoint_id)))"

definition get_active_baseline_snapshot :: "rdb \<Rightarrow> string \<Rightarrow> (string \<times> json) option" where
  "get_active_baseline_snapshot db endpoint_id =
     map_option (\<lambda>s. (ss_fingerprint s, ss_schema s)) (first_row (sort_desc ss_created (baseline_rows db endpoint_id)))"

definition violation_payload :: "legacy_item \<Rightarrow> json" where
  "violation_payload item = JDict [(''path'', JStr (li_path item)), (''old'', opt_json JStr (li_old item)),
     (''new'', opt_json JStr (li_new item))]"

definition log_violation :: "string \<Rightarrow> string \<Rightarrow> rdb \<Rightarrow> legacy_item \<Rightarrow> rdb" where
  "log_violation endpoint_id fp db item =
     (case li_severity item of
        None \<Rightarrow> db
      | Some sev \<Rightarrow>
          (let (i, db) = fresh_id db
           in db\<lparr>drift_violations := drift_violations db
                @ [\<lparr>dv_id = i, dv_endpoint = endpoint_id, dv_fingerprint = fp, dv_severity = sev,
                    dv_payload = violation_payload item, dv_detected = now db\<rparr>]\<rparr>))"

definition log_drift_violations :: "rdb \<Rightarrow> string \<Rightarrow> string \<Rightarrow> legacy_item list \<Rightarrow> rdb" where
  "log_drift_violations db endpoint_id fp ds = foldl (log_violation endpoint_id fp) db ds"

text \<open>\<open>GROUP BY severity\<close>: one count for every severity that occurs.\<close>

definition count_by :: "('a \<Rightarrow> string) \<Rightarrow> 'a list \<Rightarrow> nat pydict" where
  "count_by f xs = map (\<lambda>k. (k, length (filter (\<lambda>x. f x = k) xs))) (remdups (map f xs))"

definition get_runtime_metrics :: "rdb \<Rightarrow> json" where
  "get_runtime_metrics db = JDict
     [(''endpoint_count'', JInt (length (api_endpoints db))),
      (''snapshot_count'', JInt (length (schema_snapshots db))),
      (''severity_counts'', JDict (map_vals (\<lambda>n. JInt (int n)) (count_by dv_severity (drift_violations db)))),
      (''webhook_delivery_dlq_count'', JInt (length (dlq db))),
      (''webhook_outbox_pending_count'', JInt (length (filter (\<lambda>r. ob_status r = PENDING) (outbox db)))),
      (''drift_event_dlq_count'', JInt (length (event_dlq db)))]"

interpretation leg: path_diff "(=)" legacy_item_of li_path
  by unfold_locales (auto simp: legacy_item_of_def)

section \<open>What the comparison gives\<close>

lemma structural_diff_paths:
  "diff_paths (=) legacy_item_of (flatten_schema s []) (flatten_schema t []) = Inr (structural_diff s t)"
proof -
  obtain ds where "diff_paths (=) legacy_item_of (flatten_schema s []) (flatten_schema t []) = Inr ds"
    using leg.diff_total [of "flatten_schema s []" "flatten_schema t []"] by (auto simp: legacy_item_of_def)
  then show ?thesis by (simp add: structural_diff_def)
qed

lemma in_structural_diff:
  "d \<in> set (structural_diff s t) \<longleftrightarrow>
     li_severity d = None \<and> li_old d = map_of (flatten_schema s []) (li_path d)
     \<and> li_new d = map_of (flatten_schema t []) (li_path d) \<and> li_old d \<noteq> li_new d"
  unfolding leg.in_diff_iff [OF structural_diff_paths] by (cases d) (auto simp: legacy_item_of_def)

lemma structural_diff_Nil:
  "structural_diff s t = [] \<longleftrightarrow> map_of (flatten_schema s []) = map_of (flatten_schema t [])"
  using leg.diff_empty_iff [of "flatten_schema s []" "flatten_schema t []"]
  by (simp add: structural_diff_paths fun_eq_iff)

text \<open>The texts at the paths of a normalized payload.\<close>

definition type_names :: "string list" where
  "type_names = [''array'', ''null'', ''bool'', ''int'', ''float'', ''string'']"

lemma flatten_type_names:
  "(p, t) \<in> set (flatten_schema (normalize_types j) pre) \<Longrightarrow> t \<in> set type_names"
proof (induction j arbitrary: pre p t rule: normalize_types.induct)
  case (1 d)
  then have "(p, t) \<in> (\<Union>e \<in> set (map (\<lambda>(k, v). flatten_schema v (join_path pre k))
      (map_vals normalize_types (sorted_items d))). set e)"
    using set_foldl_update [of "[]"] by fastforce
  then obtain k v where "(k, v) \<in> set d" "(p, t) \<in> set (flatten_schema (normalize_types v) (join_path pre k))"
    by (auto simp: map_vals_def)
  then show ?case using 1(1) by fastforce
next
  case (2 xs)
  then have "(p, t) \<in> {(pre, ''array'')} \<union> (\<Union>e \<in> set (map (\<lambda>(i, v). flatten_schema v (index_path pre i))
      (enumerate 0 (map normalize_types xs))). set e)"
    using set_foldl_update [of "[(pre, ''array'')]"] by fastforce
  then consider "t = ''array''" | i v where "(i, v) \<in> set (enumerate 0 (map normalize_types xs))"
      "(p, t) \<in> set (flatten_schema v (index_path pre i))"
    by auto
  then show ?case
  proof cases
    case 2
    then obtain w where "w \<in> set xs" "v = normalize_types w" by (auto dest!: set_enumerateD)
    then show ?thesis using 2 "2.IH" by blast
  qed (simp add: type_names_def)
qed (auto simp: type_names_def)

text \<open>The severity table of the three passes on such texts.\<close>

definition severity_of :: "string option \<Rightarrow> string option \<Rightarrow> string option" where
  "severity_of old new =
     (case (old, new) of
        (None, _) \<Rightarrow> Some ''SAFE''
      | (Some _, None) \<Rightarrow> Some ''BREAKING''
      | (Some s, Some t) \<Rightarrow>
          if s = ''int'' \<and> t = ''float'' then Some ''RISKY''
          else if s \<in> set primitive_types \<and> t \<in> set primitive_types then Some ''BREAKING''
          else None)"

lemma set_primitive_types: "set primitive_types = {''int'', ''float'', ''string'', ''bool''}"
  by (simp add: primitive_types_def)

lemma type_name_cases:
  "t \<in> set type_names \<Longrightarrow> \<not> prefix ''nullable_'' t"
  by (auto simp: type_names_def)

lemma classify_item:
  assumes "li_severity d = None" "li_old d \<noteq> li_new d"
    and "\<And>t. li_old d = Some t \<Longrightarrow> t \<in> set type_names"
  shows "breaking_item (risky_item (safe_item d)) = d\<lparr>li_severity := severity_of (li_old d) (li_new d)\<rparr>"
proof (cases "li_old d")
  case None
  then show ?thesis using assms(1,2)
    by (cases "li_new d") (simp_all add: safe_item_def risky_item_def breaking_item_def severity_of_def)
next
  case (Some s)
  have np: "\<not> prefix ''nullable_'' s" using assms(3) [OF Some] by (rule type_name_cases)
  have prim: "List.member primitive_types x \<longleftrightarrow> x \<in> set primitive_types" for x
    by simp
  show ?thesis
  proof (cases "li_new d")
    case None
    then show ?thesis using assms(1) Some np
      by (simp add: safe_item_def risky_item_def breaking_item_def severity_of_def)
  next
    case new: (Some t)
    have "s \<noteq> t" using assms(2) Some new by simp
    then show ?thesis using assms(1) Some new np
      by (simp add: safe_item_def risky_item_def breaking_item_def severity_of_def prim primitive_types_def)
  qed
qed

lemma classify_contract_drift_map:
  "classify_contract_drift ds = map (\<lambda>d. breaking_item (risky_item (safe_item d))) ds"
  by (simp add: classify_contract_drift_def classify_breaking_changes_def classify_risky_mutations_def
      classify_safe_changes_def comp_def)

lemma classified_diff:
  "classify_contract_drift (structural_diff (normalize_types p) (normalize_types q)) =
     map (\<lambda>d. d\<lparr>li_severity := severity_of (li_old d) (li_new d)\<rparr>)
       (structural_diff (normalize_types p) (normalize_types q))"
  unfolding classify_contract_drift_map
proof (rule map_cong [OF refl])
  fix d assume d: "d \<in> set (structural_diff (normalize_types p) (normalize_types q))"
  show "breaking_item (risky_item (safe_item d)) = d\<lparr>li_severity := severity_of (li_old d) (li_new d)\<rparr>"
  proof (rule classify_item)
    fix t assume "li_old d = Some t"
    with d have "map_of (flatten_schema (normalize_types p) []) (li_path d) = Some t"
      by (simp add: in_structural_diff)
    then show "t \<in> set type_names" by (intro flatten_type_names) (rule map_of_SomeD)
  next
    show "li_severity d = None" "li_old d \<noteq> li_new d"
      using d unfolding in_structural_diff by blast+
  qed
qed

section \<open>What is logged\<close>

lemma log_drift_rows:
  "map (\<lambda>v. (dv_endpoint v, dv_fingerprint v, Some (dv_severity v), dv_payload v))
      (drift_violations (log_drift_violations db endpoint_id fp ds)) =
    map (\<lambda>v. (dv_endpoint v, dv_fingerprint v, Some (dv_severity v), dv_payload v)) (drift_violations db)
    @ map (\<lambda>d. (endpoint_id, fp, li_severity d, violation_payload d)) (filter (\<lambda>d. li_severity d \<noteq> None) ds)"
proof (induction ds arbitrary: db)
  case (Cons d ds)
  then show ?case
    by (cases "li_severity d") (simp_all add: log_drift_violations_def log_violation_def fresh_id_def)
qed (simp add: log_drift_violations_def)

lemma log_drift_unlogged:
  "list_all (\<lambda>d. li_severity d = None) ds \<Longrightarrow> log_drift_violations db endpoint_id fp ds = db"
  by (induction ds arbitrary: db) (simp_all add: log_drift_violations_def log_violation_def)

section \<open>Properties\<close>

text \<open>C33: The legacy comparison of two payloads lists, in increasing order, exactly the paths whose
  type texts differ, with the old and the new text and a severity that is a function of the two: a
  new path is SAFE, a lost path BREAKING, \<open>int\<close> to \<open>float\<close> RISKY, any other change between \<open>int\<close>,
  \<open>float\<close>, \<open>string\<close> and \<open>bool\<close> BREAKING, and every other change has no severity.\<close>

theorem legacy_drift_spec:
  "(let old = map_of (flatten_schema (normalize_types p) []); new = map_of (flatten_schema (normalize_types q) []);
        ds = classify_contract_drift (structural_diff (normalize_types p) (normalize_types q))
    in sorted_wrt (<) (map li_path ds)
      \<and> (\<forall>path. path \<in> li_path ` set ds \<longleftrightarrow> old path \<noteq> new path)
      \<and> (\<forall>d. d \<in> set ds \<longrightarrow> li_old d = old (li_path d) \<and> li_new d = new (li_path d)
           \<and> li_severity d = (case (li_old d, li_new d) of
               (None, _) \<Rightarrow> Some ''SAFE''
             | (Some _, None) \<Rightarrow> Some ''BREAKING''
             | (Some s, Some t) \<Rightarrow>
                 if s = ''int'' \<and> t = ''float'' then Some ''RISKY''
                 else if s \<in> {''int'', ''float'', ''string'', ''bool''} \<and> t \<in> {''int'', ''float'', ''string'', ''bool''}
                 then Some ''BREAKING'' else None)))"
proof -
  let ?raw = "structural_diff (normalize_types p) (normalize_types q)"
  let ?ds = "classify_contract_drift ?raw"
  have paths: "map li_path ?ds = map li_path ?raw" by (simp add: classified_diff comp_def)
  have sorted: "sorted_wrt (<) (map li_path ?ds)"
    unfolding paths by (rule leg.diff_strict) (rule structural_diff_paths)
  have complete: "path \<in> li_path ` set ?ds \<longleftrightarrow>
      map_of (flatten_schema (normalize_types p) []) path \<noteq> map_of (flatten_schema (normalize_types q) []) path" for path
  proof -
    have "path \<in> li_path ` set ?ds \<longleftrightarrow> path \<in> li_path ` set ?raw"
      by (simp only: set_map [symmetric] paths)
    also have "\<dots> \<longleftrightarrow> map_of (flatten_schema (normalize_types p) []) path
        \<noteq> map_of (flatten_schema (normalize_types q) []) path"
    proof
      assume "path \<in> li_path ` set ?raw"
      then obtain d where "path = li_path d" "d \<in> set ?raw" by blast
      then show "map_of (flatten_schema (normalize_types p) []) path
        \<noteq> map_of (flatten_schema (normalize_types q) []) path" unfolding in_structural_diff by metis
    next
      assume "map_of (flatten_schema (normalize_types p) []) path
        \<noteq> map_of (flatten_schema (normalize_types q) []) path"
      from leg.item_of_changed [OF structural_diff_paths this]
      show "path \<in> li_path ` set ?raw" by blast
    qed
    finally show ?thesis .
  qed
  have items: "li_old d = map_of (flatten_schema (normalize_types p) []) (li_path d)
      \<and> li_new d = map_of (flatten_schema (normalize_types q) []) (li_path d)
      \<and> li_severity d = severity_of (li_old d) (li_new d)" if d: "d \<in> set ?ds" for d
  proof -
    from d obtain r where r: "r \<in> set ?raw" "d = r\<lparr>li_severity := severity_of (li_old r) (li_new r)\<rparr>"
      unfolding classified_diff by auto
    then show ?thesis using r(1) unfolding in_structural_diff by simp
  qed
  have table: "severity_of x y = (case (x, y) of
               (None, _) \<Rightarrow> Some ''SAFE''
             | (Some _, None) \<Rightarrow> Some ''BREAKING''
             | (Some s, Some t) \<Rightarrow>
                 if s = ''int'' \<and> t = ''float'' then Some ''RISKY''
                 else if s \<in> {''int'', ''float'', ''string'', ''bool''} \<and> t \<in> {''int'', ''float'', ''string'', ''bool''}
                 then Some ''BREAKING'' else None)" for x y
    by (simp only: severity_of_def set_primitive_types)
  show ?thesis
    unfolding Let_def table [symmetric] using sorted complete items by blast
qed

lemma legacy_drift_spec_witness:
  "(let ds = classify_contract_drift (structural_diff (normalize_types (JDict [(''a'', JInt 1)]))
        (normalize_types (JDict [(''a'', JFloat ''1.5'')])))
    in \<forall>path. path \<in> li_path ` set ds \<longleftrightarrow>
      map_of (flatten_schema (normalize_types (JDict [(''a'', JInt 1)])) []) path
      \<noteq> map_of (flatten_schema (normalize_types (JDict [(''a'', JFloat ''1.5'')])) []) path)"
  using legacy_drift_spec [of "JDict [(''a'', JInt 1)]" "JDict [(''a'', JFloat ''1.5'')]"]
  unfolding Let_def by blast

text \<open>The legacy path does not log every change it finds: a field that turns from null to a scalar
  or from a scalar to null, and a scalar that becomes an array, are listed without a severity and no
  violation is written for them; a field whose value is an empty object is not seen at all.\<close>

theorem legacy_changes_unlogged:
  assumes "s \<in> {JBool b, JInt i, JFloat r, JStr t}" and "k \<noteq> []"
    and "(p, q) \<in> {(JNull, s), (s, JNull), (s, JList [])}"
  shows "(let ds = structural_diff (normalize_types (JDict [(k, p)])) (normalize_types (JDict [(k, q)]))
    in map li_path ds = [k]
      \<and> log_drift_violations db endpoint_id fp (classify_contract_drift ds) = db)
    \<and> structural_diff (normalize_types (JDict [(k, JDict [])])) (normalize_types (JDict [])) = []"
proof -
  have one: "sorted_items [x] = [x]" for x :: "string \<times> json" by (simp add: sorted_items_def)
  have upd: "dict_update [] [(k, x)] = [(k, x)]" for x :: string by (simp add: dict_update_Cons)
  have scalar: "\<exists>n. flatten_schema (normalize_types (JDict [(k, s)])) [] = [(k, n)] \<and> n \<in> set primitive_types"
    using assms(1) by (auto simp: one upd join_path_def primitive_types_def)
  have null: "flatten_schema (normalize_types (JDict [(k, JNull)])) [] = [(k, ''null'')]"
    by (simp add: one upd join_path_def)
  have list: "flatten_schema (normalize_types (JDict [(k, JList [])])) [] = [(k, ''array'')]"
    by (simp add: one upd join_path_def enumerate_eq_zip)
  have diff: "structural_diff a b = [\<lparr>li_path = k, li_old = Some m, li_new = Some n, li_severity = None\<rparr>]"
    if "flatten_schema a [] = [(k, m)]" "flatten_schema b [] = [(k, n)]" "m \<noteq> n" for a b m n
    using that by (simp add: structural_diff_def diff_paths_def changed_paths_def sorted_set_def legacy_item_of_def)
  have sev: "log_drift_violations db endpoint_id fp
        (classify_contract_drift [\<lparr>li_path = k, li_old = Some m, li_new = Some n, li_severity = None\<rparr>]) = db"
    if "m \<in> {''null'', ''array''} \<or> n \<in> {''null'', ''array''}" "m \<in> set type_names" "m \<noteq> n" for m n
  proof -
    let ?d = "\<lparr>li_path = k, li_old = Some m, li_new = Some n, li_severity = None\<rparr>"
    have "severity_of (Some m) (Some n) = None"
      using that(1) unfolding severity_of_def set_primitive_types by auto
    moreover have "breaking_item (risky_item (safe_item ?d)) = ?d\<lparr>li_severity := severity_of (li_old ?d) (li_new ?d)\<rparr>"
      by (rule classify_item) (use that in simp_all)
    ultimately show ?thesis
      unfolding classify_contract_drift_map by (intro log_drift_unlogged) simp
  qed
  obtain n where n: "flatten_schema (normalize_types (JDict [(k, s)])) [] = [(k, n)]" "n \<in> set primitive_types"
    using scalar by blast
  have ne: "n \<noteq> ''null''" "n \<noteq> ''array''" "n \<in> set type_names"
    using n(2) by (auto simp: primitive_types_def type_names_def)
  have null_name: "''null'' \<in> set type_names" by (simp add: type_names_def)
  have empty: "structural_diff (normalize_types (JDict [(k, JDict [])])) (normalize_types (JDict [])) = []"
    by (simp add: structural_diff_Nil one upd dict_update_def)
  from assms(3) consider "p = JNull" "q = s" | "p = s" "q = JNull" | "p = s" "q = JList []" by auto
  then show ?thesis
  proof cases
    case 1
    show ?thesis unfolding 1 Let_def diff [OF null n(1) ne(1) [symmetric]]
      using sev [OF _ null_name ne(1) [symmetric]] empty by simp
  next
    case 2
    show ?thesis unfolding 2 Let_def diff [OF n(1) null ne(1)]
      using sev [OF _ ne(3,1)] empty by simp
  next
    case 3
    show ?thesis unfolding 3 Let_def diff [OF n(1) list ne(2)]
      using sev [OF _ ne(3,2)] empty by simp
  qed
qed

lemma legacy_changes_unlogged_witness:
  "map li_path (structural_diff (normalize_types (JDict [(''a'', JStr ''x'')])) (normalize_types (JDict [(''a'', JList [])]))) = [''a'']"
  using legacy_changes_unlogged [of "JStr ''x''" True 0 "''0.0''" "''x''" "''a''" "JStr ''x''" "JList []" "empty_rdb 0" "[]" "[]"]
  unfolding Let_def by simp

end
