(* ===== verification/Review_Graph.thy ===== *)
theory Review_Graph
  imports Review_Providers Registry Subscriptions Webhook Legacy_Engine
begin

text \<open>
  \<^verbatim>\<open>app/runtime/contract_review.py\<close>, third part, and \<^verbatim>\<open>app/api/ai.py\<close>: the evidence is collected from
  the tables and the document store, and the nodes of the review graph run one after the other
  (the graph is a chain of edges from START to END). The measured latency and the text of a float
  are parameters. A row stands for the dict the fetching functions make of it; creation times of
  endpoints and versions are not kept, nothing reads them.
\<close>

section \<open>Fetching\<close>

definition fetch_endpoint_metadata :: "rdb \<Rightarrow> string \<Rightarrow> reg_endpoint option" where
  "fetch_endpoint_metadata db endpoint_id = row_at re_id endpoint_id (endpoints db)"

definition fetch_schema_versions :: "rdb \<Rightarrow> string \<Rightarrow> nat \<Rightarrow> schema_version list" where
  "fetch_schema_versions db endpoint_id limit =
     take limit (sort_desc sv_version (rows_of (versions db) endpoint_id))"

definition numbered :: "(nat \<Rightarrow> 'a \<Rightarrow> 'b) \<Rightarrow> 'a list \<Rightarrow> 'b list" where
  "numbered f xs = map (\<lambda>(i, x). f i x) (enumerate 1 xs)"

definition violation_item :: "nat \<Rightarrow> drift_violation \<Rightarrow> evidence_item" where
  "violation_item i row =
     (let payload = (if truthy (dv_payload row) then dv_payload row else JDict [])
      in \<lparr>it_citation = ''drift-violation:'' @ show_nat i, it_kind = ''drift_violation'',
          it_summary = ''severity='' @ dv_severity row @ '' fingerprint='' @ dv_fingerprint row
            @ '' path='' @ py_str (jget_or payload ''path'' (JStr ''[unknown]'')),
          it_details = [(''id'', JStr (dv_id row)), (''observed_fingerprint'', JStr (dv_fingerprint row)),
            (''severity'', JStr (py_upper (dv_severity row))), (''diff_payload'', payload),
            (''detected_at'', JStr (isoformat (dv_detected row)))]\<rparr>)"

definition fetch_drift_violations :: "rdb \<Rightarrow> string \<Rightarrow> nat \<Rightarrow> evidence_item list" where
  "fetch_drift_violations db endpoint_id limit =
     numbered violation_item (take limit (sort_desc dv_detected
       (filter (\<lambda>v. dv_endpoint v = endpoint_id) (drift_violations db))))"

definition fetch_doc_items :: "mem_store option \<Rightarrow> string \<Rightarrow> string \<Rightarrow> nat \<Rightarrow> json list" where
  "fetch_doc_items document_store kind endpoint_id limit =
     (case document_store of
        None \<Rightarrow> []
      | Some st \<Rightarrow>
          (let items =
             (if kind = ''schema_diffs'' then list_schema_diffs st (limit * 2)
              else if kind = ''payload_snapshots'' then list_payload_snapshots st (limit * 2)
              else if kind = ''validation_errors'' then list_validation_errors st (limit * 2)
              else if kind = ''replay_artifacts'' then list_replay_artifacts st (limit * 2)
              else if kind = ''contract_reviews'' then list_contract_reviews st (limit * 2) (Some endpoint_id)
              else [])
           in if kind = ''validation_errors'' then take limit items
              else take limit (filter (has_endpoint endpoint_id) items)))"

section \<open>Summaries\<close>

definition schema_diff_summary :: "evidence_item list \<Rightarrow> string" where
  "schema_diff_summary items =
     (if items = [] then ''No schema diff documents were found for this endpoint.''
      else py_join ''; '' (map it_summary (take 5 items)))"

definition consumer_impact_summary :: "evidence \<Rightarrow> py_error + string" where
  "consumer_impact_summary e =
     (let active = filter (\<lambda>s. truthy (jget_or s ''active'' (JBool True))) (ev_subscriptions e);
          threshold_labels = sorted_set (map (\<lambda>s. py_str (jget_or s ''severity_threshold'' (JStr ''unknown'')))
            (filter (\<lambda>s. truthy (jget_or s ''severity_threshold'' JNull)) active))
      in bind_err (map_err (\<lambda>item. py_int (jget_or (JDict (it_details item)) ''attempt_count'' (JInt 0))) (ev_attempts e)) (\<lambda>counts.
         Inr (py_join ''; ''
           ([show_nat (length active) @ '' active consumer(s) are subscribed to this endpoint'']
            @ (if threshold_labels \<noteq> [] then [''thresholds: '' @ py_join '', '' threshold_labels] else [])
            @ (if ev_dlq e \<noteq> [] then [show_nat (length (ev_dlq e)) @ '' DLQ item(s) already exist for this endpoint''] else [])
            @ (if sum_list counts \<noteq> 0
               then [show_int (sum_list counts) @ '' recorded delivery attempt(s) failed''] else [])))))"

definition evidence_context_summary :: "evidence \<Rightarrow> string" where
  "evidence_context_summary e = py_join ''; ''
     ([''endpoint='' @ ev_endpoint_name e, ''route='' @ ev_method e @ '' '' @ ev_route e,
       ''current_version='' @ (case ev_current e of None \<Rightarrow> ''unknown'' | Some v \<Rightarrow> show_int v),
       ''schema_diffs='' @ show_nat (length (ev_schema_diffs e)),
       ''payload_snapshots='' @ show_nat (length (ev_snapshots e)),
       ''validation_failures='' @ show_nat (length (ev_validations e)),
       ''dlq_entries='' @ show_nat (length (ev_dlq e)),
       ''delivery_attempts='' @ show_nat (length (ev_attempts e)),
       ''drift_violations='' @ show_nat (length (ev_violations e))]
      @ (if ev_notes e \<noteq> [] then [''notes='' @ py_join '' | '' (ev_notes e)] else []))"

section \<open>Collecting the evidence\<close>

definition doc_dict :: "json \<Rightarrow> json pydict" where
  "doc_dict j = (case j of JDict d \<Rightarrow> d | _ \<Rightarrow> [])"

definition shown :: "json \<Rightarrow> string \<Rightarrow> string \<Rightarrow> string" where
  "shown doc k dflt = py_str (jget_or doc k (JStr dflt))"

definition schema_diff_item :: "nat \<Rightarrow> json \<Rightarrow> evidence_item" where
  "schema_diff_item i item =
     \<lparr>it_citation = ''schema-diff:'' @ show_nat i, it_kind = ''schema_diff'',
      it_summary = shown item ''classification'' ''unknown'' @ '' diff at '' @ shown item ''path'' ''[unknown]''
        @ '' message='' @ truncate_text (jget_or item ''message'' (jget_or item ''diffs'' (JList []))) 180,
      it_details = doc_dict item\<rparr>"

definition snapshot_item :: "nat \<Rightarrow> json \<Rightarrow> evidence_item" where
  "snapshot_item i item =
     \<lparr>it_citation = ''snapshot:'' @ show_nat i, it_kind = ''payload_snapshot'',
      it_summary = ''source='' @ shown item ''source'' ''unknown'' @ '' classification='' @ shown item ''classification'' ''unknown''
        @ '' fingerprint='' @ py_take 12 (shown item ''fingerprint'' []),
      it_details = doc_dict item\<rparr>"

definition validation_item :: "nat \<Rightarrow> json \<Rightarrow> evidence_item" where
  "validation_item i item =
     \<lparr>it_citation = ''validation:'' @ show_nat i, it_kind = ''validation_error'',
      it_summary = ''path='' @ shown item ''path'' ''[unknown]'' @ '' errors=''
        @ truncate_text (jget_or item ''errors'' (JList [])) 180,
      it_details = doc_dict item\<rparr>"

definition dlq_item :: "nat \<Rightarrow> dlq_row \<Rightarrow> evidence_item" where
  "dlq_item i r =
     \<lparr>it_citation = ''dlq:'' @ show_nat i, it_kind = ''dlq_entry'',
      it_summary = ''consumer='' @ dl_consumer r @ '' attempts='' @ show_int (dl_count r) @ '' reason='' @ dl_reason r
        @ '' target='' @ dl_url r,
      it_details = [(''id'', JStr (dl_id r)), (''event_id'', JStr (dl_event r)), (''consumer_id'', JStr (dl_consumer r)),
        (''target_url'', JStr (dl_url r)), (''failure_reason'', JStr (dl_reason r)), (''attempt_count'', JInt (dl_count r)),
        (''created_at'', JStr (isoformat (dl_created r))), (''last_attempt_at'', JStr (isoformat (dl_last r))),
        (''payload'', dl_payload r)]\<rparr>"

definition event_item :: "nat \<Rightarrow> json \<Rightarrow> evidence_item" where
  "event_item i entry =
     \<lparr>it_citation = ''drift-event-dlq:'' @ show_nat i, it_kind = ''drift_event_dlq'',
      it_summary = ''publisher='' @ shown entry ''publisher_name'' ''unknown''
        @ '' attempts='' @ py_str (jget_or entry ''attempt_count'' (JInt 0))
        @ '' reason='' @ shown entry ''failure_reason'' ''unknown'',
      it_details = doc_dict entry\<rparr>"

definition attempt_item :: "nat \<Rightarrow> delivery_attempt \<Rightarrow> evidence_item" where
  "attempt_item i a =
     \<lparr>it_citation = ''attempt:'' @ show_nat i, it_kind = ''delivery_attempt'',
      it_summary = ''consumer='' @ da_consumer a @ '' success='' @ py_str (JBool (da_success a))
        @ '' attempts='' @ show_int (da_count a)
        @ '' reason='' @ (case da_reason a of Some r \<Rightarrow> if r \<noteq> [] then r else ''ok'' | None \<Rightarrow> ''ok''),
      it_details = [(''id'', JStr (da_id a)), (''event_id'', JStr (da_event a)), (''consumer_id'', JStr (da_consumer a)),
        (''target_url'', JStr (da_url a)), (''success'', JBool (da_success a)),
        (''failure_reason'', opt_json JStr (da_reason a)), (''attempt_count'', JInt (da_count a)),
        (''attempted_at'', JStr (isoformat (da_at a)))]\<rparr>"

record review_request =
  rq_endpoint :: string
  rq_evidence_limit :: nat
  rq_review_limit :: nat

definition request_valid :: "review_request \<Rightarrow> bool" where
  "request_valid q \<longleftrightarrow> 1 \<le> rq_evidence_limit q \<and> rq_evidence_limit q \<le> 25
     \<and> 1 \<le> rq_review_limit q \<and> rq_review_limit q \<le> 25"

definition dlq_items :: "rdb \<Rightarrow> string \<Rightarrow> nat \<Rightarrow> evidence_item list" where
  "dlq_items db endpoint_id limit = numbered dlq_item (take limit (sort_desc dl_last
     (filter (\<lambda>r. dl_endpoint r = endpoint_id) (dlq db))))"

definition event_items :: "rdb \<Rightarrow> string \<Rightarrow> nat \<Rightarrow> evidence_item list" where
  "event_items db endpoint_id limit = numbered event_item
     (filter (has_endpoint endpoint_id) (list_event_dlq db (limit * 2)))"

definition attempt_items :: "rdb \<Rightarrow> string \<Rightarrow> nat \<Rightarrow> evidence_item list" where
  "attempt_items db endpoint_id limit = numbered attempt_item (take (limit * 2) (sort_desc da_at
     (filter (\<lambda>a. da_endpoint a = endpoint_id) (attempts db))))"

definition note_if :: "bool \<Rightarrow> string \<Rightarrow> string list" where
  "note_if b s = (if b then [s] else [])"

definition evidence_bundle :: "rdb \<Rightarrow> mem_store option \<Rightarrow> review_request \<Rightarrow> reg_endpoint \<Rightarrow> evidence" where
  "evidence_bundle db document_store q ep =
     (let docs = (\<lambda>kind limit. fetch_doc_items document_store kind (rq_endpoint q) limit);
          n = rq_evidence_limit q;
          schema_versions = fetch_schema_versions db (rq_endpoint q) (rq_review_limit q);
          schema_diffs = docs ''schema_diffs'' n;
          payload_snapshots = docs ''payload_snapshots'' n;
          validation_failures = docs ''validation_errors'' n;
          replay_artifacts = docs ''replay_artifacts'' n;
          reviews = docs ''contract_reviews'' (rq_review_limit q);
          violations = fetch_drift_violations db (rq_endpoint q) n;
          dlq_entries = dlq_items db (rq_endpoint q) n;
          drift_event_dlq_entries = event_items db (rq_endpoint q) n;
          insufficient = (schema_diffs = [] \<and> violations = [] \<and> payload_snapshots = []
            \<and> validation_failures = [] \<and> dlq_entries = [] \<and> drift_event_dlq_entries = [])
      in \<lparr>ev_endpoint_id = re_id ep, ev_endpoint_name = re_name ep, ev_space = re_namespace ep,
          ev_service = re_service ep, ev_method = re_method ep, ev_route = re_route ep,
          ev_current = map_option sv_version (first_row (filter sv_current schema_versions)),
          ev_schema_diffs = numbered schema_diff_item schema_diffs,
          ev_snapshots = numbered snapshot_item payload_snapshots,
          ev_validations = numbered validation_item validation_failures,
          ev_dlq = dlq_entries, ev_event_dlq = drift_event_dlq_entries,
          ev_attempts = attempt_items db (rq_endpoint q) n,
          ev_subscriptions = map subscription_dict (list_subscriptions db (Some (rq_endpoint q))),
          ev_violations = violations,
          ev_notes =
           note_if (validation_failures \<noteq> []) ''validation failures are captured from /track request validation''
           @ note_if (schema_diffs = [] \<and> violations = []) ''no schema diff documents or drift violations were found''
           @ note_if (payload_snapshots = []) ''no payload snapshots were stored for this endpoint''
           @ note_if (drift_event_dlq_entries \<noteq> [])
               (show_nat (length drift_event_dlq_entries) @ '' drift-event DLQ item(s) exist for this endpoint'')
           @ note_if (reviews \<noteq> []) (show_nat (length reviews) @ '' prior contract review result(s) already exist'')
           @ note_if (replay_artifacts \<noteq> [])
               (show_nat (length replay_artifacts) @ '' replay artifact(s) exist for this endpoint'')
           @ note_if insufficient ''available evidence is too sparse for a strong review'',
          ev_insufficient = insufficient\<rparr>)"

definition collect_contract_evidence ::
  "rdb \<Rightarrow> mem_store option \<Rightarrow> review_request \<Rightarrow> py_error + evidence" where
  "collect_contract_evidence db document_store q =
     (case fetch_endpoint_metadata db (rq_endpoint q) of
        None \<Rightarrow> Inl (ValueError ''endpoint not found'')
      | Some ep \<Rightarrow> Inr (evidence_bundle db document_store q ep))"

section \<open>The nodes of the graph\<close>

record review_env =
  rv_provider :: review_provider
  rv_provider_name :: string
  rv_model :: "string option"
  rv_latency :: string
  rv_float :: "rat \<Rightarrow> string"

text \<open>The review counters of \<^verbatim>\<open>app/runtime/metrics.py\<close>, as the labels they were incremented with.\<close>

record review_metrics =
  rm_schema_valid :: "string list"
  rm_grounding_failures :: "string list"
  rm_insufficient :: "string list"
  rm_total :: "(string \<times> string \<times> string) list"

definition no_metrics :: review_metrics where
  "no_metrics = \<lparr>rm_schema_valid = [], rm_grounding_failures = [], rm_insufficient = [], rm_total = []\<rparr>"

definition summarize_node :: "evidence \<Rightarrow> string" where
  "summarize_node e = schema_diff_summary (ev_schema_diffs e @ ev_violations e)"

definition generate_node :: "review_env \<Rightarrow> evidence \<Rightarrow> string \<Rightarrow> string \<Rightarrow> py_error + outcome" where
  "generate_node env e evidence_summary consumer_impact =
     (if ev_insufficient e
      then build_heuristic_review e evidence_summary consumer_impact
             (Some ''Insufficient evidence to produce a grounded contract review.'')
      else rv_provider env e evidence_summary consumer_impact)"

definition count_failure :: "review_env \<Rightarrow> review_metrics \<Rightarrow> review_metrics" where
  "count_failure env m = m\<lparr>rm_grounding_failures := rm_grounding_failures m @ [rv_provider_name env]\<rparr>"

definition validate_node ::
  "review_env \<Rightarrow> evidence \<Rightarrow> string \<Rightarrow> string \<Rightarrow> outcome \<Rightarrow> review_metrics \<Rightarrow> (py_error + outcome) \<times> review_metrics" where
  "validate_node env e evidence_summary consumer_impact candidate m =
     (if outcome_valid candidate
      then (Inr candidate, m\<lparr>rm_schema_valid := rm_schema_valid m @ [rv_provider_name env]\<rparr>)
      else (build_heuristic_review e evidence_summary consumer_impact
              (Some ''Model output failed schema validation; using evidence-only fallback review.''),
            count_failure env m))"

definition grounded_line :: "string list \<Rightarrow> string \<Rightarrow> bool" where
  "grounded_line cs line = list_ex (\<lambda>c. py_in c line) cs"

definition ground_node ::
  "review_env \<Rightarrow> evidence \<Rightarrow> string \<Rightarrow> string \<Rightarrow> outcome \<Rightarrow> review_metrics \<Rightarrow> (py_error + outcome) \<times> review_metrics" where
  "ground_node env e evidence_summary consumer_impact review m =
     (let m = (if oc_insufficient review
               then m\<lparr>rm_insufficient := rm_insufficient m @ [rv_provider_name env]\<rparr> else m)
      in if oc_evidence review = [] \<or> list_ex (\<lambda>line. \<not> grounded_line (citations e) line) (oc_evidence review)
         then (build_heuristic_review e evidence_summary consumer_impact
                 (Some ''Generated evidence lacked grounded citations; using evidence-only fallback review.''),
               count_failure env m)
         else (Inr review, m))"

section \<open>Persisting\<close>

definition strings_json :: "string list \<Rightarrow> json" where
  "strings_json xs = JList (map JStr xs)"

definition outcome_json :: "(rat \<Rightarrow> string) \<Rightarrow> outcome \<Rightarrow> json" where
  "outcome_json float_text r = JDict
     [(''decision'', JStr (decision_value (oc_decision r))), (''severity'', JStr (severity_value (oc_severity r))),
      (''summary'', JStr (oc_summary r)), (''consumer_impact'', JStr (oc_impact r)),
      (''impacted_consumers'', strings_json (oc_consumers r)), (''severity_explanation'', JStr (oc_explanation r)),
      (''risk_summary'', JStr (oc_risk r)), (''rollout_action'', JStr (oc_rollout r)),
      (''evidence'', strings_json (oc_evidence r)), (''recommended_fixes'', strings_json (oc_fixes r)),
      (''migration_note'', JStr (oc_migration r)), (''review_comment'', JStr (oc_comment r)),
      (''confidence'', JFloat (float_text (oc_confidence r))),
      (''insufficient_evidence'', JBool (oc_insufficient r))]"

definition evidence_json :: "evidence \<Rightarrow> json" where
  "evidence_json e =
     (let items = (\<lambda>xs. JList (map item_json xs)) in JDict
       [(''endpoint_id'', JStr (ev_endpoint_id e)), (''endpoint_name'', JStr (ev_endpoint_name e)),
        (''namespace'', JStr (ev_space e)), (''service_name'', JStr (ev_service e)),
        (''http_method'', JStr (ev_method e)), (''route_path'', JStr (ev_route e)),
        (''current_version'', opt_json JInt (ev_current e)), (''schema_diffs'', items (ev_schema_diffs e)),
        (''payload_snapshots'', items (ev_snapshots e)), (''validation_failures'', items (ev_validations e)),
        (''dlq_entries'', items (ev_dlq e)), (''drift_event_dlq_entries'', items (ev_event_dlq e)),
        (''delivery_attempts'', items (ev_attempts e)), (''subscriptions'', JList (ev_subscriptions e)),
        (''drift_violations'', items (ev_violations e)), (''notes'', strings_json (ev_notes e)),
        (''insufficient_evidence'', JBool (ev_insufficient e))])"

record review_record =
  rr_id :: string
  rr_provider :: string
  rr_model :: "string option"
  rr_created :: moment
  rr_latency :: string
  rr_summary :: string
  rr_impact :: string
  rr_context :: evidence
  rr_review :: outcome

definition record_json :: "(rat \<Rightarrow> string) \<Rightarrow> review_record \<Rightarrow> json" where
  "record_json float_text r = JDict
     [(''review_id'', JStr (rr_id r)), (''endpoint_id'', JStr (ev_endpoint_id (rr_context r))),
      (''endpoint_name'', JStr (ev_endpoint_name (rr_context r))), (''provider'', JStr (rr_provider r)),
      (''model_name'', opt_json JStr (rr_model r)), (''created_at'', JStr (isoformat (rr_created r))),
      (''latency_seconds'', JFloat (rr_latency r)), (''evidence_summary'', JStr (rr_summary r)),
      (''consumer_impact'', JStr (rr_impact r)), (''context'', evidence_json (rr_context r)),
      (''review'', outcome_json float_text (rr_review r))]"

text \<open>The state a review changes: the supply of identifiers, the document store and the counters.\<close>

definition persist_node ::
  "review_env \<Rightarrow> rdb \<Rightarrow> mem_store option \<Rightarrow> evidence \<Rightarrow> string \<Rightarrow> string \<Rightarrow> outcome \<Rightarrow> review_metrics
   \<Rightarrow> review_record \<times> rdb \<times> mem_store option \<times> review_metrics" where
  "persist_node env db document_store e evidence_summary consumer_impact review m =
     (let (review_id, db) = fresh_id db;
          r = \<lparr>rr_id = review_id, rr_provider = rv_provider_name env, rr_model = rv_model env,
               rr_created = now db, rr_latency = rv_latency env, rr_summary = evidence_summary,
               rr_impact = consumer_impact, rr_context = e, rr_review = review\<rparr>;
          document_store = map_option (\<lambda>st. snd (store_contract_review st
            (contract_review_fields (ev_endpoint_id e) (ev_endpoint_name e) (rr_provider r) (rr_model r)
               evidence_summary consumer_impact (outcome_json (rv_float env) review) (evidence_json e)
               ''runtime-contract-review'') (now db))) document_store
      in (r, db, document_store,
          m\<lparr>rm_total := rm_total m @ [(decision_value (oc_decision review), severity_value (oc_severity review),
              rv_provider_name env)]\<rparr>))"

section \<open>The service and its routes\<close>

type_synonym review_state = "rdb \<times> mem_store option \<times> review_metrics"

text \<open>The chain of nodes up to the grounded review, and the whole graph.\<close>

definition reviewed ::
  "review_env \<Rightarrow> evidence \<Rightarrow> review_metrics \<Rightarrow> (py_error + (string \<times> string \<times> outcome)) \<times> review_metrics" where
  "reviewed env e m =
     (let evidence_summary = summarize_node e in
      case consumer_impact_summary e of
        Inl err \<Rightarrow> (Inl err, m)
      | Inr consumer_impact \<Rightarrow>
          (case generate_node env e evidence_summary consumer_impact of
             Inl err \<Rightarrow> (Inl err, m)
           | Inr candidate \<Rightarrow>
               (case validate_node env e evidence_summary consumer_impact candidate m of
                  (Inl err, m) \<Rightarrow> (Inl err, m)
                | (Inr review, m) \<Rightarrow>
                    (case ground_node env e evidence_summary consumer_impact review m of
                       (Inl err, m) \<Rightarrow> (Inl err, m)
                     | (Inr review, m) \<Rightarrow> (Inr (evidence_summary, consumer_impact, review), m)))))"

definition run_review ::
  "review_env \<Rightarrow> review_state \<Rightarrow> review_request \<Rightarrow> (py_error + review_record) \<times> review_state" where
  "run_review env s q =
     (case s of (db, document_store, m) \<Rightarrow>
      (case collect_contract_evidence db document_store q of
         Inl err \<Rightarrow> (Inl err, s)
       | Inr e \<Rightarrow>
           (case reviewed env e m of
              (Inl err, m) \<Rightarrow> (Inl err, db, document_store, m)
            | (Inr (evidence_summary, consumer_impact, review), m) \<Rightarrow>
                (let (r, s) = persist_node env db document_store e evidence_summary consumer_impact review m
                 in (Inr r, s)))))"

definition review_history :: "mem_store option \<Rightarrow> string option \<Rightarrow> nat \<Rightarrow> json list" where
  "review_history document_store endpoint_id limit =
     (case document_store of None \<Rightarrow> [] | Some st \<Rightarrow> list_contract_reviews st limit endpoint_id)"

definition api_contract_review ::
  "review_env \<Rightarrow> review_state \<Rightarrow> review_request \<Rightarrow> (py_error + json) \<times> review_state" where
  "api_contract_review env s q =
     (case run_review env s q of
        (Inl (ValueError m), s) \<Rightarrow> (Inl (HTTPException 404 m), s)
      | (Inl err, s) \<Rightarrow> (Inl err, s)
      | (Inr r, s) \<Rightarrow> (Inr (record_json (rv_float env) r), s))"

section \<open>Evaluation of a provider\<close>

record review_case =
  cs_evidence :: evidence
  cs_summary :: "string option"
  cs_impact :: "string option"
  cs_expected :: "string option"

record eval_counts =
  ec_valid :: nat
  ec_severity :: nat
  ec_coverage :: nat
  ec_unsupported :: nat
  ec_migration :: nat
  ec_insufficient :: nat
  ec_confidence :: rat

definition eval_case :: "review_provider \<Rightarrow> eval_counts \<Rightarrow> review_case \<Rightarrow> py_error + eval_counts" where
  "eval_case provider n c =
     (let or_empty = (\<lambda>x. case x of None \<Rightarrow> [] | Some s \<Rightarrow> s) in
      bind_err (provider (cs_evidence c) (or_empty (cs_summary c)) (or_empty (cs_impact c))) (\<lambda>r.
        Inr (n\<lparr>ec_valid := ec_valid n + 1,
          ec_severity := ec_severity n + of_bool (case cs_expected c of None \<Rightarrow> True
            | Some s \<Rightarrow> severity_value (oc_severity r) = s),
          ec_coverage := ec_coverage n + of_bool (oc_evidence r \<noteq> []),
          ec_unsupported := ec_unsupported n
            + of_bool (list_ex (\<lambda>line. \<not> grounded_line (citations (cs_evidence c)) line) (oc_evidence r)),
          ec_migration := ec_migration n + of_bool (py_strip (oc_migration r) \<noteq> []),
          ec_confidence := ec_confidence n + oc_confidence r,
          ec_insufficient := ec_insufficient n + of_bool (oc_insufficient r)\<rparr>)))"

fun eval_loop :: "review_provider \<Rightarrow> eval_counts \<Rightarrow> review_case list \<Rightarrow> py_error + eval_counts" where
  "eval_loop provider n [] = Inr n"
| "eval_loop provider n (c # cs) = bind_err (eval_case provider n c) (\<lambda>n. eval_loop provider n cs)"

record eval_report =
  rp_cases :: nat
  rp_valid :: rat
  rp_severity :: rat
  rp_coverage :: rat
  rp_unsupported :: rat
  rp_migration :: rat
  rp_latency_ms :: rat
  rp_confidence :: rat
  rp_insufficient :: rat

definition evaluate_contract_review_cases ::
  "review_provider option \<Rightarrow> rat \<Rightarrow> review_case list \<Rightarrow> py_error + eval_report" where
  "evaluate_contract_review_cases provider total_latency cases =
     bind_err (eval_loop (case provider of None \<Rightarrow> fake_generate None None | Some p \<Rightarrow> p)
       \<lparr>ec_valid = 0, ec_severity = 0, ec_coverage = 0, ec_unsupported = 0, ec_migration = 0,
        ec_insufficient = 0, ec_confidence = 0\<rparr> cases) (\<lambda>n.
       (let total = rat_of_nat (if cases = [] then 1 else length cases);
            rate = (\<lambda>k. rat_of_nat k / total)
        in Inr \<lparr>rp_cases = length cases, rp_valid = rate (ec_valid n), rp_severity = rate (ec_severity n),
             rp_coverage = rate (ec_coverage n), rp_unsupported = rate (ec_unsupported n),
             rp_migration = rate (ec_migration n), rp_latency_ms = total_latency / total * 1000,
             rp_confidence = (if cases = [] then 0 else ec_confidence n / total),
             rp_insufficient = rate (ec_insufficient n)\<rparr>))"

end
