(* ===== verification/Track.thy ===== *)
theory Track
  imports Legacy_Engine Outbox Event_Dlq
begin

text \<open>
  The request path of the runtime guard: \<^verbatim>\<open>app/runtime/service.py\<close> and the \<open>/track\<close> and
  \<open>/api/v1/metrics\<close> handlers of \<^verbatim>\<open>app/main.py\<close>. What a request uses from outside the program
  (the digest, the consumers' servers, the event publisher, the environment, the measured time)
  is one record of parameters. The background publication runs when the request ends.
\<close>

section \<open>Operations\<close>

record track_env =
  te_sha256 :: "string \<Rightarrow> string"
  te_post :: http_post
  te_publisher :: publisher
  te_publisher_name :: string
  te_inline :: "string option"
  te_elapsed :: string

record submission =
  sm_namespace :: string
  sm_service :: string
  sm_method :: string
  sm_route :: string
  sm_payload :: "json pydict"

text \<open>\<open>d.__dict__\<close> of a diff item.\<close>

definition diff_json :: "diff_item \<Rightarrow> json" where
  "diff_json d = JDict
     [(''path'', JStr (di_path d)), (''old_type'', opt_json JStr (di_old_type d)),
      (''new_type'', opt_json JStr (di_new_type d)), (''old_nullable'', opt_json JBool (di_old_nullable d)),
      (''new_nullable'', opt_json JBool (di_new_nullable d)),
      (''classification'', JStr (compat_name (di_class d))), (''reason'', JStr (di_reason d))]"

definition inline_delivery :: "track_env \<Rightarrow> bool" where
  "inline_delivery env \<longleftrightarrow> py_lower (case te_inline env of None \<Rightarrow> ''true'' | Some v \<Rightarrow> v) = ''true''"

definition drift_payload :: "string \<Rightarrow> string \<Rightarrow> string \<Rightarrow> int \<Rightarrow> json list \<Rightarrow> json" where
  "drift_payload event_id endpoint_id classification new_version ds = JDict
     [(''event_id'', JStr event_id), (''endpoint_id'', JStr endpoint_id),
      (''classification'', JStr classification), (''new_version'', JInt new_version), (''diffs'', JList ds)]"

definition new_outbox_row :: "rdb \<Rightarrow> string \<Rightarrow> subscription \<Rightarrow> string \<Rightarrow> json \<Rightarrow> outbox_row" where
  "new_outbox_row db i sub endpoint_id payload =
     \<lparr>ob_id = i, ob_sub = sub_id sub, ob_endpoint = endpoint_id, ob_payload = payload, ob_status = PENDING,
      ob_attempts = 0, ob_max = 5, ob_next = now db, ob_created = now db, ob_updated = now db\<rparr>"

definition enqueue_one :: "track_env \<Rightarrow> string \<Rightarrow> string \<Rightarrow> json \<Rightarrow> rdb \<Rightarrow> subscription \<Rightarrow> rdb" where
  "enqueue_one env event_id endpoint_id payload db sub =
     (let (outbox_id, db) = fresh_id db;
          db = db\<lparr>outbox := outbox db @ [new_outbox_row db outbox_id sub endpoint_id payload]\<rparr>
      in if inline_delivery env then
           (let (ok, db) = deliver_with_retry (te_post env) db event_id endpoint_id sub payload 1 True
            in set_outbox outbox_id
                 (\<lambda>r. r\<lparr>ob_status := (if ok then DELIVERED else FAILED), ob_attempts := ob_attempts r + 1\<rparr>) db)
         else db)"

definition enqueue_webhook_outbox ::
  "track_env \<Rightarrow> rdb \<Rightarrow> string \<Rightarrow> string \<Rightarrow> string \<Rightarrow> int \<Rightarrow> json list \<Rightarrow> nat \<times> rdb" where
  "enqueue_webhook_outbox env db endpoint_id event_id classification new_version ds =
     (let affected = select_affected_subscriptions db endpoint_id new_version classification;
          payload = drift_payload event_id endpoint_id classification new_version ds;
          db = foldl (enqueue_one env event_id endpoint_id payload) db affected
      in (length affected, db\<lparr>outbox_pending_gauge := outbox_pending_gauge db + int (length affected)\<rparr>))"

definition track_response ::
  "string \<Rightarrow> string \<Rightarrow> string \<Rightarrow> int \<Rightarrow> string \<Rightarrow> bool \<Rightarrow> string \<Rightarrow> nat \<Rightarrow> nat \<Rightarrow> string \<Rightarrow> json pydict" where
  "track_response endpoint_id endpoint_name namespace version fp inserted classification diff_count
     affected_count elapsed =
     [(''endpoint_id'', JStr endpoint_id), (''endpoint_name'', JStr endpoint_name),
      (''namespace'', JStr namespace), (''schema_version'', JInt version), (''fingerprint'', JStr fp),
      (''inserted'', JBool inserted), (''compatibility_classification'', JStr classification),
      (''diff_count'', JInt (int diff_count)), (''affected_consumer_count'', JInt (int affected_count)),
      (''deliveries'', JList []), (''latency_seconds'', JFloat elapsed)]"

text \<open>What happens once the drift against the prior version is classified. The new record was just
  inserted, so its fingerprint is the one of the request.\<close>

definition handle_drift ::
  "track_env \<Rightarrow> rdb \<Rightarrow> string \<Rightarrow> string \<Rightarrow> string \<Rightarrow> schema_version \<Rightarrow> schema_version \<Rightarrow> string \<Rightarrow> json list
   \<Rightarrow> nat \<times> rdb" where
  "handle_drift env db endpoint_id endpoint_name namespace prior new_record classification ds =
     (let db = db\<lparr>versions := update_where (\<lambda>v. sv_id v = sv_id new_record)
                 (\<lambda>v. v\<lparr>sv_class := classification\<rparr>) (versions db)\<rparr>;
          (event_id, db) = fresh_id db;
          (affected_count, db) = enqueue_webhook_outbox env db endpoint_id event_id classification
                                   (sv_version new_record) ds;
          db = db\<lparr>classification_total := classification_total db @ [classification],
                 drift_total := drift_total db @ [(classification, endpoint_id)]\<rparr>;
          event = \<lparr>ev_id = event_id, ev_endpoint = endpoint_id, ev_name = endpoint_name,
                   ev_namespace = namespace, ev_old_fp = sv_fingerprint prior,
                   ev_new_fp = sv_fingerprint new_record, ev_old_version = sv_version prior,
                   ev_new_version = sv_version new_record, ev_severity = classification,
                   ev_class = classification, ev_timestamp = isoformat (now db), ev_diffs = ds,
                   ev_consumers = int affected_count\<rparr>
      in (affected_count, publish_fire_and_forget (te_publisher env) (te_publisher_name env) db event))"

text \<open>The version a new record is compared with: \<open>inserted and new_record.previous_version_id\<close>.\<close>

definition prior_id :: "bool \<Rightarrow> schema_version \<Rightarrow> string option" where
  "prior_id inserted new_record =
     (case sv_previous new_record of
        Some i \<Rightarrow> if inserted \<and> i \<noteq> [] then Some i else None
      | None \<Rightarrow> None)"

definition report_drift ::
  "track_env \<Rightarrow> rdb \<Rightarrow> submission \<Rightarrow> mem_store option \<Rightarrow> string \<Rightarrow> string \<Rightarrow> json \<Rightarrow> schema_version \<Rightarrow> schema_version
   \<Rightarrow> (py_error + (string \<times> nat \<times> nat)) \<times> rdb \<times> mem_store option" where
  "report_drift env db sub document_store endpoint_id endpoint_name canonical_schema prior new_record =
     (case diff_and_classify (sv_schema prior) canonical_schema of
        Inl err \<Rightarrow> (Inl err, db, document_store)
      | Inr diff_objs \<Rightarrow>
          (let ds = map diff_json diff_objs;
               classification = compat_name (summarize_classification diff_objs);
               document_store = map_option (\<lambda>st. snd (store_schema_diff st
                 (schema_diff_fields endpoint_id endpoint_name (sm_namespace sub) (sm_service sub)
                    (sm_method sub) (sm_route sub) (sv_fingerprint prior) (sv_fingerprint new_record)
                    (sv_version prior) (sv_version new_record) classification (JList ds)
                    ''runtime-track'') (now db))) document_store;
               (affected_count, db) = handle_drift env db endpoint_id endpoint_name
                 (sm_namespace sub) prior new_record classification ds
           in (Inr (classification, length ds, affected_count), db, document_store)))"

definition track_contract ::
  "track_env \<Rightarrow> rdb \<Rightarrow> submission \<Rightarrow> mem_store option \<Rightarrow> (py_error + json pydict) \<times> rdb \<times> mem_store option" where
  "track_contract env db sub document_store =
     (let canonical_schema = canonicalize (JDict (sm_payload sub));
          new_fingerprint = fingerprint (te_sha256 env) canonical_schema;
          ((endpoint_id, endpoint_name, new_record, inserted), db) =
            upsert_schema_version db (sm_namespace sub) (sm_service sub) (sm_method sub) (sm_route sub)
              new_fingerprint canonical_schema ''SAFE'';
          document_store = map_option (\<lambda>st. snd (store_payload_snapshot st
            (payload_snapshot_fields (Some endpoint_id) (sm_namespace sub) (sm_service sub) (sm_method sub)
               (sm_route sub) (JDict (sm_payload sub)) new_fingerprint ''SAFE'' ''runtime-track'' None
               (Some [(''route_path'', JStr (sm_route sub)), (''service_name'', JStr (sm_service sub))]))
            (now db))) document_store;
          (outcome, db, document_store) =
            (case prior_id inserted new_record of
               None \<Rightarrow> (Inr (''SAFE'', 0, 0), db, document_store)
             | Some previous_version_id \<Rightarrow>
                 (case row_at sv_id previous_version_id (versions db) of
                    None \<Rightarrow> (Inl (RuntimeError ''No row was found when one was required''), db, document_store)
                  | Some prior \<Rightarrow>
                      report_drift env db sub document_store endpoint_id endpoint_name canonical_schema prior new_record))
      in (bind_err outcome (\<lambda>(classification, diff_count, affected_count).
            Inr (track_response endpoint_id endpoint_name (sm_namespace sub) (sv_version new_record)
              new_fingerprint inserted classification diff_count affected_count (te_elapsed env))),
          db, document_store))"

section \<open>The handlers\<close>

definition set_baseline :: "rdb \<Rightarrow> string \<Rightarrow> string \<Rightarrow> rdb" where
  "set_baseline db endpoint_id fp =
     db\<lparr>schema_snapshots :=
          update_where (is_snapshot endpoint_id fp) (\<lambda>s. s\<lparr>ss_baseline := True\<rparr>)
            (update_where (\<lambda>s. ss_endpoint s = endpoint_id) (\<lambda>s. s\<lparr>ss_baseline := False\<rparr>) (schema_snapshots db))\<rparr>"

definition count_severities :: "legacy_item list \<Rightarrow> nat pydict" where
  "count_severities ds =
     map (\<lambda>s. (s, length (filter (\<lambda>d. li_severity d = Some s) ds))) [''SAFE'', ''RISKY'', ''BREAKING'']"

text \<open>The backward compatibility path: the legacy tables. The result is the endpoint, whether a
  snapshot was inserted, the severities and the number of legacy diffs.\<close>

definition legacy_dual_write ::
  "rdb \<Rightarrow> string \<Rightarrow> string \<Rightarrow> string \<Rightarrow> string \<Rightarrow> json \<Rightarrow> (string \<times> bool \<times> nat pydict \<times> nat) \<times> rdb" where
  "legacy_dual_write db service_name http_method route_path legacy_fp normalized =
     (let ((endpoint_id, inserted), db) =
            register_payload_snapshot db service_name http_method route_path legacy_fp normalized
      in case get_active_baseline_snapshot db endpoint_id of
           None \<Rightarrow>
             ((endpoint_id, inserted, count_severities [], 0),
              if inserted then set_baseline db endpoint_id legacy_fp else db)
         | Some (baseline_fingerprint, baseline) \<Rightarrow>
             if baseline_fingerprint \<noteq> legacy_fp then
               (let legacy_diffs = classify_contract_drift (structural_diff baseline normalized)
                in ((endpoint_id, inserted, count_severities legacy_diffs,
                     length (filter (\<lambda>d. li_severity d \<noteq> None) legacy_diffs)),
                    log_drift_violations db endpoint_id legacy_fp legacy_diffs))
             else ((endpoint_id, inserted, count_severities [], 0), db))"

definition jint_of :: "json \<Rightarrow> int" where
  "jint_of j = (case j of JInt i \<Rightarrow> i | _ \<Rightarrow> 0)"

text \<open>An exception of \<open>track_contract\<close> leaves the transaction to be rolled back.\<close>

definition track_payload ::
  "track_env \<Rightarrow> rdb \<Rightarrow> submission \<Rightarrow> mem_store option \<Rightarrow> (py_error + json) \<times> rdb \<times> mem_store option" where
  "track_payload env db submission document_store =
     (let benchmark_mode = startswith (py_lower (sm_namespace submission)) ''k6'';
          submission = submission\<lparr>sm_method := py_upper (sm_method submission)\<rparr>;
          (res, db', st) = track_contract env db submission (if benchmark_mode then None else document_store);
          st = (if benchmark_mode then document_store else st)
      in case res of
           Inl err \<Rightarrow> (Inl err, db\<lparr>next_id := next_id db'\<rparr>, st)
         | Inr result \<Rightarrow>
             if benchmark_mode then (Inr (JDict result), db', st)
             else
               (let payload = JDict (sm_payload submission)
                in case (structural_string payload, fingerprint_schema (te_sha256 env) payload) of
                     (Inr structural, Inr legacy_fp) \<Rightarrow>
                       (let ((endpoint_id, inserted, severities, legacy_diff_count), db') =
                              legacy_dual_write db' (sm_service submission) (sm_method submission)
                                (sm_route submission) legacy_fp (normalize_types payload);
                            result = dict_set ''legacy_endpoint_id'' (JStr endpoint_id) result;
                            result = dict_set ''structural'' (JStr structural) result;
                            result = dict_set ''severities'' (JDict (map_vals (\<lambda>n. JInt (int n)) severities)) result;
                            result = dict_set ''diff_count'' (JInt (max
                              (jint_of (jget_or (JDict result) ''diff_count'' (JInt 0))) (int legacy_diff_count))) result;
                            result = dict_set ''inserted'' (JBool
                              (truthy (jget_or (JDict result) ''inserted'' (JBool False)) \<or> inserted)) result
                        in (Inr (JDict result), db', st))
                   | (Inl err, _) \<Rightarrow> (Inl err, db', st)
                   | (_, Inl err) \<Rightarrow> (Inl err, db', st)))"

definition fetch_runtime_metrics :: "rdb \<Rightarrow> mem_store option \<Rightarrow> json" where
  "fetch_runtime_metrics db document_store =
     (case document_store of
        None \<Rightarrow> get_runtime_metrics db
      | Some st \<Rightarrow>
          (let reviews = list_contract_reviews st 200 None;
               thin = filter (\<lambda>item. truthy (jget_or (jget_or item ''review'' (JDict [])) ''insufficient_evidence'' JNull)) reviews
           in case get_runtime_metrics db of
                JDict metrics \<Rightarrow> JDict
                  (dict_set ''contract_review_insufficient_evidence_count'' (JInt (int (length thin)))
                    (dict_set ''contract_review_count'' (JInt (int (length reviews))) metrics))
              | j \<Rightarrow> j))"

definition request_validation_handler ::
  "mem_store option \<Rightarrow> moment \<Rightarrow> string \<Rightarrow> string \<Rightarrow> json \<Rightarrow> string option \<Rightarrow> (int \<times> json) \<times> mem_store option" where
  "request_validation_handler document_store t path http_method errors body =
     ((422, JDict [(''detail'', errors)]),
      map_option (\<lambda>st. snd (store_validation_error st
        (validation_error_fields ''fastapi-validation'' path errors
           (case body of None \<Rightarrow> [] | Some raw \<Rightarrow> raw) (Some [(''method'', JStr http_method)])) t)) document_store)"

section \<open>What a delivery and the outbox leave alone\<close>

lemma delivery_loop_frame2:
  assumes "delivery_loop post ev e sub p m persist db ks = (ok, db')"
  shows "event_dlq db' = event_dlq db \<and> event_dlq_size db' = event_dlq_size db
    \<and> outbox_pending_gauge db' = outbox_pending_gauge db \<and> api_endpoints db' = api_endpoints db
    \<and> schema_snapshots db' = schema_snapshots db \<and> drift_violations db' = drift_violations db"
  using assms
proof (induction ks arbitrary: db)
  case (Cons k ks)
  then show ?case
    by (auto simp: Let_def log_attempt_def upsert_dlq_def fresh_id_def case_prod_unfold split: if_splits)
qed simp

lemma deliver_frame2:
  assumes "deliver_with_retry post db ev e sub p m persist = (ok, db')"
  shows "event_dlq db' = event_dlq db" "event_dlq_size db' = event_dlq_size db"
    "outbox_pending_gauge db' = outbox_pending_gauge db" "schema_snapshots db' = schema_snapshots db"
    "api_endpoints db' = api_endpoints db" "drift_violations db' = drift_violations db"
  using assms delivery_loop_frame2 by (auto simp: deliver_with_retry_def split: if_splits)

text \<open>A state that differs in the outbox and the webhook tables only.\<close>

definition same_registry :: "rdb \<Rightarrow> rdb \<Rightarrow> bool" where
  "same_registry db db' \<longleftrightarrow>
     versions db' = versions db \<and> endpoints db' = endpoints db \<and> subscriptions db' = subscriptions db
     \<and> event_dlq db' = event_dlq db \<and> event_dlq_size db' = event_dlq_size db \<and> now db' = now db
     \<and> schema_snapshots db' = schema_snapshots db \<and> api_endpoints db' = api_endpoints db
     \<and> drift_violations db' = drift_violations db
     \<and> next_id db \<le> next_id db' \<and> (dlq_ok db \<longrightarrow> dlq_ok db')"

lemma same_registry_trans: "same_registry a b \<Longrightarrow> same_registry b c \<Longrightarrow> same_registry a c"
  by (auto simp: same_registry_def)

text \<open>Every identifier in the outbox has been issued.\<close>

definition outbox_issued :: "rdb \<Rightarrow> bool" where
  "outbox_issued db \<longleftrightarrow> distinct (outbox_ids db) \<and> (\<forall>r \<in> set (outbox db). issued (next_id db) (ob_id r))"

text \<open>One row enqueued: the row as it is left, and the rest of the outbox.\<close>

definition enqueued :: "track_env \<Rightarrow> string \<Rightarrow> string \<Rightarrow> json \<Rightarrow> rdb \<Rightarrow> subscription \<Rightarrow> outbox_row" where
  "enqueued env ev e payload db sub =
     (let row = new_outbox_row db (gen_uuid (next_id db)) sub e payload in
      if inline_delivery env then
        row\<lparr>ob_status := (if is_ok (te_post env (Suc (next_id db)) (sub_url sub) payload) then DELIVERED else FAILED),
            ob_attempts := 1\<rparr>
      else row)"

lemma deliver_one:
  assumes "sub_active sub"
  shows "fst (deliver_with_retry post db ev e sub p 1 persist) = is_ok (post (next_id db) (sub_url sub) p)"
  using assms by (simp add: deliver_with_retry_def Let_def)

lemma enqueue_one_spec:
  assumes ok: "outbox_issued db" and act: "sub_active sub"
  shows "same_registry db (enqueue_one env ev e payload db sub)"
    and "outbox (enqueue_one env ev e payload db sub) = outbox db @ [enqueued env ev e payload db sub]"
    and "outbox_pending_gauge (enqueue_one env ev e payload db sub) = outbox_pending_gauge db"
    and "outbox_issued (enqueue_one env ev e payload db sub)"
proof -
  let ?row = "new_outbox_row db (gen_uuid (next_id db)) sub e payload"
  let ?db = "db\<lparr>next_id := Suc (next_id db), outbox := outbox db @ [?row]\<rparr>"
  have row: "new_outbox_row (db\<lparr>next_id := n\<rparr>) i sub e payload = new_outbox_row db i sub e payload" for n i
    by (simp add: new_outbox_row_def)
  have id: "ob_id ?row = gen_uuid (next_id db)" by (simp add: new_outbox_row_def)
  have fresh: "\<And>r. r \<in> set (outbox db) \<Longrightarrow> ob_id r \<noteq> gen_uuid (next_id db)"
    using ok by (metis issued_fresh outbox_issued_def)
  then have gone: "gen_uuid (next_id db) \<notin> ob_id ` set (outbox db)" by (metis imageE)
  have issued: "outbox_issued d" if "outbox_ids d = outbox_ids ?db" "next_id ?db \<le> next_id d" for d
  proof -
    have le: "Suc (next_id db) \<le> next_id d" using that(2) by simp
    have "\<forall>i \<in> set (outbox_ids ?db). issued (next_id d) i"
      using ok issued_mono [OF issued_gen le] id le by (auto simp: outbox_issued_def intro: issued_mono)
    then have "\<forall>i \<in> set (outbox_ids d). issued (next_id d) i" unfolding that(1) .
    moreover have "distinct (outbox_ids d)"
      unfolding that(1) using ok id gone by (simp add: outbox_issued_def)
    ultimately show ?thesis by (simp add: outbox_issued_def)
  qed
  have reg: "same_registry db ?db" by (simp add: same_registry_def dlq_ok_def)
  let ?res = "enqueue_one env ev e payload db sub"
  have "same_registry db ?res \<and> outbox ?res = outbox db @ [enqueued env ev e payload db sub]
    \<and> outbox_pending_gauge ?res = outbox_pending_gauge db \<and> outbox_issued ?res"
  proof (cases "inline_delivery env")
    case False
    then have "?res = ?db" by (simp add: enqueue_one_def fresh_id_def row Let_def)
    then show ?thesis using reg issued [of ?db] False by (simp add: enqueued_def)
  next
    case True
    obtain sent d where del: "deliver_with_retry (te_post env) ?db ev e sub payload 1 True = (sent, d)"
      by (metis surj_pair)
    let ?f = "\<lambda>r. r\<lparr>ob_status := (if sent then DELIVERED else FAILED), ob_attempts := ob_attempts r + 1\<rparr>"
    have res: "?res = set_outbox (gen_uuid (next_id db)) ?f d"
      using True del by (simp add: enqueue_one_def fresh_id_def row Let_def)
    note f1 = deliver_frame [OF del] and f2 = deliver_frame2 [OF del]
    have sent: "sent = is_ok (te_post env (Suc (next_id db)) (sub_url sub) payload)"
      using deliver_one [OF act, of "te_post env" ?db ev e payload True] del by simp
    have "outbox ?res = outbox db @ [enqueued env ev e payload db sub]"
    proof -
      have "outbox d = outbox db @ [?row]" "now d = now db" using f1 by simp_all
      moreover have "update_where (\<lambda>r. ob_id r = gen_uuid (next_id db)) g (outbox db) = outbox db" for g
        by (rule update_where_none) (rule fresh)
      ultimately show ?thesis
        using True id sent fresh by (simp add: res set_outbox_def update_where_def enqueued_def new_outbox_row_def Let_def)
    qed
    moreover have "same_registry db ?res"
      using reg f1 f2 unfolding res same_registry_def by (auto simp: set_outbox_def dlq_ok_def)
    moreover have "outbox_issued ?res"
    proof (rule issued)
      show "outbox_ids ?res = outbox_ids ?db"
        using f1 unfolding res by (subst ids_set_outbox) simp_all
      show "next_id ?db \<le> next_id ?res" using f1 unfolding res by simp
    qed
    moreover have "outbox_pending_gauge ?res = outbox_pending_gauge db"
      using f2 unfolding res by (simp add: set_outbox_def)
    ultimately show ?thesis by blast
  qed
  then show "same_registry db ?res" "outbox ?res = outbox db @ [enqueued env ev e payload db sub]"
    "outbox_pending_gauge ?res = outbox_pending_gauge db" "outbox_issued ?res" by blast+
qed

text \<open>All affected subscriptions: their rows in order, each as it is left.\<close>

fun enqueued_all :: "track_env \<Rightarrow> string \<Rightarrow> string \<Rightarrow> json \<Rightarrow> rdb \<Rightarrow> subscription list \<Rightarrow> outbox_row list" where
  "enqueued_all env ev e payload db [] = []"
| "enqueued_all env ev e payload db (sub # subs) =
     enqueued env ev e payload db sub # enqueued_all env ev e payload (enqueue_one env ev e payload db sub) subs"

lemma enqueue_all_spec:
  assumes "outbox_issued db" "list_all sub_active subs"
  shows "same_registry db (foldl (enqueue_one env ev e payload) db subs)
    \<and> outbox (foldl (enqueue_one env ev e payload) db subs) = outbox db @ enqueued_all env ev e payload db subs
    \<and> outbox_pending_gauge (foldl (enqueue_one env ev e payload) db subs) = outbox_pending_gauge db
    \<and> outbox_issued (foldl (enqueue_one env ev e payload) db subs)"
  using assms
proof (induction subs arbitrary: db)
  case Nil
  then show ?case by (simp add: same_registry_def)
next
  case (Cons sub subs)
  then have act: "sub_active sub" by simp
  note one = enqueue_one_spec [OF Cons.prems(1) act, of env ev e payload]
  have "list_all sub_active subs" using Cons.prems(2) by simp
  note IH = Cons.IH [OF one(4) this]
  show ?case using IH one(1-3) same_registry_trans [OF one(1)] by simp
qed

lemma affected_active: "list_all sub_active (select_affected_subscriptions db e n c)"
  by (auto simp: select_affected_subscriptions_def affected_by_def list_all_iff)

lemma enqueued_all_view:
  "map (\<lambda>r. (ob_sub r, ob_endpoint r, ob_payload r)) (enqueued_all env ev e payload db subs) =
     map (\<lambda>s. (sub_id s, e, payload)) subs"
  by (induction subs arbitrary: db) (simp_all add: enqueued_def new_outbox_row_def Let_def)

lemma enqueue_later_now: "\<not> inline_delivery env \<Longrightarrow> now (enqueue_one env ev e payload db sub) = now db"
  by (simp add: enqueue_one_def fresh_id_def Let_def)

lemma enqueued_all_status:
  "list_all (\<lambda>r. if inline_delivery env then ob_status r \<in> {DELIVERED, FAILED} \<and> ob_attempts r = 1
      else ob_status r = PENDING \<and> ob_attempts r = 0 \<and> ob_max r = 5 \<and> ob_next r = now db)
    (enqueued_all env ev e payload db subs)"
proof (induction subs arbitrary: db)
  case (Cons sub subs)
  then show ?case
    using Cons.IH [of "enqueue_one env ev e payload db sub"] enqueue_later_now [of env ev e payload db sub]
    by (simp add: enqueued_def new_outbox_row_def Let_def cong: if_cong split: if_splits)
qed simp

lemma enqueue_webhook_outbox_spec:
  assumes ok: "outbox_issued db" and enq: "enqueue_webhook_outbox env db e ev c n ds = (k, db')"
  shows "k = length (select_affected_subscriptions db e n c)"
    and "same_registry db db'" and "outbox_issued db'"
    and "outbox db' = outbox db @ enqueued_all env ev e (drift_payload ev e c n ds) db (select_affected_subscriptions db e n c)"
    and "outbox_pending_gauge db' = outbox_pending_gauge db + int k"
proof -
  let ?subs = "select_affected_subscriptions db e n c"
  let ?db = "foldl (enqueue_one env ev e (drift_payload ev e c n ds)) db ?subs"
  have eq: "k = length ?subs" "db' = ?db\<lparr>outbox_pending_gauge := outbox_pending_gauge ?db + int k\<rparr>"
    using enq by (auto simp: enqueue_webhook_outbox_def Let_def)
  note all = enqueue_all_spec [OF ok affected_active [of db e n c], of env ev e "drift_payload ev e c n ds"]
  show "k = length ?subs" by (rule eq)
  show "same_registry db db'" using all by (simp add: eq(2) same_registry_def dlq_ok_def)
  have "outbox_issued ?db" using all by blast
  then show "outbox_issued db'" by (simp add: eq(2) outbox_issued_def)
  show "outbox db' = outbox db @ enqueued_all env ev e (drift_payload ev e c n ds) db ?subs"
    using all by (simp add: eq(2))
  show "outbox_pending_gauge db' = outbox_pending_gauge db + int k" using all by (simp add: eq(2))
qed

end
