(* ===== verification/Review_Facts.thy ===== *)
theory Review_Facts
  imports Review_Graph Track
begin

text \<open>
  What a contract review guarantees: it is returned whatever the model does, it is valid and every
  line of its evidence cites a collected item, its verdict without a model is a function of the
  evidence; and where the wording of the evidence decides more than its classification.
\<close>

section \<open>The derived review\<close>

lemma review_summary_ne: "review_summary severity insufficient reason \<noteq> []"
  by (cases severity) (auto simp: review_summary_def Let_def split: option.splits)

lemma migration_note_ne: "migration_note severity e impact \<noteq> []"
  by (cases severity) (simp_all add: migration_note_def)

lemma confidence_bounds: "0 \<le> confidence_for_review severity n b" "confidence_for_review severity n b \<le> 1"
  by (simp_all add: confidence_for_review_def)

lemma review_comment_ne: "review_comment r summary impact \<noteq> []"
  by (simp add: review_comment_def)

text \<open>Deriving a review raises exactly when the consumer impact is empty.\<close>

lemma draft_valid: "outcome_valid (draft_review e impact reason) \<longleftrightarrow> impact \<noteq> []"
  by (simp add: draft_review_def Let_def outcome_valid_def review_summary_ne migration_note_ne confidence_bounds)

lemma derived_review_returns:
  "impact \<noteq> [] \<Longrightarrow> \<exists>r. build_heuristic_review e summary impact reason = Inr r"
  by (simp add: build_heuristic_review_def Let_def draft_valid)

lemma derived_review_fields:
  assumes "build_heuristic_review e summary impact reason = Inr r"
  shows "outcome_valid r"
    "oc_decision r = decision_for_severity (severity_from_evidence e) (derived_insufficient e)"
    "oc_evidence r = map citation_line (derived_items e)"
    "oc_insufficient r = derived_insufficient e"
proof -
  let ?d = "draft_review e impact reason"
  have valid: "outcome_valid ?d" and r: "r = ?d\<lparr>oc_comment := review_comment ?d summary impact @ comment_note e reason\<rparr>"
    using assms by (auto simp: build_heuristic_review_def Let_def split: if_splits)
  show "outcome_valid r" using valid by (simp add: r outcome_valid_def review_comment_ne)
  show "oc_decision r = decision_for_severity (severity_from_evidence e) (derived_insufficient e)"
    "oc_evidence r = map citation_line (derived_items e)" "oc_insufficient r = derived_insufficient e"
    by (simp_all add: r) (simp_all add: draft_review_def Let_def)
qed

lemma derived_items_cited: "item \<in> set (derived_items e) \<Longrightarrow> it_citation item \<in> set (citations e)"
  unfolding derived_items_def citations_def cited_items_def by (auto dest!: in_set_takeD)

lemma derived_line_grounded:
  assumes "line \<in> set (map citation_line (derived_items e))" shows "grounded_line (citations e) line"
proof -
  obtain item where item: "item \<in> set (derived_items e)" "line = citation_line item" using assms by auto
  have "py_in (it_citation item) line" unfolding item(2) citation_line_def by (auto intro!: sublist_ConsI)
  then show ?thesis
    using derived_items_cited [OF item(1)] by (auto simp: grounded_line_def list_ex_iff)
qed

section \<open>Severity of the evidence\<close>

lemma severity_loop_spec:
  "severity_loop s items =
     (if list_ex is_breaking_item items then BREAKING_CHANGE
      else if list_ex is_risky_item items then RISKY_CHANGE else s)"
  by (induction s items rule: severity_loop.induct) simp_all

lemma severity_from_evidence_spec:
  "severity_from_evidence e =
     (if list_ex is_breaking_item (ev_schema_diffs e @ ev_violations e) then BREAKING_CHANGE
      else if list_ex is_risky_item (ev_schema_diffs e @ ev_violations e) then RISKY_CHANGE else COMPATIBLE)"
  unfolding severity_from_evidence_def by (rule severity_loop_spec)

section \<open>Collected evidence\<close>

lemma length_numbered [simp]: "length (numbered f xs) = length xs"
  by (simp add: numbered_def)

lemma numbered_Nil [simp]: "numbered f xs = [] \<longleftrightarrow> xs = []"
  by (metis length_0_conv length_numbered)

lemma collected:
  assumes "collect_contract_evidence db st q = Inr e"
  shows "ev_attempts e = attempt_items db (rq_endpoint q) (rq_evidence_limit q)"
    and "evidence_count e = 0 \<Longrightarrow> ev_insufficient e"
    and "ev_endpoint_id e = rq_endpoint q"
proof -
  from assms obtain ep where ep: "fetch_endpoint_metadata db (rq_endpoint q) = Some ep"
    and e: "e = evidence_bundle db st q ep"
    unfolding collect_contract_evidence_def by (cases "fetch_endpoint_metadata db (rq_endpoint q)") simp_all
  from ep have id: "re_id ep = rq_endpoint q"
    unfolding fetch_endpoint_metadata_def by (rule row_at_SomeD [THEN conjunct2])
  show "ev_attempts e = attempt_items db (rq_endpoint q) (rq_evidence_limit q)"
    by (simp add: e evidence_bundle_def Let_def)
  show "ev_endpoint_id e = rq_endpoint q" by (simp add: e evidence_bundle_def Let_def id)
  show "evidence_count e = 0 \<Longrightarrow> ev_insufficient e"
    by (simp add: e evidence_bundle_def Let_def evidence_count_def citations_def cited_items_def)
qed

lemma attempt_counts:
  "map_err (\<lambda>item. py_int (jget_or (JDict (it_details item)) ''attempt_count'' (JInt 0))) (numbered attempt_item as)
    = Inr (map da_count as)"
proof -
  have one: "py_int (jget_or (JDict (it_details (attempt_item i a))) ''attempt_count'' (JInt 0)) = Inr (da_count a)" for i a
    by (simp add: attempt_item_def jget_or_def)
  have "map_err (\<lambda>item. py_int (jget_or (JDict (it_details item)) ''attempt_count'' (JInt 0)))
      (map (\<lambda>(i, x). attempt_item i x) (enumerate k as)) = Inr (map da_count as)" for k
    by (induction as arbitrary: k) (simp_all add: one)
  then show ?thesis unfolding numbered_def .
qed

lemma sum_of_positive: "\<forall>c \<in> set (map f xs). (1 :: int) \<le> c \<Longrightarrow> xs \<noteq> [] \<Longrightarrow> 1 \<le> sum_list (map f xs)"
proof (induction xs)
  case (Cons x xs)
  then show ?case by (cases "xs = []") auto
qed simp

lemma impact_of_attempts:
  assumes "ev_attempts e = numbered attempt_item as"
  obtains s where "consumer_impact_summary e = Inr s" "s \<noteq> []"
    "sum_list (map da_count as) \<noteq> 0 \<Longrightarrow>
       py_in (show_int (sum_list (map da_count as)) @ '' recorded delivery attempt(s) failed'') s"
proof -
  let ?first = "show_nat (length (filter (\<lambda>s. truthy (jget_or s ''active'' (JBool True))) (ev_subscriptions e)))
    @ '' active consumer(s) are subscribed to this endpoint''"
  have ne: "py_join sep (x # xs) \<noteq> []" if "x \<noteq> []" for x sep :: string and xs
    using that by (cases xs) simp_all
  show thesis
    by (rule that) (auto simp: consumer_impact_summary_def Let_def assms attempt_counts intro!: in_join ne)
qed

section \<open>The chain of nodes\<close>

lemma reviewed_steps:
  assumes "reviewed env e m = (Inr (s, i, r), m')"
  obtains c v m1 where "consumer_impact_summary e = Inr i" "s = summarize_node e"
    "generate_node env e s i = Inr c" "validate_node env e s i c m = (Inr v, m1)"
    "ground_node env e s i v m1 = (Inr r, m')"
  using assms unfolding reviewed_def Let_def
  by (auto split: sum.splits prod.splits)

lemma validate_valid:
  assumes "validate_node env e s i c m = (Inr v, m1)"
  shows "outcome_valid v" "v = c \<or> (\<exists>reason. build_heuristic_review e s i reason = Inr v)"
  using assms derived_review_fields(1) by (auto simp: validate_node_def split: if_splits)

lemma ground_grounded:
  assumes "ground_node env e s i v m1 = (Inr r, m')"
  shows "(r = v \<and> oc_evidence v \<noteq> [] \<and> list_all (grounded_line (citations e)) (oc_evidence v))
    \<or> (\<exists>reason. build_heuristic_review e s i reason = Inr r)"
  using assms by (auto simp: ground_node_def Let_def list_ex_iff list_all_iff split: if_splits)

lemma reviewed_sound:
  assumes "reviewed env e m = (Inr (s, i, r), m')"
  shows "outcome_valid r" and "list_all (grounded_line (citations e)) (oc_evidence r)"
    and "ev_insufficient e \<Longrightarrow> oc_decision r = BLOCK \<and> oc_insufficient r"
proof -
  obtain c v m1 where st: "generate_node env e s i = Inr c" "validate_node env e s i c m = (Inr v, m1)"
    "ground_node env e s i v m1 = (Inr r, m')" using assms by (rule reviewed_steps)
  have derived: "list_all (grounded_line (citations e)) (oc_evidence x)"
    "ev_insufficient e \<Longrightarrow> oc_decision x = BLOCK \<and> oc_insufficient x"
    if "build_heuristic_review e s i reason = Inr x" for x reason
    using derived_review_fields [OF that] derived_line_grounded
    by (auto simp: list_all_iff decision_for_severity_def derived_insufficient_def)
  show "outcome_valid r"
    using ground_grounded [OF st(3)] validate_valid(1) [OF st(2)] derived_review_fields(1) by blast
  show "list_all (grounded_line (citations e)) (oc_evidence r)"
    using ground_grounded [OF st(3)] derived(1) by blast
  show "oc_decision r = BLOCK \<and> oc_insufficient r" if "ev_insufficient e"
  proof -
    have "\<exists>reason. build_heuristic_review e s i reason = Inr c"
      using st(1) that unfolding generate_node_def by auto
    then have "\<exists>reason. build_heuristic_review e s i reason = Inr v"
      using validate_valid(2) [OF st(2)] by blast
    then have "\<exists>reason. build_heuristic_review e s i reason = Inr r"
      using ground_grounded [OF st(3)] by blast
    then show ?thesis using derived(2) that by blast
  qed
qed

text \<open>A provider that returns whenever the consumer impact is not empty.\<close>

definition dependable :: "review_provider \<Rightarrow> bool" where
  "dependable p \<longleftrightarrow> (\<forall>e s i. i \<noteq> [] \<longrightarrow> (\<exists>r. p e s i = Inr r))"

lemma or_derived_dependable: "dependable (or_derived call)"
proof -
  have "\<exists>r. or_derived call e s i = Inr r" if "i \<noteq> []" for e s i
    using derived_review_returns [OF that] by (cases "call e s i") (simp_all add: or_derived_def)
  then show ?thesis unfolding dependable_def by blast
qed

lemma provider_dependable: "dependable (provider_of w c)"
proof (cases c)
  case Disabled
  then show ?thesis using derived_review_returns by (simp add: dependable_def provider_of_def disabled_generate_def)
next
  case Fake
  then show ?thesis using derived_review_returns by (simp add: dependable_def provider_of_def fake_generate_def)
qed (simp_all add: provider_of_def openai_generate_def gemini_generate_def ollama_generate_def or_derived_dependable)

lemma reviewed_returns:
  assumes "collect_contract_evidence db st q = Inr e" and "dependable (rv_provider env)"
  shows "\<exists>s i r m'. reviewed env e m = (Inr (s, i, r), m')"
proof -
  obtain i where i: "consumer_impact_summary e = Inr i" "i \<noteq> []"
    using impact_of_attempts [of e] collected(1) [OF assms(1)] unfolding attempt_items_def by blast
  let ?s = "summarize_node e"
  obtain c where c: "generate_node env e ?s i = Inr c"
    using derived_review_returns [OF i(2)] assms(2) i(2) unfolding generate_node_def dependable_def by metis
  obtain v m1 where v: "validate_node env e ?s i c m = (Inr v, m1)"
    using derived_review_returns [OF i(2)] unfolding validate_node_def by metis
  obtain r m' where "ground_node env e ?s i v m1 = (Inr r, m')"
    using derived_review_returns [OF i(2)] unfolding ground_node_def Let_def by metis
  then show ?thesis by (simp add: reviewed_def Let_def i(1) c v)
qed

lemma run_review_steps:
  assumes "run_review env (db, st, m) q = (Inr r, s')"
  shows "collect_contract_evidence db st q = Inr (rr_context r)"
    and "\<exists>m'. reviewed env (rr_context r) m = (Inr (rr_summary r, rr_impact r, rr_review r), m')
      \<and> s' = snd (persist_node env db st (rr_context r) (rr_summary r) (rr_impact r) (rr_review r) m')"
  using assms
  by (auto simp: run_review_def persist_node_def fresh_id_def Let_def split: sum.splits prod.splits)

section \<open>Properties\<close>

text \<open>C15: Whatever the provider returns, the review that is delivered and stored is valid and grounded:
  every line of its evidence contains the citation of a collected item; and when the collected
  evidence is insufficient the decision is to block, marked as such.\<close>

theorem review_is_grounded:
  assumes "run_review env (db, st, m) q = (Inr r, s')"
  shows "outcome_valid (rr_review r)
    \<and> (\<forall>line \<in> set (oc_evidence (rr_review r)). \<exists>c \<in> set (citations (rr_context r)). py_in c line)
    \<and> (ev_insufficient (rr_context r) \<longrightarrow> oc_decision (rr_review r) = BLOCK \<and> oc_insufficient (rr_review r))"
proof -
  obtain m' where "reviewed env (rr_context r) m = (Inr (rr_summary r, rr_impact r, rr_review r), m')"
    using run_review_steps(2) [OF assms] by blast
  from reviewed_sound [OF this] show ?thesis
    unfolding list_all_iff grounded_line_def list_ex_iff by blast
qed

text \<open>One endpoint, with one delivery that succeeded at once.\<close>

definition demo_endpoint :: rdb where
  "demo_endpoint = (empty_rdb 0)\<lparr>next_id := 2,
     endpoints := [\<lparr>re_id = ''e'', re_namespace = ''n'', re_service = ''s'', re_method = ''GET'', re_route = ''/x'',
       re_name = ''s GET /x''\<rparr>],
     attempts := [\<lparr>da_id = ''a'', da_event = ''ev'', da_consumer = ''c'', da_endpoint = ''e'', da_url = ''u'',
       da_success = True, da_reason = None, da_count = 1, da_at = 0\<rparr>]\<rparr>"

definition demo_review :: review_env where
  "demo_review = \<lparr>rv_provider = disabled_generate, rv_provider_name = ''disabled'', rv_model = None,
     rv_latency = ''0.1'', rv_float = (\<lambda>x. ''0.5'')\<rparr>"

definition demo_request :: review_request where
  "demo_request = \<lparr>rq_endpoint = ''e'', rq_evidence_limit = 5, rq_review_limit = 10\<rparr>"

lemma demo_run: "\<exists>r s'. run_review demo_review (demo_endpoint, None, no_metrics) demo_request = (Inr r, s')
    \<and> collect_contract_evidence demo_endpoint None demo_request = Inr (rr_context r) \<and> ev_insufficient (rr_context r)"
proof -
  have e: "\<exists>e. collect_contract_evidence demo_endpoint None demo_request = Inr e \<and> ev_insufficient e"
    by (simp add: collect_contract_evidence_def fetch_endpoint_metadata_def demo_endpoint_def demo_request_def
        row_at_def evidence_bundle_def Let_def fetch_doc_items_def fetch_drift_violations_def dlq_items_def
        event_items_def list_event_dlq_def empty_rdb_def)
  then obtain e where e: "collect_contract_evidence demo_endpoint None demo_request = Inr e" "ev_insufficient e" by blast
  have "dependable (rv_provider demo_review)"
    using provider_dependable [of undefined Disabled] by (simp add: demo_review_def provider_of_def)
  from reviewed_returns [OF e(1) this, of no_metrics] obtain s i r m'
    where r: "reviewed demo_review e no_metrics = (Inr (s, i, r), m')" by blast
  then have "\<exists>rec s'. run_review demo_review (demo_endpoint, None, no_metrics) demo_request = (Inr rec, s')"
    by (simp add: run_review_def e(1) persist_node_def fresh_id_def Let_def)
  then obtain rec s' where rec: "run_review demo_review (demo_endpoint, None, no_metrics) demo_request = (Inr rec, s')" by blast
  from run_review_steps(1) [OF rec] e have "rr_context rec = e" by simp
  with rec e show ?thesis by blast
qed

lemma review_is_grounded_witness:
  "\<exists>r s'. run_review demo_review (demo_endpoint, None, no_metrics) demo_request = (Inr r, s')
    \<and> oc_decision (rr_review r) = BLOCK"
proof -
  obtain r s' where r: "run_review demo_review (demo_endpoint, None, no_metrics) demo_request = (Inr r, s')"
    "ev_insufficient (rr_context r)" using demo_run by blast
  with review_is_grounded [OF r(1)] show ?thesis by blast
qed



text \<open>C25: Without a model the decision is a function of the collected evidence: sparse evidence blocks, as
  does a breaking item among the schema diffs and drift violations; otherwise a risky item needs
  changes, and only evidence without either is approved.\<close>

theorem derived_verdict:
  assumes "rv_provider env = disabled_generate" and "run_review env (db, st, m) q = (Inr r, s')"
  shows "(let e = rr_context r; items = ev_schema_diffs e @ ev_violations e
    in oc_decision (rr_review r) =
      (if ev_insufficient e then BLOCK
       else if list_ex is_breaking_item items then BLOCK
       else if list_ex is_risky_item items then NEEDS_CHANGES
       else APPROVE))"
proof -
  let ?e = "rr_context r"
  have e: "collect_contract_evidence db st q = Inr ?e" by (rule run_review_steps(1) [OF assms(2)])
  obtain m' where "reviewed env ?e m = (Inr (rr_summary r, rr_impact r, rr_review r), m')"
    using run_review_steps(2) [OF assms(2)] by blast
  then obtain c v m1 where st: "generate_node env ?e (rr_summary r) (rr_impact r) = Inr c"
    "validate_node env ?e (rr_summary r) (rr_impact r) c m = (Inr v, m1)"
    "ground_node env ?e (rr_summary r) (rr_impact r) v m1 = (Inr (rr_review r), m')" by (rule reviewed_steps)
  have "\<exists>reason. build_heuristic_review ?e (rr_summary r) (rr_impact r) reason = Inr c"
    using st(1) assms(1) by (auto simp: generate_node_def disabled_generate_def split: if_splits)
  then have "\<exists>reason. build_heuristic_review ?e (rr_summary r) (rr_impact r) reason = Inr (rr_review r)"
    using validate_valid(2) [OF st(2)] ground_grounded [OF st(3)] by blast
  then have "oc_decision (rr_review r) = decision_for_severity (severity_from_evidence ?e) (derived_insufficient ?e)"
    using derived_review_fields(2) by blast
  moreover have "derived_insufficient ?e = ev_insufficient ?e"
    using collected(2) [OF e] by (auto simp: derived_insufficient_def)
  ultimately show ?thesis
    unfolding Let_def severity_from_evidence_spec decision_for_severity_def by simp
qed

lemma derived_verdict_witness:
  "\<exists>r s'. run_review demo_review (demo_endpoint, None, no_metrics) demo_request = (Inr r, s')
    \<and> oc_decision (rr_review r) = BLOCK"
proof -
  obtain r s' where r: "run_review demo_review (demo_endpoint, None, no_metrics) demo_request = (Inr r, s')"
    "ev_insufficient (rr_context r)" using demo_run by blast
  have "rv_provider demo_review = disabled_generate" by (simp add: demo_review_def)
  from derived_verdict [OF this r(1)] r(2) have "oc_decision (rr_review r) = BLOCK" by (simp only: Let_def if_True)
  with r(1) show ?thesis by blast
qed

text \<open>No stored schema diff is graded compatible when its changes are shown in full (180 characters):
  the shown text holds the key \<open>old_nullable\<close> of the change record and so the word the grading looks
  for, whatever the classification is; the derived review of such evidence never approves.\<close>

theorem schema_diff_never_compatible:
  assumes "jget doc ''message'' = None" and "jget doc ''diffs'' = Some (JList (map diff_json ds))" and "ds \<noteq> []"
    and "py_len (json_dumps False '', '' '': '' (JList (map diff_json ds))) \<le> 180"
    and "schema_diff_item i doc \<in> set (ev_schema_diffs e)"
  shows "severity_from_evidence e \<noteq> COMPATIBLE
    \<and> (\<forall>r. build_heuristic_review e summary impact reason = Inr r \<longrightarrow> oc_decision r \<noteq> APPROVE)"
proof -
  let ?dump = "json_dumps False '', '' '': ''"
  obtain d ds' where ds: "ds = d # ds'" using assms(3) by (cases ds) auto
  have "quote_json ''old_nullable'' = [CHR 0x22] @ ''old_'' @ ''nullable'' @ [CHR 0x22]" by code_simp
  then have q: "py_in ''nullable'' (quote_json ''old_nullable'' @ rest)" for rest
    by (simp only: append_assoc) (intro py_in_appendI(2) py_in_appendI(1), simp)
  have "py_in ''nullable'' (?dump (diff_json d))"
  proof -
    let ?item = "quote_json ''old_nullable'' @ '': '' @ ?dump (opt_json JBool (di_old_nullable d))"
    have "py_in ?item (py_join '', '' (map (\<lambda>(k, t). quote_json k @ '': '' @ t) (map_vals ?dump
        [(''path'', JStr (di_path d)), (''old_type'', opt_json JStr (di_old_type d)),
         (''new_type'', opt_json JStr (di_new_type d)), (''old_nullable'', opt_json JBool (di_old_nullable d)),
         (''new_nullable'', opt_json JBool (di_new_nullable d)),
         (''classification'', JStr (compat_name (di_class d))), (''reason'', JStr (di_reason d))])))"
      by (rule in_join) (simp add: map_vals_def)
    then have "py_in ?item (?dump (diff_json d))" by (simp add: diff_json_def sublist_ConsI py_in_appendI del: py_join.simps map_vals_simps)
    with q show ?thesis by (rule sublist_order.order_trans)
  qed
  moreover have "py_in (?dump (diff_json d)) (?dump (JList (map diff_json ds)))"
  proof -
    have "py_in (?dump (diff_json d)) (py_join '', '' (map ?dump (map diff_json ds)))" by (rule in_join) (simp add: ds)
    then show ?thesis by (simp add: sublist_ConsI py_in_appendI)
  qed
  ultimately have dump: "py_in ''nullable'' (?dump (JList (map diff_json ds)))" by (rule sublist_order.order_trans)
  have "truncate_text (jget_or doc ''message'' (jget_or doc ''diffs'' (JList []))) 180 = ?dump (JList (map diff_json ds))"
    using assms(1,2,4) by (simp add: jget_or_def truncate_text_def Let_def del: json_dumps.simps)
  then have shown: "py_in ''nullable'' (truncate_text (jget_or doc ''message'' (jget_or doc ''diffs'' (JList []))) 180)"
    using dump by (simp only:)
  have "py_in ''nullable'' (it_summary (schema_diff_item i doc))"
    unfolding schema_diff_item_def evidence_item.select_convs by (intro py_in_appendI(2)) (rule shown)
  then have "py_in ''nullable'' (it_summary (schema_diff_item i doc) @ rest)" for rest by (rule py_in_appendI)
  then have "py_in (py_lower ''nullable'') (graded_text (schema_diff_item i doc))"
    unfolding graded_text_def by (rule py_in_lower)
  moreover have "py_lower ''nullable'' = ''nullable''" by code_simp
  ultimately have "is_risky_item (schema_diff_item i doc)"
    by (simp add: is_risky_item_def mentions_def risky_tokens_def)
  then have sev: "severity_from_evidence e \<noteq> COMPATIBLE"
    using assms(5) unfolding severity_from_evidence_spec by (auto simp: list_ex_iff)
  moreover have "oc_decision r \<noteq> APPROVE" if "build_heuristic_review e summary impact reason = Inr r" for r
    using derived_review_fields(2) [OF that] sev by (cases "severity_from_evidence e") (auto simp: decision_for_severity_def)
  ultimately show ?thesis by blast
qed

lemma schema_diff_never_compatible_witness:
  "\<exists>d doc. di_class d = SAFE \<and> jget doc ''diffs'' = Some (JList (map diff_json [d]))
    \<and> (\<forall>e. severity_from_evidence (e\<lparr>ev_schema_diffs := [schema_diff_item 1 doc]\<rparr>) \<noteq> COMPATIBLE)"
proof -
  let ?d = "\<lparr>di_path = ''a'', di_old_type = None, di_new_type = Some ''string'', di_old_nullable = None,
    di_new_nullable = Some False, di_class = SAFE, di_reason = ''added''\<rparr>"
  let ?doc = "JDict [(''diffs'', JList (map diff_json [?d]))]"
  have len: "py_len (json_dumps False '', '' '': '' (JList (map diff_json [?d]))) \<le> 180" by code_simp
  have none: "jget ?doc ''message'' = None" and some: "jget ?doc ''diffs'' = Some (JList (map diff_json [?d]))"
    by simp_all
  have "severity_from_evidence (e\<lparr>ev_schema_diffs := [schema_diff_item 1 ?doc]\<rparr>) \<noteq> COMPATIBLE" for e
  proof (rule schema_diff_never_compatible [OF none some _ len, THEN conjunct1])
    show "schema_diff_item 1 ?doc \<in> set (ev_schema_diffs (e\<lparr>ev_schema_diffs := [schema_diff_item 1 ?doc]\<rparr>))" by simp
  qed simp
  with some show ?thesis by (intro exI [of _ ?d] exI [of _ ?doc]) simp
qed

text \<open>The consumer impact counts every recorded delivery attempt as failed: for an endpoint all of whose
  deliveries succeeded, the summary given to the model still reports failed attempts.\<close>

theorem successes_reported_failed:
  assumes "collect_contract_evidence db st q = Inr e" and "1 \<le> rq_evidence_limit q"
    and "\<forall>a \<in> set (attempts db). da_endpoint a = rq_endpoint q \<longrightarrow> da_success a \<and> 1 \<le> da_count a"
    and "a \<in> set (attempts db)" and "da_endpoint a = rq_endpoint q"
  shows "\<exists>s n. consumer_impact_summary e = Inr s \<and> 1 \<le> n
    \<and> py_in (show_int n @ '' recorded delivery attempt(s) failed'') s"
proof -
  let ?as = "take (rq_evidence_limit q * 2) (sort_desc da_at (filter (\<lambda>a. da_endpoint a = rq_endpoint q) (attempts db)))"
  have items: "ev_attempts e = numbered attempt_item ?as"
    using collected(1) [OF assms(1)] unfolding attempt_items_def .
  have counts: "\<forall>c \<in> set (map da_count ?as). 1 \<le> c"
    using assms(3) by (auto dest!: in_set_takeD simp: sort_desc_def)
  have "filter (\<lambda>a. da_endpoint a = rq_endpoint q) (attempts db) \<noteq> []"
    using assms(4,5) by (auto simp: filter_empty_conv)
  then have "?as \<noteq> []" using assms(2) by simp
  with counts have sum: "1 \<le> sum_list (map da_count ?as)" by (rule sum_of_positive)
  show ?thesis
  proof (rule impact_of_attempts [OF items])
    fix s
    assume "consumer_impact_summary e = Inr s" and
      "sum_list (map da_count ?as) \<noteq> 0 \<Longrightarrow>
         py_in (show_int (sum_list (map da_count ?as)) @ '' recorded delivery attempt(s) failed'') s"
    with sum show ?thesis by (metis not_one_le_zero)
  qed
qed

lemma successes_reported_failed_witness:
  "\<exists>e s n. collect_contract_evidence demo_endpoint None demo_request = Inr e \<and> consumer_impact_summary e = Inr s
    \<and> 1 \<le> n \<and> py_in (show_int n @ '' recorded delivery attempt(s) failed'') s"
proof -
  obtain e where e: "collect_contract_evidence demo_endpoint None demo_request = Inr e" using demo_run by blast
  let ?a = "hd (attempts demo_endpoint)"
  have all: "attempts demo_endpoint = [?a]" "da_endpoint ?a = rq_endpoint demo_request" "da_success ?a" "da_count ?a = 1"
    "1 \<le> rq_evidence_limit demo_request" by (simp_all add: demo_endpoint_def demo_request_def)
  then have "\<forall>a \<in> set (attempts demo_endpoint). da_endpoint a = rq_endpoint demo_request \<longrightarrow> da_success a \<and> 1 \<le> da_count a"
    and "?a \<in> set (attempts demo_endpoint)"
    by (metis (no_types) all empty_iff list.set(1) list.simps(15) insert_iff order_refl)+
  from successes_reported_failed [OF e all(5) this all(2)] e show ?thesis by blast
qed

end
