(* ===== verification/Review_Cases.thy ===== *)
theory Review_Cases
  imports Review_Facts
begin

text \<open>
  The evaluation of the contract review in \<^verbatim>\<open>scripts/contract_review_eval.py\<close>: its fifteen built-in
  cases, the choice of provider and the metrics. Reading a case file, the printed text and the
  clock are left out; the measured time is an argument.
\<close>

section \<open>The cases\<close>

definition base_evidence :: evidence where
  "base_evidence =
     \<lparr>ev_endpoint_id = ''endpoint-1'', ev_endpoint_name = ''shop POST /webhooks/shop'', ev_space = ''gateway'',
      ev_service = ''shop'', ev_method = ''POST'', ev_route = ''/webhooks/shop'', ev_current = Some 3,
      ev_schema_diffs = [], ev_snapshots = [], ev_validations = [], ev_dlq = [], ev_event_dlq = [],
      ev_attempts = [], ev_subscriptions = [], ev_violations = [], ev_notes = [], ev_insufficient = False\<rparr>"

definition case_item :: "string \<Rightarrow> string \<Rightarrow> string \<Rightarrow> json pydict \<Rightarrow> evidence_item" where
  "case_item citation kind summary details =
     \<lparr>it_citation = citation, it_kind = kind, it_summary = summary, it_details = details\<rparr>"

definition eval_input :: "evidence \<Rightarrow> string \<Rightarrow> string \<Rightarrow> string \<Rightarrow> review_case" where
  "eval_input e summary impact expected =
     \<lparr>cs_evidence = e, cs_summary = Some summary, cs_impact = Some impact, cs_expected = Some expected\<rparr>"

definition required_field_evidence :: evidence where
  "required_field_evidence = base_evidence\<lparr>ev_schema_diffs :=
     [case_item ''schema-diff:1'' ''schema_diff'' ''added required field `currency`''
       [(''change_type'', JStr ''added_required_field''), (''path'', JStr ''currency'')]]\<rparr>"

definition compatible_evidence :: evidence where
  "compatible_evidence = base_evidence\<lparr>ev_snapshots :=
     [case_item ''snapshot:1'' ''payload_snapshot'' ''safe payload snapshot''
       [(''classification'', JStr ''SAFE'')]]\<rparr>"

definition removed_optional_evidence :: evidence where
  "removed_optional_evidence = base_evidence\<lparr>ev_schema_diffs :=
     [case_item ''schema-diff:1'' ''schema_diff'' ''removed optional field `nickname`''
       [(''change_type'', JStr ''removed_optional_field''), (''path'', JStr ''nickname'')]]\<rparr>"

definition risky_evidence :: evidence where
  "risky_evidence = base_evidence\<lparr>ev_schema_diffs :=
     [case_item ''schema-diff:1'' ''schema_diff'' ''nullable change on `score`''
       [(''change_type'', JStr ''nullable_change''), (''path'', JStr ''score'')]]\<rparr>"

definition malformed_payload_evidence :: evidence where
  "malformed_payload_evidence = base_evidence\<lparr>ev_validations :=
     [case_item ''validation:1'' ''validation_error'' ''payload rejected because `price` is missing''
       [(''path'', JStr ''/track''), (''error_count'', JInt 1)]]\<rparr>"

definition webhook_failure_evidence :: evidence where
  "webhook_failure_evidence = base_evidence\<lparr>ev_dlq :=
     [case_item ''dlq:1'' ''dlq_entry'' ''consumer=checkout attempts=5 reason=timeout target=http://checkout/webhook''
       [(''attempt_count'', JInt 5), (''failure_reason'', JStr ''timeout'')]]\<rparr>"

definition breaking_evidence :: evidence where
  "breaking_evidence = base_evidence\<lparr>ev_schema_diffs :=
     [case_item ''schema-diff:1'' ''schema_diff'' ''removed required field `price`''
       [(''change_type'', JStr ''removed_required_field''), (''path'', JStr ''price'')]]\<rparr>"

definition enum_removal_evidence :: evidence where
  "enum_removal_evidence = base_evidence\<lparr>ev_schema_diffs :=
     [case_item ''schema-diff:1'' ''schema_diff'' ''enum contraction on `status`''
       [(''change_type'', JStr ''enum_contraction''), (''path'', JStr ''status'')]]\<rparr>"

definition sparse_evidence :: evidence where
  "sparse_evidence = base_evidence\<lparr>ev_insufficient := True,
     ev_notes := [''evidence sparse'']\<rparr>"

definition conflicting_evidence :: evidence where
  "conflicting_evidence = base_evidence\<lparr>ev_schema_diffs :=
     [case_item ''schema-diff:1'' ''schema_diff'' ''enum contraction on `status`''
       [(''change_type'', JStr ''enum_contraction''), (''path'', JStr ''status'')]],
     ev_snapshots :=
     [case_item ''snapshot:1'' ''payload_snapshot'' ''snapshot still shows the removed enum value''
       [(''classification'', JStr ''RISKY'')]]\<rparr>"

definition drift_dlq_evidence :: evidence where
  "drift_dlq_evidence = base_evidence\<lparr>ev_violations :=
     [case_item ''drift-violation:1'' ''drift_violation'' ''severity=BREAKING fingerprint=abc123 path=price''
       [(''severity'', JStr ''BREAKING''), (''path'', JStr ''price'')]]\<rparr>"

definition additive_safe_evidence :: evidence where
  "additive_safe_evidence = base_evidence\<lparr>ev_snapshots :=
     [case_item ''snapshot:1'' ''payload_snapshot'' ''added optional field `promo_code`''
       [(''classification'', JStr ''SAFE'')]]\<rparr>"

definition additive_risky_evidence :: evidence where
  "additive_risky_evidence = base_evidence\<lparr>ev_schema_diffs :=
     [case_item ''schema-diff:1'' ''schema_diff'' ''added nested object `billing_address`''
       [(''change_type'', JStr ''nested_shape_change''), (''path'', JStr ''billing_address'')]]\<rparr>"

definition subscription_impact_evidence :: evidence where
  "subscription_impact_evidence = base_evidence\<lparr>ev_schema_diffs :=
     [case_item ''schema-diff:1'' ''schema_diff'' ''type changed from integer to string for `quantity`''
       [(''change_type'', JStr ''type_changed''), (''path'', JStr ''quantity'')]],
     ev_subscriptions := [JDict [(''id'', JStr ''sub-1''), (''consumer_id'', JStr ''billing-service''), (''endpoint_id'', JStr ''endpoint-1''), 
       (''target_url'', JStr ''http://billing/webhook''), (''severity_threshold'', JStr ''RISKY''), (''schema_version'', JInt 3), (''active'', JBool True)]]\<rparr>"

definition insufficient_evidence :: evidence where
  "insufficient_evidence = base_evidence\<lparr>ev_insufficient := True,
     ev_notes := [''too sparse'']\<rparr>"

definition default_cases :: "review_case list" where
  "default_cases =
    [eval_input required_field_evidence ''added required field currency''
       ''1 active consumer'' ''breaking'',
     eval_input compatible_evidence ''safe payload snapshot''
       ''No active consumers'' ''compatible'',
     eval_input removed_optional_evidence ''removed optional field nickname''
       ''No active consumers'' ''compatible'',
     eval_input risky_evidence ''nullable change on score''
       ''1 active consumer'' ''risky'',
     eval_input malformed_payload_evidence ''payload validation failure''
       ''1 active consumer'' ''risky'',
     eval_input webhook_failure_evidence ''delivery attempts exhausted''
       ''1 active consumer'' ''risky'',
     eval_input breaking_evidence ''removed required field''
       ''2 active consumers'' ''breaking'',
     eval_input sparse_evidence ''evidence sparse''
       ''No consumers'' ''risky'',
     eval_input conflicting_evidence ''conflicting evidence''
       ''1 active consumer'' ''breaking'',
     eval_input drift_dlq_evidence ''drift violation backed by DLQ''
       ''1 active consumer'' ''breaking'',
     eval_input enum_removal_evidence ''enum contraction''
       ''1 active consumer'' ''breaking'',
     eval_input additive_safe_evidence ''optional field added''
       ''No active consumers'' ''compatible'',
     eval_input additive_risky_evidence ''nested object added''
       ''1 active consumer'' ''risky'',
     eval_input subscription_impact_evidence ''type change''
       ''1 active consumer'' ''breaking'',
     eval_input insufficient_evidence ''no evidence available''
       ''No consumers'' ''risky'']"


section \<open>Running them\<close>

text \<open>\<open>load_cases\<close> with the parsed file given, and \<open>main\<close> up to its metrics.\<close>

definition load_cases :: "review_case list option \<Rightarrow> review_case list" where
  "load_cases file = (case file of None \<Rightarrow> default_cases | Some cs \<Rightarrow> cs)"

definition eval_provider :: "string \<Rightarrow> review_provider" where
  "eval_provider name = (if name = ''disabled'' then disabled_generate else fake_generate None None)"

definition eval_main :: "string \<Rightarrow> rat \<Rightarrow> review_case list option \<Rightarrow> py_error + eval_report" where
  "eval_main provider total_latency file =
     evaluate_contract_review_cases (Some (eval_provider provider)) total_latency (load_cases file)"

section \<open>What the metrics mean\<close>

definition derived_severity :: "evidence \<Rightarrow> review_severity" where
  "derived_severity e = (if derived_insufficient e then RISKY_CHANGE else severity_from_evidence e)"

definition graded_right :: "review_case \<Rightarrow> bool" where
  "graded_right c \<longleftrightarrow> (case cs_expected c of None \<Rightarrow> True | Some s \<Rightarrow> severity_value (derived_severity (cs_evidence c)) = s)"

definition has_impact :: "review_case \<Rightarrow> bool" where
  "has_impact c \<longleftrightarrow> (case cs_impact c of None \<Rightarrow> False | Some i \<Rightarrow> i \<noteq> [])"

lemma eval_provider_derived: "eval_provider name e summary impact = build_heuristic_review e summary impact None"
  by (simp add: eval_provider_def disabled_generate_def fake_generate_def)

lemma derived_review_severity:
  assumes "build_heuristic_review e summary impact reason = Inr r"
  shows "oc_severity r = derived_severity e"
  using assms by (auto simp: build_heuristic_review_def draft_review_def derived_severity_def Let_def split: if_splits)

lemma eval_case_counts:
  assumes "has_impact c"
  shows "\<exists>k. eval_case (eval_provider name) n c = Inr k
     \<and> ec_valid k = ec_valid n + 1 \<and> ec_unsupported k = ec_unsupported n
     \<and> ec_severity k = ec_severity n + of_bool (graded_right c)
     \<and> ec_coverage k = ec_coverage n + of_bool (derived_items (cs_evidence c) \<noteq> [])
     \<and> ec_insufficient k = ec_insufficient n + of_bool (derived_insufficient (cs_evidence c))"
proof -
  from assms obtain i where i: "cs_impact c = Some i" "i \<noteq> []" by (auto simp: has_impact_def split: option.splits)
  let ?e = "cs_evidence c"
  obtain s where s: "(case cs_summary c of None \<Rightarrow> [] | Some s \<Rightarrow> s) = s" by blast
  obtain r where r: "build_heuristic_review ?e s i None = Inr r" using derived_review_returns [OF i(2)] by blast
  have "list_ex (\<lambda>line. \<not> grounded_line (citations ?e) line) (oc_evidence r) = False"
    using derived_line_grounded unfolding derived_review_fields(3) [OF r] list_ex_iff by blast
  moreover have "oc_evidence r \<noteq> [] \<longleftrightarrow> derived_items ?e \<noteq> []" by (simp add: derived_review_fields(3) [OF r])
  moreover have "graded_right c \<longleftrightarrow> (case cs_expected c of None \<Rightarrow> True | Some s \<Rightarrow> severity_value (oc_severity r) = s)"
    unfolding graded_right_def derived_review_severity [OF r] ..
  ultimately show ?thesis
    by (simp add: eval_case_def eval_provider_derived i s r derived_review_fields(4) [OF r] Let_def)
qed

lemma eval_loop_counts:
  assumes "list_all has_impact cs"
  shows "\<exists>m. eval_loop (eval_provider name) n cs = Inr m
     \<and> ec_valid m = ec_valid n + length cs \<and> ec_unsupported m = ec_unsupported n
     \<and> ec_severity m = ec_severity n + length (filter graded_right cs)
     \<and> ec_coverage m = ec_coverage n + length (filter (\<lambda>c. derived_items (cs_evidence c) \<noteq> []) cs)
     \<and> ec_insufficient m = ec_insufficient n + length (filter (\<lambda>c. derived_insufficient (cs_evidence c)) cs)"
  using assms
proof (induction cs arbitrary: n)
  case (Cons c cs)
  then have "has_impact c" by simp
  then obtain k where k: "eval_case (eval_provider name) n c = Inr k"
    "ec_valid k = ec_valid n + 1" "ec_unsupported k = ec_unsupported n" "ec_severity k = ec_severity n + of_bool (graded_right c)"
    "ec_coverage k = ec_coverage n + of_bool (derived_items (cs_evidence c) \<noteq> [])"
    "ec_insufficient k = ec_insufficient n + of_bool (derived_insufficient (cs_evidence c))"
    using eval_case_counts [of c name n] by blast
  from Cons.IH [of k] Cons.prems show ?case by (auto simp: k)
qed simp

text \<open>
  The evaluation of cases with a stated impact always gives a report: every outcome is valid and
  none claims anything without evidence, and the rates are the shares of the cases in which the
  derived severity is the expected one, some item is cited, and the evidence does not suffice.
\<close>

theorem evaluation_counts:
  assumes "cs \<noteq> []" "list_all has_impact cs"
  shows "\<exists>r. eval_main provider t (Some cs) = Inr r \<and> rp_cases r = length cs \<and> rp_valid r = 1 \<and> rp_unsupported r = 0
    \<and> rp_severity r = rat_of_nat (length (filter graded_right cs)) / rat_of_nat (length cs)
    \<and> rp_coverage r = rat_of_nat (length (filter (\<lambda>c. derived_items (cs_evidence c) \<noteq> []) cs)) / rat_of_nat (length cs)
    \<and> rp_insufficient r = rat_of_nat (length (filter (\<lambda>c. derived_insufficient (cs_evidence c)) cs)) / rat_of_nat (length cs)"
proof -
  let ?zero = "\<lparr>ec_valid = 0, ec_severity = 0, ec_coverage = 0, ec_unsupported = 0, ec_migration = 0,
    ec_insufficient = 0, ec_confidence = 0\<rparr>"
  from eval_loop_counts [OF assms(2), of provider ?zero] obtain m where m:
    "eval_loop (eval_provider provider) ?zero cs = Inr m" "ec_valid m = length cs" "ec_unsupported m = 0"
    "ec_severity m = length (filter graded_right cs)"
    "ec_coverage m = length (filter (\<lambda>c. derived_items (cs_evidence c) \<noteq> []) cs)"
    "ec_insufficient m = length (filter (\<lambda>c. derived_insufficient (cs_evidence c)) cs)" by auto
  show ?thesis using assms(1)
    by (simp add: eval_main_def load_cases_def evaluate_contract_review_cases_def m Let_def)
qed

text \<open>Four of the built-in cases are graded otherwise than they expect.\<close>

lemma evaluation_counts_witness:
  "(\<exists>r. eval_main ''disabled'' 1 None = Inr r \<and> rp_severity r = 11 / 15)
   \<and> map cs_evidence (filter (\<lambda>c. \<not> graded_right c) default_cases)
     = [removed_optional_evidence, malformed_payload_evidence, webhook_failure_evidence, additive_risky_evidence]"
proof -
  have ok: "list_all has_impact default_cases" by code_simp
  have n: "length (filter graded_right default_cases) = 11" "length default_cases = 15" by code_simp+
  have "default_cases \<noteq> []" by (simp add: default_cases_def)
  from evaluation_counts [OF this ok, of "''disabled''" 1]
  have "\<exists>r. eval_main ''disabled'' 1 None = Inr r \<and> rp_severity r = 11 / 15"
    unfolding n by (auto simp: eval_main_def load_cases_def)
  moreover have "map graded_right default_cases
      = [True, True, False, True, False, False, True, True, True, True, True, True, False, True, True]" by code_simp
  then have "map cs_evidence (filter (\<lambda>c. \<not> graded_right c) default_cases)
     = [removed_optional_evidence, malformed_payload_evidence, webhook_failure_evidence, additive_risky_evidence]"
    unfolding default_cases_def by (simp add: eval_input_def)
  ultimately show ?thesis by blast
qed

end
