(* ===== verification/Openapi_Diff.thy ===== *)
theory Openapi_Diff
  imports Json
begin

text \<open>
  The two contract checks of the command line: \<^verbatim>\<open>scripts/openapi_diff.py\<close> (also behind
  \<^verbatim>\<open>scripts/contract_check.py\<close>) and the diff and the review of \<^verbatim>\<open>scripts/contract_review_agent.py\<close>. In
  a schema \<open>properties\<close> is an object and \<open>required\<close> a list of strings; anything else there is an error
  of the model as it is one of JSON Schema. Reading the files and the measured times are left out.
\<close>

section \<open>Shared parts\<close>

text \<open>Both modules have their own copy of \<open>_extract_schema\<close> and \<open>_field_type\<close>.\<close>

definition extract_schema :: "json \<Rightarrow> json pydict" where
  "extract_schema payload =
     (case payload of
        JDict d \<Rightarrow>
          (case (jget payload ''components'', jget payload ''schema'') of
             (Some (JDict c), s) \<Rightarrow>
               (case map_of c ''schemas'' of
                  Some (JDict schemas) \<Rightarrow> schemas
                | _ \<Rightarrow> (case s of Some (JDict e) \<Rightarrow> e | _ \<Rightarrow> d))
           | (_, Some (JDict e)) \<Rightarrow> e
           | _ \<Rightarrow> d)
      | _ \<Rightarrow> [])"

definition field_type :: "json \<Rightarrow> string" where
  "field_type j = (case jget j ''type'' of Some (JStr t) \<Rightarrow> t | _ \<Rightarrow> [])"

definition properties_of :: "json \<Rightarrow> py_error + json pydict" where
  "properties_of schema =
     (case jget_or schema ''properties'' (JDict []) of JDict d \<Rightarrow> Inr d | _ \<Rightarrow> Inl (TypeError ''properties''))"

fun strings_in :: "json list \<Rightarrow> py_error + string list" where
  "strings_in [] = Inr []"
| "strings_in (JStr s # xs) = bind_err (strings_in xs) (\<lambda>ss. Inr (s # ss))"
| "strings_in _ = Inl (TypeError ''required'')"

text \<open>\<open>set(schema.get('required', []) or [])\<close>\<close>

definition required_of :: "json \<Rightarrow> py_error + string list" where
  "required_of schema =
     (let v = jget_or schema ''required'' (JList [])
      in if \<not> truthy v then Inr []
         else case v of JList xs \<Rightarrow> strings_in xs | _ \<Rightarrow> Inl (TypeError ''required''))"

definition names_minus :: "string list \<Rightarrow> string list \<Rightarrow> string list" where
  "names_minus xs ys = sorted_set (filter (\<lambda>x. x \<notin> set ys) xs)"

definition names_meet :: "string list \<Rightarrow> string list \<Rightarrow> string list" where
  "names_meet xs ys = sorted_set (filter (\<lambda>x. x \<in> set ys) xs)"

lemma set_names_minus [simp]: "set (names_minus xs ys) = set xs - set ys"
  by (auto simp: names_minus_def)

lemma set_names_meet [simp]: "set (names_meet xs ys) = set xs \<inter> set ys"
  by (auto simp: names_meet_def)

lemma names_minus_Nil [simp]: "names_minus xs ys = [] \<longleftrightarrow> set xs \<subseteq> set ys"
  by (metis Diff_eq_empty_iff set_empty set_names_minus)

text \<open>The type change of a field that is in both schemas: both have a type and the types differ.\<close>

definition type_change :: "json pydict \<Rightarrow> json pydict \<Rightarrow> string \<Rightarrow> (string \<times> string) option" where
  "type_change old_props new_props field =
     (let type_in = (\<lambda>d. case map_of d field of Some j \<Rightarrow> field_type j | None \<Rightarrow> []);
          o_t = type_in old_props; n_t = type_in new_props
      in if o_t \<noteq> [] \<and> n_t \<noteq> [] \<and> o_t \<noteq> n_t then Some (o_t, n_t) else None)"

definition type_changes_of :: "json pydict \<Rightarrow> json pydict \<Rightarrow> (string \<Rightarrow> string \<times> string \<Rightarrow> string) \<Rightarrow> string list" where
  "type_changes_of old_props new_props line =
     concat (map (\<lambda>f. case type_change old_props new_props f of None \<Rightarrow> [] | Some ts \<Rightarrow> [line f ts])
       (names_meet (keys old_props) (keys new_props)))"

section \<open>\<open>openapi_diff.py\<close>\<close>

record doc_diff =
  dd_removed :: "string list"
  dd_types :: "string list"
  dd_required :: "string list"
  dd_added :: "string list"

definition no_diff :: doc_diff where
  "no_diff = \<lparr>dd_removed = [], dd_types = [], dd_required = [], dd_added = []\<rparr>"

definition attribute_error :: py_error where
  "attribute_error = TypeError ''object has no attribute get''"

definition added_required :: "string \<Rightarrow> string" where
  "added_required f = ''added required field: '' @ f"

definition became_required :: "string \<Rightarrow> string" where
  "became_required f = ''field became required: '' @ f"

definition no_longer_required :: "string \<Rightarrow> string" where
  "no_longer_required f = ''field no longer required: '' @ f"

definition diff_object_schemas :: "json \<Rightarrow> json \<Rightarrow> py_error + doc_diff" where
  "diff_object_schemas old new =
     (if \<not> is_dict old \<or> \<not> is_dict new then Inl attribute_error
      else
        bind_err (properties_of old) (\<lambda>old_props. bind_err (properties_of new) (\<lambda>new_props.
        bind_err (required_of old) (\<lambda>old_required. bind_err (required_of new) (\<lambda>new_required.
          let fresh = names_minus (keys new_props) (keys old_props)
          in Inr \<lparr>dd_removed = names_minus (keys old_props) (keys new_props),
                  dd_types = type_changes_of old_props new_props (\<lambda>f (o_t, n_t). f @ '': '' @ o_t @ '' -> '' @ n_t),
                  dd_required = map added_required (filter (\<lambda>f. f \<in> set new_required) fresh)
                    @ map became_required (names_minus new_required old_required)
                    @ map no_longer_required (names_minus old_required new_required),
                  dd_added = filter (\<lambda>f. f \<notin> set new_required) fresh\<rparr>)))))"

definition doc_breaking :: "doc_diff \<Rightarrow> bool" where
  "doc_breaking d \<longleftrightarrow> dd_removed d \<noteq> [] \<or> dd_types d \<noteq> []
     \<or> list_ex (\<lambda>item. py_in ''required'' item \<and> \<not> py_in ''no longer'' item) (dd_required d)"

text \<open>The aggregate over all schemas: the lists of every schema are appended in name order.\<close>

definition extend_diff :: "doc_diff \<Rightarrow> doc_diff \<Rightarrow> doc_diff" where
  "extend_diff a d = \<lparr>dd_removed = dd_removed a @ dd_removed d, dd_types = dd_types a @ dd_types d,
     dd_required = dd_required a @ dd_required d, dd_added = dd_added a @ dd_added d\<rparr>"

definition schema_at :: "json pydict \<Rightarrow> string \<Rightarrow> json" where
  "schema_at d k = (case map_of d k of None \<Rightarrow> JNull | Some j \<Rightarrow> j)"

definition diff_openapi_documents :: "json \<Rightarrow> json \<Rightarrow> py_error + bool \<times> doc_diff" where
  "diff_openapi_documents old_payload new_payload =
     (let old_schemas = extract_schema old_payload; new_schemas = extract_schema new_payload;
          start = no_diff\<lparr>dd_removed := map (\<lambda>n. ''schema:'' @ n) (names_minus (keys old_schemas) (keys new_schemas)),
            dd_added := map (\<lambda>n. ''schema:'' @ n) (names_minus (keys new_schemas) (keys old_schemas))\<rparr>
      in bind_err (map_err (\<lambda>n. diff_object_schemas (schema_at old_schemas n) (schema_at new_schemas n))
           (names_meet (keys old_schemas) (keys new_schemas))) (\<lambda>ds.
           let d = foldl extend_diff start ds in Inr (doc_breaking d, d)))"

text \<open>\<open>main\<close> of both command lines: the exit status.\<close>

definition check_exit :: "json \<Rightarrow> json \<Rightarrow> py_error + int" where
  "check_exit old_payload new_payload =
     bind_err (diff_openapi_documents old_payload new_payload) (\<lambda>(breaking, d). Inr (if breaking then 1 else 0))"

section \<open>\<open>contract_review_agent.py\<close>\<close>

definition if_object :: "(json \<Rightarrow> py_error + 'a list) \<Rightarrow> json \<Rightarrow> 'a list \<Rightarrow> py_error + 'a list" where
  "if_object f j dflt = (if is_dict j then f j else Inr dflt)"

definition agent_schema_diff :: "string \<Rightarrow> json \<Rightarrow> json \<Rightarrow> py_error + string list \<times> string list" where
  "agent_schema_diff schema_name old_schema new_schema =
     (let qualified = (\<lambda>f. schema_name @ ''.'' @ f)
      in bind_err (if_object properties_of old_schema []) (\<lambda>old_props. bind_err (if_object properties_of new_schema []) (\<lambda>new_props.
         bind_err (if_object required_of old_schema []) (\<lambda>old_required. bind_err (if_object required_of new_schema []) (\<lambda>new_required.
           let fresh = names_minus (keys new_props) (keys old_props)
           in Inr (map (\<lambda>f. qualified f @ '' removed'') (names_minus (keys old_props) (keys new_props))
                @ map (\<lambda>f. qualified f @ '' added as required'') (filter (\<lambda>f. f \<in> set new_required) fresh)
                @ type_changes_of old_props new_props (\<lambda>f (o_t, n_t). qualified f @ '' type '' @ o_t @ '' -> '' @ n_t)
                @ map (\<lambda>f. qualified f @ '' became required'') (names_minus new_required old_required),
              map (\<lambda>f. qualified f @ '' added as optional'') (filter (\<lambda>f. f \<notin> set new_required) fresh)
                @ map (\<lambda>f. qualified f @ '' no longer required'') (names_minus old_required new_required)))))))"

record agent_diff =
  ad_breaking :: bool
  ad_breaking_changes :: "string list"
  ad_other_changes :: "string list"

definition agent_diff_documents :: "json \<Rightarrow> json \<Rightarrow> py_error + agent_diff" where
  "agent_diff_documents old_payload new_payload =
     (let old_schemas = extract_schema old_payload; new_schemas = extract_schema new_payload
      in bind_err (map_err (\<lambda>n. agent_schema_diff n (schema_at old_schemas n) (schema_at new_schemas n))
           (names_meet (keys old_schemas) (keys new_schemas))) (\<lambda>ds.
           let breaking = map (\<lambda>n. ''schema removed: '' @ n) (names_minus (keys old_schemas) (keys new_schemas))
                 @ concat (map fst ds);
               other = map (\<lambda>n. ''schema added: '' @ n) (names_minus (keys new_schemas) (keys old_schemas))
                 @ concat (map snd ds)
           in Inr \<lparr>ad_breaking = (breaking \<noteq> []), ad_breaking_changes = breaking, ad_other_changes = other\<rparr>))"

text \<open>\<open>TraceStep\<close> and \<open>_record_step\<close>; every step is recorded with the status \<open>ok\<close>.\<close>

record trace_step =
  ts_name :: string
  ts_input :: string
  ts_tool :: "string option"
  ts_args :: "string option"
  ts_output :: string
  ts_latency :: "string option"
  ts_status :: string
  ts_error :: "string option"

definition record_step :: "trace_step list \<Rightarrow> string \<Rightarrow> string \<Rightarrow> string \<Rightarrow> string \<Rightarrow> string option \<Rightarrow> string \<Rightarrow> trace_step list" where
  "record_step trace name input_summary output_summary tool_name tool_args latency =
     trace @ [\<lparr>ts_name = name, ts_input = input_summary, ts_tool = Some tool_name, ts_args = tool_args,
       ts_output = output_summary, ts_latency = Some latency, ts_status = ''ok'', ts_error = None\<rparr>]"

text \<open>\<open>build_review\<close>; the identifier of the run and the measured times of its five steps are arguments.\<close>

record agent_review =
  ag_breaking :: "string list"
  ag_other :: "string list"
  ag_risk :: string
  ag_migration :: string
  ag_decision :: string
  ag_comment :: string
  ag_trace :: "trace_step list"

definition bullet_lines :: "string list \<Rightarrow> string list" where
  "bullet_lines xs = (if xs = [] then [''- None''] else map (\<lambda>x. ''- '' @ x) xs)"

definition sorted_names :: "json \<Rightarrow> string" where
  "sorted_names payload = py_str (JList (map JStr (sort (keys (extract_schema payload)))))"

definition build_review :: "string \<Rightarrow> (nat \<Rightarrow> string) \<Rightarrow> json \<Rightarrow> json \<Rightarrow> py_error + agent_review" where
  "build_review run_id elapsed old_payload new_payload =
     bind_err (agent_diff_documents old_payload new_payload) (\<lambda>d.
       let b = ad_breaking_changes d; n = ad_other_changes d;
           trace = record_step [] ''OpenAPI Diff Agent''
             (''old='' @ sorted_names old_payload @ '', new='' @ sorted_names new_payload)
             (show_nat (length b) @ '' breaking, '' @ show_nat (length n) @ '' non-breaking'')
             ''diff_openapi_documents'' (Some (''run_id='' @ run_id)) (elapsed 0);
           risk_level = (if ad_breaking d then ''high'' else ''low'');
           trace = record_step trace ''Breaking Change Classifier'' (''breaking='' @ show_nat (length b))
             (''risk_level='' @ risk_level) ''classify_review_risk'' None (elapsed 1);
           migration = (if b \<noteq> [] then ''Update consumers for the listed breaking changes before merging.''
             else ''No migration required for the documented changes.'');
           decision = (if b \<noteq> [] then ''fail'' else ''pass'');
           trace = record_step trace ''Migration Suggestion Agent'' (show_nat (length b) @ '' breaking change(s)'')
             migration ''suggest_migration'' None (elapsed 2);
           trace = record_step trace ''CI Gate Agent'' (''risk_level='' @ risk_level)
             (''ci_decision='' @ decision) ''ci_gate'' None (elapsed 3);
           comment = py_join nl
             ([''## DRIFTGATE Contract Review'', ''- CI decision: '' @ decision, ''- Risk level: '' @ risk_level, [],
               ''### Breaking changes''] @ bullet_lines b @ [[], ''### Non-breaking changes''] @ bullet_lines n
              @ [[], ''### Suggested migration'' @ nl @ migration]);
           trace = record_step trace ''PR Comment Generator'' (''decision='' @ decision)
             ''PR comment generated'' ''generate_pr_comment'' None (elapsed 4)
       in Inr \<lparr>ag_breaking = b, ag_other = n, ag_risk = risk_level, ag_migration = migration, ag_decision = decision,
               ag_comment = comment, ag_trace = trace\<rparr>)"

end
