(* ===== verification/Openapi_Facts.thy ===== *)
theory Openapi_Facts
  imports Openapi_Diff
begin

text \<open>
  The two contract checks against one reference: when a new document breaks the clients of an old
  one. The review agent fails exactly these documents; the command line check misses a newly
  required field whose name contains the words it takes for the end of a requirement.
\<close>

section \<open>The reference\<close>

definition props_of :: "json \<Rightarrow> json pydict" where
  "props_of j = (case properties_of j of Inr d \<Rightarrow> d | Inl _ \<Rightarrow> [])"

definition required_names :: "json \<Rightarrow> string list" where
  "required_names j = (case required_of j of Inr rs \<Rightarrow> rs | Inl _ \<Rightarrow> [])"

definition typed_as :: "json \<Rightarrow> string \<Rightarrow> string" where
  "typed_as j f = field_type (schema_at (props_of j) f)"

text \<open>A schema breaks its clients: a field is gone, a field with a type has another one, or a field
  is required that was not required or did not exist.\<close>

definition schema_breaks :: "json \<Rightarrow> json \<Rightarrow> bool" where
  "schema_breaks old new \<longleftrightarrow>
     (let had = set (keys (props_of old)); has = set (keys (props_of new)) in
      (\<exists>f \<in> had. f \<notin> has)
      \<or> (\<exists>f \<in> had \<inter> has. typed_as old f \<noteq> [] \<and> typed_as new f \<noteq> [] \<and> typed_as old f \<noteq> typed_as new f)
      \<or> (\<exists>f \<in> set (required_names new). f \<notin> set (required_names old) \<or> f \<in> has - had))"

definition breaks_clients :: "json \<Rightarrow> json \<Rightarrow> bool" where
  "breaks_clients old new \<longleftrightarrow>
     (let o_s = extract_schema old; n_s = extract_schema new in
      \<exists>n \<in> set (keys o_s). n \<notin> set (keys n_s) \<or> schema_breaks (schema_at o_s n) (schema_at n_s n))"

definition clear_schema :: "json \<Rightarrow> bool" where
  "clear_schema j \<longleftrightarrow> list_all (\<lambda>f. \<not> py_in ''no longer'' f) (required_names j)"

definition clear_names :: "json \<Rightarrow> bool" where
  "clear_names doc \<longleftrightarrow> list_all (\<lambda>n. clear_schema (schema_at (extract_schema doc) n)) (keys (extract_schema doc))"

section \<open>The lines of the command line check\<close>

lemma straddle: "py_in ''no longer'' (p @ '': '' @ f) \<Longrightarrow> py_in ''no longer'' p \<or> py_in ''no longer'' f"
  unfolding append_assoc [symmetric] sublist_append
  by (auto simp: suffix_def prefix_def Cons_eq_append_conv append_eq_Cons_conv sublist_Cons_right)

lemma added_line: "py_in ''required'' (added_required f)"
  "py_in ''no longer'' (added_required f) \<Longrightarrow> py_in ''no longer'' f"
  using straddle [of "''added required field''" f] by (simp_all add: added_required_def sublist_Cons_right)

lemma became_line: "py_in ''required'' (became_required f)"
  "py_in ''no longer'' (became_required f) \<Longrightarrow> py_in ''no longer'' f"
  using straddle [of "''field became required''" f] by (simp_all add: became_required_def sublist_Cons_right)

lemma no_longer_line: "py_in ''no longer'' (no_longer_required f)"
  by (simp add: no_longer_required_def sublist_Cons_right)

lemma breaking_lines:
  "list_ex (\<lambda>item. py_in ''required'' item \<and> \<not> py_in ''no longer'' item)
     (map added_required xs @ map became_required ys @ map no_longer_required zs)
   \<Longrightarrow> xs \<noteq> [] \<or> ys \<noteq> []"
  by (auto simp: list_ex_iff no_longer_line)

lemma breaking_lines_clear:
  assumes "\<forall>f \<in> set xs \<union> set ys. \<not> py_in ''no longer'' f"
  shows "list_ex (\<lambda>item. py_in ''required'' item \<and> \<not> py_in ''no longer'' item)
     (map added_required xs @ map became_required ys @ map no_longer_required zs) \<longleftrightarrow> xs \<noteq> [] \<or> ys \<noteq> []"
proof
  assume "xs \<noteq> [] \<or> ys \<noteq> []"
  then obtain f where "f \<in> set xs \<or> f \<in> set ys" by (metis ex_in_conv set_empty)
  then have "(added_required f \<in> added_required ` set xs \<or> became_required f \<in> became_required ` set ys) \<and> \<not> py_in ''no longer'' f"
    using assms by blast
  then show "list_ex (\<lambda>item. py_in ''required'' item \<and> \<not> py_in ''no longer'' item)
     (map added_required xs @ map became_required ys @ map no_longer_required zs)"
    unfolding list_ex_iff set_append set_map using added_line [of f] became_line [of f] by blast
qed (rule breaking_lines)

section \<open>One pair of schemas\<close>

lemma type_changes_Nil:
  "type_changes_of op np line = [] \<longleftrightarrow> (\<forall>f \<in> set (keys op) \<inter> set (keys np). type_change op np f = None)"
proof -
  have one: "(case type_change op np f of None \<Rightarrow> [] | Some ts \<Rightarrow> [line f ts]) = [] \<longleftrightarrow> type_change op np f = None" for f
    by (cases "type_change op np f") simp_all
  show ?thesis unfolding type_changes_of_def concat_eq_Nil_conv set_map set_names_meet ball_simps one ..
qed

lemma type_change_None:
  assumes "f \<in> set (keys op)" "f \<in> set (keys np)"
  shows "type_change op np f = None \<longleftrightarrow>
    field_type (schema_at op f) = [] \<or> field_type (schema_at np f) = [] \<or> field_type (schema_at op f) = field_type (schema_at np f)"
proof -
  from assms obtain x y where "map_of op f = Some x" "map_of np f = Some y"
    by (metis map_of_eq_None_iff not_None_eq set_map)
  then show ?thesis by (simp add: type_change_def schema_at_def Let_def)
qed

lemma schema_pair:
  assumes "diff_object_schemas old new = Inr d"
  shows "\<exists>x. agent_schema_diff n old new = Inr x \<and> (fst x \<noteq> [] \<longleftrightarrow> schema_breaks old new)
    \<and> (doc_breaking d \<longrightarrow> schema_breaks old new) \<and> (clear_schema new \<longrightarrow> doc_breaking d = schema_breaks old new)"
proof -
  from assms obtain op np or nr where dicts: "is_dict old" "is_dict new"
    and p: "properties_of old = Inr op" "properties_of new = Inr np" "required_of old = Inr or" "required_of new = Inr nr"
    by (auto simp: diff_object_schemas_def bind_err_eq_Inr split: if_splits)
  let ?fresh = "filter (\<lambda>f. f \<in> set nr) (names_minus (keys np) (keys op))"
  let ?lost = "\<not> set (keys op) \<subseteq> set (keys np)"
  let ?typed = "\<exists>f \<in> set (keys op) \<inter> set (keys np). type_change op np f \<noteq> None"
  let ?need = "?fresh \<noteq> [] \<or> names_minus nr or \<noteq> []"
  have br: "schema_breaks old new \<longleftrightarrow> ?lost \<or> ?typed \<or> ?need"
  proof -
    have names: "props_of old = op" "props_of new = np" "required_names old = or" "required_names new = nr"
      by (simp_all add: props_of_def required_names_def p)
    have lost: "?lost \<longleftrightarrow> (\<exists>f \<in> set (keys op). f \<notin> set (keys np))" by blast
    have typed: "?typed \<longleftrightarrow> (\<exists>f \<in> set (keys op) \<inter> set (keys np). field_type (schema_at op f) \<noteq> []
        \<and> field_type (schema_at np f) \<noteq> [] \<and> field_type (schema_at op f) \<noteq> field_type (schema_at np f))"
      using type_change_None [of _ op np] by (metis IntE)
    have "?need \<longleftrightarrow> (\<exists>f \<in> set nr. f \<notin> set or \<or> f \<in> set (keys np) - set (keys op))"
      by (auto simp: filter_empty_conv)
    then show ?thesis unfolding schema_breaks_def Let_def typed_as_def names lost typed by simp
  qed
  have d: "doc_breaking d \<longleftrightarrow> ?lost \<or> ?typed \<or> list_ex (\<lambda>item. py_in ''required'' item \<and> \<not> py_in ''no longer'' item)
      (map added_required ?fresh @ map became_required (names_minus nr or) @ map no_longer_required (names_minus or nr))"
  proof -
    obtain line where "dd_removed d = names_minus (keys op) (keys np)" and types: "dd_types d = type_changes_of op np line" and
      "dd_required d = map added_required ?fresh @ map became_required (names_minus nr or) @ map no_longer_required (names_minus or nr)"
      using assms by (auto simp: diff_object_schemas_def dicts p Let_def)
    moreover have "dd_types d = [] \<longleftrightarrow> \<not> ?typed" unfolding types type_changes_Nil by (simp only: bex_simps not_not)
    ultimately show ?thesis unfolding doc_breaking_def by (simp only: names_minus_Nil) blast
  qed
  have imp: "doc_breaking d \<longrightarrow> schema_breaks old new"
    unfolding d br using breaking_lines by blast
  have eq: "doc_breaking d = schema_breaks old new" if "clear_schema new"
  proof -
    have "\<forall>f \<in> set ?fresh \<union> set (names_minus nr or). \<not> py_in ''no longer'' f"
      using that by (auto simp: clear_schema_def required_names_def p list_all_iff)
    from breaking_lines_clear [OF this] show ?thesis unfolding d br by simp
  qed
  obtain x where x: "agent_schema_diff n old new = Inr x"
    "fst x \<noteq> [] \<longleftrightarrow> ?lost \<or> ?fresh \<noteq> [] \<or> ?typed \<or> names_minus nr or \<noteq> []"
    by (simp add: agent_schema_diff_def if_object_def dicts p Let_def type_changes_Nil)
  have "fst x \<noteq> [] \<longleftrightarrow> schema_breaks old new" unfolding x(2) br by blast
  with x(1) imp eq show ?thesis by blast
qed

section \<open>Whole documents\<close>

lemma extend_breaking: "doc_breaking (extend_diff a d) \<longleftrightarrow> doc_breaking a \<or> doc_breaking d"
  by (auto simp: doc_breaking_def extend_diff_def)

lemma aggregate_breaking: "doc_breaking (foldl extend_diff a ds) \<longleftrightarrow> doc_breaking a \<or> (\<exists>d \<in> set ds. doc_breaking d)"
  by (induction ds arbitrary: a) (auto simp: extend_breaking)

text \<open>Both tools run over the same names and give one result per name.\<close>

lemma schema_runs:
  assumes "map_err (\<lambda>n. diff_object_schemas (old n) (new n)) names = Inr ds"
  shows "\<exists>xs. map_err (\<lambda>n. agent_schema_diff n (old n) (new n)) names = Inr xs
    \<and> (concat (map fst xs) \<noteq> [] \<longleftrightarrow> (\<exists>n \<in> set names. schema_breaks (old n) (new n)))
    \<and> ((\<exists>d \<in> set ds. doc_breaking d) \<longrightarrow> (\<exists>n \<in> set names. schema_breaks (old n) (new n)))
    \<and> ((\<forall>n \<in> set names. clear_schema (new n)) \<longrightarrow>
        (\<exists>d \<in> set ds. doc_breaking d) = (\<exists>n \<in> set names. schema_breaks (old n) (new n)))"
  using assms
proof (induction names arbitrary: ds)
  case (Cons n names)
  then obtain d ds' where d: "diff_object_schemas (old n) (new n) = Inr d" "ds = d # ds'"
    and rest: "map_err (\<lambda>n. diff_object_schemas (old n) (new n)) names = Inr ds'"
    by (auto simp: bind_err_eq_Inr)
  from schema_pair [OF d(1), of n] obtain x where x: "agent_schema_diff n (old n) (new n) = Inr x"
    "fst x \<noteq> [] \<longleftrightarrow> schema_breaks (old n) (new n)" "doc_breaking d \<longrightarrow> schema_breaks (old n) (new n)"
    "clear_schema (new n) \<longrightarrow> doc_breaking d = schema_breaks (old n) (new n)" by blast
  from Cons.IH [OF rest] obtain xs where xs: "map_err (\<lambda>n. agent_schema_diff n (old n) (new n)) names = Inr xs"
    "concat (map fst xs) \<noteq> [] \<longleftrightarrow> (\<exists>n \<in> set names. schema_breaks (old n) (new n))"
    "(\<exists>d \<in> set ds'. doc_breaking d) \<longrightarrow> (\<exists>n \<in> set names. schema_breaks (old n) (new n))"
    "(\<forall>n \<in> set names. clear_schema (new n)) \<longrightarrow>
        (\<exists>d \<in> set ds'. doc_breaking d) = (\<exists>n \<in> set names. schema_breaks (old n) (new n))" by blast
  have "map_err (\<lambda>n. agent_schema_diff n (old n) (new n)) (n # names) = Inr (x # xs)" by (simp add: x(1) xs(1))
  moreover have "concat (map fst (x # xs)) \<noteq> [] \<longleftrightarrow> fst x \<noteq> [] \<or> concat (map fst xs) \<noteq> []" by auto
  moreover note x(2-) xs(2-)
  ultimately show ?case unfolding d(2) list.set bex_simps ball_simps by blast
qed simp

text \<open>C36: 
  What the review agent fails is what breaks the clients, and every document the command line check
  refuses is one of them. When no required name of the new document contains the words
  \<open>no longer\<close>, both decide alike.
\<close>

theorem contract_checks_agree:
  assumes run: "check_exit old new = Inr c"
  shows "\<exists>r. build_review run_id elapsed old new = Inr r
    \<and> ag_decision r = (if breaks_clients old new then ''fail'' else ''pass'')
    \<and> ag_risk r = (if breaks_clients old new then ''high'' else ''low'')
    \<and> (c = 1 \<longrightarrow> breaks_clients old new)
    \<and> (clear_names new \<longrightarrow> c = (if breaks_clients old new then 1 else 0))"
proof -
  let ?o = "extract_schema old" and ?n = "extract_schema new"
  let ?both = "names_meet (keys ?o) (keys ?n)" and ?gone = "names_minus (keys ?o) (keys ?n)"
  let ?some = "\<exists>n \<in> set ?both. schema_breaks (schema_at ?o n) (schema_at ?n n)"
  let ?start = "no_diff\<lparr>dd_removed := map (\<lambda>n. ''schema:'' @ n) ?gone,
    dd_added := map (\<lambda>n. ''schema:'' @ n) (names_minus (keys ?n) (keys ?o))\<rparr>"
  obtain ds where ds: "map_err (\<lambda>n. diff_object_schemas (schema_at ?o n) (schema_at ?n n)) ?both = Inr ds"
    using run unfolding check_exit_def diff_openapi_documents_def Let_def
    by (cases "map_err (\<lambda>n. diff_object_schemas (schema_at ?o n) (schema_at ?n n)) ?both") simp_all
  have c: "c = (if doc_breaking (foldl extend_diff ?start ds) then 1 else 0)"
    using run unfolding check_exit_def diff_openapi_documents_def Let_def ds bind_err_simps prod.case sum.inject by (rule sym)
  have start: "doc_breaking ?start \<longleftrightarrow> ?gone \<noteq> []" by (simp add: doc_breaking_def no_diff_def)
  from schema_runs [OF ds] obtain xs where xs:
    "map_err (\<lambda>n. agent_schema_diff n (schema_at ?o n) (schema_at ?n n)) ?both = Inr xs"
    "concat (map fst xs) \<noteq> [] \<longleftrightarrow> ?some" "(\<exists>d \<in> set ds. doc_breaking d) \<longrightarrow> ?some"
    "(\<forall>n \<in> set ?both. clear_schema (schema_at ?n n)) \<longrightarrow> (\<exists>d \<in> set ds. doc_breaking d) = ?some" by blast
  have br: "breaks_clients old new \<longleftrightarrow> ?gone \<noteq> [] \<or> ?some"
    unfolding breaks_clients_def Let_def names_minus_Nil set_names_meet by blast
  obtain a where a: "agent_diff_documents old new = Inr a"
    "ad_breaking_changes a = map (\<lambda>n. ''schema removed: '' @ n) ?gone @ concat (map fst xs)"
    "ad_breaking a \<longleftrightarrow> ad_breaking_changes a \<noteq> []"
    by (simp add: agent_diff_documents_def Let_def xs(1))
  have "ad_breaking a \<longleftrightarrow> ?gone \<noteq> [] \<or> concat (map fst xs) \<noteq> []" unfolding a by auto
  then have ab: "ad_breaking a \<longleftrightarrow> breaks_clients old new" unfolding br xs(2) .
  obtain r where r: "build_review run_id elapsed old new = Inr r" "ag_risk r = (if ad_breaking a then ''high'' else ''low'')"
    "ag_decision r = (if ad_breaking_changes a \<noteq> [] then ''fail'' else ''pass'')"
    by (simp add: build_review_def a(1) Let_def)
  have "c = 1 \<longleftrightarrow> ?gone \<noteq> [] \<or> (\<exists>d \<in> set ds. doc_breaking d)" unfolding c aggregate_breaking start by simp
  moreover have "(\<forall>n \<in> set ?both. clear_schema (schema_at ?n n))" if "clear_names new"
    using that by (auto simp: clear_names_def list_all_iff)
  moreover have "c = 1 \<or> c = 0" unfolding c by simp
  ultimately have "c = 1 \<longrightarrow> breaks_clients old new" "clear_names new \<longrightarrow> c = (if breaks_clients old new then 1 else 0)"
    unfolding br using xs(3,4) by auto
  with r show ?thesis unfolding a(3) [symmetric] ab by blast
qed

text \<open>A field added as required under a name that reads like the end of a requirement.\<close>

definition sample_schema :: "(string \<times> string) list \<Rightarrow> string list \<Rightarrow> json" where
  "sample_schema ps rs = JDict [(''components'', JDict [(''schemas'', JDict [(''User'', JDict
     [(''properties'', JDict (map (\<lambda>(f, t). (f, JDict [(''type'', JStr t)])) ps)),
      (''required'', JList (map JStr rs))])])])]"

definition misnamed_doc :: json where
  "misnamed_doc = sample_schema [(''id'', ''string''), (''no longer used'', ''string'')] [''id'', ''no longer used'']"

lemma contract_checks_agree_witness:
  "(\<exists>r. build_review ''run'' (\<lambda>_. ''0.0'') (sample_schema [(''id'', ''string'')] [''id'']) (sample_schema [(''id'', ''integer'')] [''id'']) = Inr r
     \<and> ag_decision r = ''fail'')
   \<and> (\<exists>r. build_review ''run'' (\<lambda>_. ''0.0'') (sample_schema [(''id'', ''string'')] [''id'']) misnamed_doc = Inr r \<and> ag_decision r = ''fail'')
   \<and> check_exit (sample_schema [(''id'', ''string'')] [''id'']) misnamed_doc = Inr 0"
proof -
  let ?old = "sample_schema [(''id'', ''string'')] [''id'']" and ?new = "sample_schema [(''id'', ''integer'')] [''id'']"
  have a: "check_exit ?old ?new = Inr 1" "breaks_clients ?old ?new" "check_exit ?old misnamed_doc = Inr 0"
    "breaks_clients ?old misnamed_doc"
    by code_simp+
  then show ?thesis using contract_checks_agree [OF a(1), of "''run''" "\<lambda>_. ''0.0''"] contract_checks_agree [OF a(3), of "''run''" "\<lambda>_. ''0.0''"] by auto
qed

end
