(* ===== verification/Migrations.thy ===== *)
theory Migrations
  imports Py_Text
begin

text \<open>
  \<^verbatim>\<open>scripts/apply_runtime_migrations.py\<close>: the SQL files are applied in the order of their names, each in
  a transaction of its own, and recorded in \<open>runtime_schema_migrations\<close>. What a file does to the
  tables \<open>'d\<close> of the database is the server's: the argument \<open>execute\<close>, with the error classes the
  script tells apart. Reading the files and the printed lines are left out.
\<close>

section \<open>The script\<close>

datatype sql_error = DuplicateObject | DuplicateTable | OtherSqlError string

record 'd migration_db =
  mg_tables :: 'd
  mg_applied :: "string list option"   \<comment> \<open>the file names recorded; None: no such table yet\<close>

text \<open>\<open>bootstrap_dsn\<close> from the parts of the given one.\<close>

definition bootstrap_dsn :: "string pydict \<Rightarrow> string" where
  "bootstrap_dsn dsn_map =
     py_join '' '' (map (\<lambda>(k, v). k @ ''='' @ v) (filter (\<lambda>(k, v). k \<noteq> ''dbname'') dsn_map)) @ '' dbname=postgres''"

text \<open>The databases of the server by name; a new one has the tables \<open>fresh\<close>.\<close>

type_synonym 'd server = "'d migration_db pydict"

definition create_database :: "'d \<Rightarrow> string \<Rightarrow> 'd server \<Rightarrow> 'd server" where
  "create_database fresh target_db s =
     (case map_of s target_db of
        Some _ \<Rightarrow> s
      | None \<Rightarrow> dict_set target_db \<lparr>mg_tables = fresh, mg_applied = None\<rparr> s)"

text \<open>\<open>CREATE TABLE IF NOT EXISTS runtime_schema_migrations\<close>\<close>

definition create_log :: "'d migration_db \<Rightarrow> 'd migration_db" where
  "create_log db = (case mg_applied db of None \<Rightarrow> db\<lparr>mg_applied := Some []\<rparr> | Some _ \<Rightarrow> db)"

definition applied :: "'d migration_db \<Rightarrow> string list" where
  "applied db = (case mg_applied db of None \<Rightarrow> [] | Some names \<Rightarrow> names)"

definition record_file :: "string \<Rightarrow> 'd migration_db \<Rightarrow> 'd migration_db" where
  "record_file name db = db\<lparr>mg_applied := Some (applied db @ [name])\<rparr>"

text \<open>One file: skipped when recorded; a duplicate is rolled back and recorded; another error ends
  the run, with the transaction rolled back.\<close>

definition apply_file ::
  "(string \<Rightarrow> 'd \<Rightarrow> sql_error + 'd) \<Rightarrow> string \<Rightarrow> 'd migration_db \<Rightarrow> string option \<times> 'd migration_db" where
  "apply_file execute name db =
     (if name \<in> set (applied db) then (None, db)
      else case execute name (mg_tables db) of
          Inr d \<Rightarrow> (None, record_file name (db\<lparr>mg_tables := d\<rparr>))
        | Inl DuplicateObject \<Rightarrow> (None, record_file name db)
        | Inl DuplicateTable \<Rightarrow> (None, record_file name db)
        | Inl (OtherSqlError e) \<Rightarrow> (Some e, db))"

fun apply_files ::
  "(string \<Rightarrow> 'd \<Rightarrow> sql_error + 'd) \<Rightarrow> string list \<Rightarrow> 'd migration_db \<Rightarrow> string option \<times> 'd migration_db" where
  "apply_files execute [] db = (None, db)"
| "apply_files execute (name # names) db =
     (case apply_file execute name db of
        (None, db) \<Rightarrow> apply_files execute names db
      | (Some e, db) \<Rightarrow> (Some e, db))"

definition migrate ::
  "(string \<Rightarrow> 'd \<Rightarrow> sql_error + 'd) \<Rightarrow> 'd \<Rightarrow> string list \<Rightarrow> string \<Rightarrow> 'd server \<Rightarrow> string option \<times> 'd server" where
  "migrate execute fresh names target_db s =
     (let s = create_database fresh target_db s in
      case map_of s target_db of
        None \<Rightarrow> (Some ''database does not exist'', s)
      | Some db \<Rightarrow>
          (let (err, db) = apply_files execute (sort names) (create_log db)
           in (err, dict_set target_db db s)))"

section \<open>What a run does\<close>

text \<open>The tables after the files of a list that succeed, each on the result of the ones before.\<close>

fun run_files :: "(string \<Rightarrow> 'd \<Rightarrow> sql_error + 'd) \<Rightarrow> string list \<Rightarrow> 'd \<Rightarrow> 'd" where
  "run_files execute [] d = d"
| "run_files execute (n # ns) d = run_files execute ns (case execute n d of Inr d' \<Rightarrow> d' | Inl _ \<Rightarrow> d)"

lemma run_files_append: "run_files execute (ms @ ns) d = run_files execute ns (run_files execute ms d)"
  by (induction ms arbitrary: d) simp_all

lemma applied_simps [simp]:
  "applied (create_log db) = applied db" "applied (record_file n db) = applied db @ [n]"
  "mg_tables (create_log db) = mg_tables db" "mg_tables (record_file n db) = mg_tables db"
  "applied (db\<lparr>mg_tables := d\<rparr>) = applied db"
  by (auto simp: applied_def create_log_def record_file_def split: option.splits)

lemma create_log_id: "mg_applied db \<noteq> None \<Longrightarrow> create_log db = db"
  by (auto simp: create_log_def)

lemma apply_file_spec:
  "(fst (apply_file execute n db) = None \<longrightarrow>
     applied (snd (apply_file execute n db)) = applied db @ filter (\<lambda>n. n \<notin> set (applied db)) [n]
     \<and> mg_tables (snd (apply_file execute n db)) = run_files execute (filter (\<lambda>n. n \<notin> set (applied db)) [n]) (mg_tables db))
   \<and> (\<forall>e. fst (apply_file execute n db) = Some e \<longrightarrow> snd (apply_file execute n db) = db
       \<and> n \<notin> set (applied db) \<and> execute n (mg_tables db) = Inl (OtherSqlError e))
   \<and> (mg_applied db \<noteq> None \<longrightarrow> mg_applied (snd (apply_file execute n db)) \<noteq> None)"
  by (auto simp: apply_file_def record_file_def [of n] applied_def split: sum.splits sql_error.splits)

text \<open>A run applies the files not yet recorded, up to the first that fails: \<open>todo\<close> splits there.\<close>

lemma apply_files_spec:
  assumes "apply_files execute names db = (err, db')" "distinct names" "mg_applied db \<noteq> None"
  shows "\<exists>done rest. filter (\<lambda>n. n \<notin> set (applied db)) names = done @ rest
    \<and> applied db' = applied db @ done \<and> mg_tables db' = run_files execute done (mg_tables db) \<and> mg_applied db' \<noteq> None
    \<and> (case err of None \<Rightarrow> rest = []
       | Some e \<Rightarrow> rest \<noteq> [] \<and> execute (hd rest) (mg_tables db') = Inl (OtherSqlError e))"
  using assms
proof (induction names arbitrary: db)
  case (Cons n names)
  obtain err1 db1 where one: "apply_file execute n db = (err1, db1)" by (metis surj_pair)
  note S = apply_file_spec [of execute n db, unfolded one fst_conv snd_conv]
  show ?case
  proof (cases err1)
    case None
    then have rest: "apply_files execute names db1 = (err, db')" using Cons.prems(1) one by simp
    have a: "applied db1 = applied db @ filter (\<lambda>n. n \<notin> set (applied db)) [n]"
      "mg_tables db1 = run_files execute (filter (\<lambda>n. n \<notin> set (applied db)) [n]) (mg_tables db)" "mg_applied db1 \<noteq> None"
      using S None Cons.prems(3) by blast+
    from Cons.IH [OF rest _ a(3)] Cons.prems(2) obtain d r where IH:
      "filter (\<lambda>n. n \<notin> set (applied db1)) names = d @ r" "applied db' = applied db1 @ d"
      "mg_tables db' = run_files execute d (mg_tables db1)" "mg_applied db' \<noteq> None"
      "case err of None \<Rightarrow> r = [] | Some e \<Rightarrow> r \<noteq> [] \<and> execute (hd r) (mg_tables db') = Inl (OtherSqlError e)"
      by auto
    have "filter (\<lambda>n. n \<notin> set (applied db)) names = d @ r"
      unfolding IH(1) [symmetric] a(1) using Cons.prems(2) by (intro filter_cong) auto
    then have "filter (\<lambda>n. n \<notin> set (applied db)) (n # names) = (filter (\<lambda>n. n \<notin> set (applied db)) [n] @ d) @ r"
      by simp
    moreover have "applied db' = applied db @ (filter (\<lambda>n. n \<notin> set (applied db)) [n] @ d)" unfolding IH(2) a(1) by simp
    moreover have "mg_tables db' = run_files execute (filter (\<lambda>n. n \<notin> set (applied db)) [n] @ d) (mg_tables db)"
      unfolding IH(3) a(2) run_files_append ..
    ultimately show ?thesis using IH(4,5) by blast
  next
    case (Some e)
    then have "err = Some e" "db' = db1" using Cons.prems(1) one by simp_all
    moreover have "db1 = db" "n \<notin> set (applied db)" "execute n (mg_tables db) = Inl (OtherSqlError e)"
      using S Some by blast+
    ultimately show ?thesis using Cons.prems(3)
      by (intro exI [of _ "[]"] exI [of _ "n # filter (\<lambda>n. n \<notin> set (applied db)) names"]) simp
  qed
qed simp

section \<open>Properties\<close>

definition database :: "'d \<Rightarrow> string \<Rightarrow> 'd server \<Rightarrow> 'd migration_db" where
  "database fresh n s = (case map_of s n of None \<Rightarrow> \<lparr>mg_tables = fresh, mg_applied = None\<rparr> | Some db \<Rightarrow> db)"

definition pending :: "string list \<Rightarrow> 'd migration_db \<Rightarrow> string list" where
  "pending names db = filter (\<lambda>n. n \<notin> set (applied db)) (sort names)"

lemma migrate_steps:
  assumes "migrate execute fresh names target s = (err, s')"
  obtains db' where "apply_files execute (sort names) (create_log (database fresh target s)) = (err, db')"
    "map_of s' target = Some db'" "\<And>n. n \<noteq> target \<Longrightarrow> map_of s' n = map_of s n"
proof -
  show thesis
    using assms that by (cases "apply_files execute (sort names) (create_log (database fresh target s))")
      (auto simp: migrate_def create_database_def database_def Let_def update_conv' split: option.splits)
qed

text \<open>C37: 
  A run applies the files not yet recorded in the order of their names and records each with its
  effect, up to the first file that fails; the next run, with whatever the server then does, goes
  on with exactly the files from there. When no file fails all are recorded, and a further run
  changes nothing. Other databases are not touched.
\<close>

theorem migrations_apply_once:
  assumes "distinct names" and run: "migrate execute fresh names target s = (err, s')"
  shows "(\<exists>done rest db'. pending names (database fresh target s) = done @ rest \<and> map_of s' target = Some db'
      \<and> applied db' = applied (database fresh target s) @ done
      \<and> mg_tables db' = run_files execute done (mg_tables (database fresh target s))
      \<and> pending names db' = rest
      \<and> (case err of None \<Rightarrow> rest = []
         | Some e \<Rightarrow> rest \<noteq> [] \<and> execute (hd rest) (mg_tables db') = Inl (OtherSqlError e)))
    \<and> (\<forall>n. n \<noteq> target \<longrightarrow> map_of s' n = map_of s n)
    \<and> (err = None \<longrightarrow> (\<forall>exec. migrate exec fresh names target s' = (None, s')))"
proof -
  let ?db = "database fresh target s"
  from run obtain db' where a: "apply_files execute (sort names) (create_log ?db) = (err, db')"
    and s': "map_of s' target = Some db'" "\<And>n. n \<noteq> target \<Longrightarrow> map_of s' n = map_of s n" using migrate_steps [OF run] by blast
  have "mg_applied (create_log ?db) \<noteq> None" by (auto simp: create_log_def split: option.splits)
  from apply_files_spec [OF a _ this] assms(1) obtain d r where S:
    "pending names ?db = d @ r" "applied db' = applied ?db @ d" "mg_tables db' = run_files execute d (mg_tables ?db)"
    "mg_applied db' \<noteq> None"
    "case err of None \<Rightarrow> r = [] | Some e \<Rightarrow> r \<noteq> [] \<and> execute (hd r) (mg_tables db') = Inl (OtherSqlError e)"
    unfolding pending_def by auto
  have dist: "distinct (d @ r)" unfolding S(1) [symmetric] pending_def using assms(1) by simp
  have "pending names db' = filter (\<lambda>n. n \<notin> set d) (pending names ?db)"
    unfolding pending_def S(2) by (simp add: filter_filter conj_commute)
  then have rest: "pending names db' = r"
    unfolding S(1) using dist by (auto simp: filter_empty_conv intro: filter_True)
  have again: "migrate exec fresh names target s' = (None, s')" if err: "err = None" for exec
  proof -
    have "pending names db' = []" using rest S(5) err by simp
    then have all: "set (sort names) \<subseteq> set (applied db')" by (auto simp: pending_def filter_empty_conv)
    have "apply_files exec ns db' = (None, db')" if "set ns \<subseteq> set (applied db')" for ns
      using that by (induction ns) (simp_all add: apply_file_def)
    from this [OF all] show ?thesis
      using s'(1) by (simp add: migrate_def create_database_def create_log_id [OF S(4)] update_triv)
  qed
  with S rest s' show ?thesis by blast
qed

text \<open>A server on which \<open>002\<close> fails when \<open>001\<close> has not run.\<close>

definition demo_execute :: "string \<Rightarrow> string list \<Rightarrow> sql_error + string list" where
  "demo_execute n d = (if n = ''002.sql'' \<and> ''001.sql'' \<notin> set d then Inl (OtherSqlError ''no such table'') else Inr (d @ [n]))"

lemma migrations_apply_once_witness:
  "\<exists>s'. migrate demo_execute [] [''002.sql'', ''001.sql''] ''runtime'' [] = (None, s')
     \<and> map_option mg_tables (map_of s' ''runtime'') = Some [''001.sql'', ''002.sql'']
     \<and> migrate demo_execute [] [''002.sql'', ''001.sql''] ''runtime'' s' = (None, s')"
proof -
  obtain err s' where run: "migrate demo_execute [] [''002.sql'', ''001.sql''] ''runtime'' [] = (err, s')" by (metis surj_pair)
  have "(case migrate demo_execute [] [''002.sql'', ''001.sql''] ''runtime'' [] of (err, s') \<Rightarrow>
      err = None \<and> map_option mg_tables (map_of s' ''runtime'') = Some [''001.sql'', ''002.sql''])" by code_simp
  then have r: "err = None" "map_option mg_tables (map_of s' ''runtime'') = Some [''001.sql'', ''002.sql'']"
    unfolding run by simp_all
  have "distinct [''002.sql'', ''001.sql'']" by simp
  from migrations_apply_once [OF this run] r(1) have "migrate demo_execute [] [''002.sql'', ''001.sql''] ''runtime'' s' = (None, s')"
    by blast
  with run r show ?thesis by blast
qed

text \<open>A file of which one object exists already is rolled back as a whole and recorded: none of its
  statements has an effect, and no later run applies it.\<close>

theorem duplicate_file_is_lost:
  assumes "n \<notin> set (applied db)" "execute n (mg_tables db) \<in> {Inl DuplicateTable, Inl DuplicateObject}"
    and "apply_file execute n db = (err, db')"
  shows "err = None \<and> mg_tables db' = mg_tables db \<and> (\<forall>exec. apply_file exec n db' = (None, db'))"
  using assms by (auto simp: apply_file_def)

lemma duplicate_file_is_lost_witness:
  "apply_file (\<lambda>n d. if n = ''001.sql'' then Inl DuplicateTable else Inr (d @ [n])) ''001.sql''
     \<lparr>mg_tables = [''endpoints''], mg_applied = Some []\<rparr>
   = (None, \<lparr>mg_tables = [''endpoints''], mg_applied = Some [''001.sql'']\<rparr>)"
  using duplicate_file_is_lost [of "''001.sql''" "\<lparr>mg_tables = [''endpoints''], mg_applied = Some []\<rparr>"
    "\<lambda>n d. if n = ''001.sql'' then Inl DuplicateTable else Inr (d @ [n])"]
  by (simp add: apply_file_def record_file_def applied_def)

end
