(* ===== verification/Legacy_Facts.thy ===== *)
theory Legacy_Facts
  imports Track
begin

text \<open>
  The legacy tables over the requests: one endpoint per service, method and route, one snapshot
  per endpoint and fingerprint, and one active baseline per endpoint, its first snapshot. Every
  later payload is compared with that first one.
\<close>

section \<open>The invariant\<close>

definition snapshots_of :: "rdb \<Rightarrow> string \<Rightarrow> schema_snapshot list" where
  "snapshots_of db e = filter (\<lambda>s. ss_endpoint s = e) (schema_snapshots db)"

definition snapshots_ok :: "schema_snapshot list \<Rightarrow> bool" where
  "snapshots_ok rows \<longleftrightarrow> distinct (map ss_fingerprint rows)
     \<and> (case rows of [] \<Rightarrow> True | s # ss \<Rightarrow> ss_baseline s \<and> list_all (\<lambda>x. \<not> ss_baseline x) ss)"

definition legacy_ok :: "rdb \<Rightarrow> bool" where
  "legacy_ok db \<longleftrightarrow>
     distinct (map legacy_key (api_endpoints db)) \<and> distinct (map ae_id (api_endpoints db))
     \<and> (\<forall>a \<in> set (api_endpoints db). issued (next_id db) (ae_id a))
     \<and> (\<forall>e. snapshots_ok (snapshots_of db e))"

lemma legacy_ok_empty [simp]: "legacy_ok (empty_rdb t)"
  by (simp add: legacy_ok_def empty_rdb_def snapshots_of_def snapshots_ok_def)

lemma legacy_ok_frame:
  assumes "legacy_ok db" "api_endpoints db' = api_endpoints db" "schema_snapshots db' = schema_snapshots db"
    "next_id db \<le> next_id db'"
  shows "legacy_ok db'"
  using assms issued_mono by (auto simp: legacy_ok_def snapshots_of_def)

lemma legacy_endpoint_ok:
  assumes ok: "legacy_ok db" and en: "legacy_ensure_endpoint db svc m r = (e, db1)"
  shows "legacy_ok db1" "schema_snapshots db1 = schema_snapshots db" "now db1 = now db"
    "drift_violations db1 = drift_violations db"
    "\<exists>a \<in> set (api_endpoints db1). legacy_key a = (svc, m, r) \<and> ae_id a = e"
proof -
  let ?P = "\<lambda>a. legacy_key a = (svc, m, r)"
  have "legacy_ok db1 \<and> schema_snapshots db1 = schema_snapshots db \<and> now db1 = now db
    \<and> drift_violations db1 = drift_violations db \<and> (\<exists>a \<in> set (api_endpoints db1). ?P a \<and> ae_id a = e)"
  proof (cases "first_row (filter ?P (api_endpoints db))")
    case (Some a)
    then have "a \<in> set (filter ?P (api_endpoints db))" by (rule first_row_Some_set)
    then show ?thesis using en ok Some by (auto simp: legacy_ensure_endpoint_def)
  next
    case None
    let ?a = "\<lparr>ae_id = gen_uuid (next_id db), ae_service = svc, ae_method = m, ae_route = r\<rparr>"
    have new: "e = gen_uuid (next_id db)"
      "db1 = db\<lparr>next_id := Suc (next_id db), api_endpoints := api_endpoints db @ [?a]\<rparr>"
      using en None by (auto simp: legacy_ensure_endpoint_def fresh_id_def Let_def)
    have "(svc, m, r) \<notin> legacy_key ` set (api_endpoints db)"
      using None by (auto simp: filter_empty_conv)
    moreover have "gen_uuid (next_id db) \<notin> ae_id ` set (api_endpoints db)"
      using ok issued_fresh unfolding legacy_ok_def by (metis imageE)
    ultimately have "legacy_ok db1"
      using ok unfolding legacy_ok_def new by (simp add: snapshots_of_def legacy_key_def)
    then show ?thesis by (simp add: new legacy_key_def)
  qed
  then show "legacy_ok db1" "schema_snapshots db1 = schema_snapshots db" "now db1 = now db"
    "drift_violations db1 = drift_violations db"
    "\<exists>a \<in> set (api_endpoints db1). legacy_key a = (svc, m, r) \<and> ae_id a = e" by blast+
qed

lemma baseline_rows_snapshots: "baseline_rows db e = filter ss_baseline (snapshots_of db e)"
  by (simp add: baseline_rows_def snapshots_of_def conj_commute)

lemma baseline_of_ok:
  assumes "snapshots_ok (snapshots_of db e)"
  shows "get_active_baseline_snapshot db e =
    (case snapshots_of db e of [] \<Rightarrow> None | s # ss \<Rightarrow> Some (ss_fingerprint s, ss_schema s))"
proof -
  note rows = baseline_rows_snapshots [of db e]
  show ?thesis
  proof (cases "snapshots_of db e")
    case (Cons s ss)
    then have "filter ss_baseline (snapshots_of db e) = [s]"
      using assms by (simp add: snapshots_ok_def filter_empty_conv list_all_iff)
    then show ?thesis by (simp add: get_active_baseline_snapshot_def rows Cons sort_desc_def)
  qed (simp add: get_active_baseline_snapshot_def rows)
qed

lemma known_snapshot:
  "list_ex (is_snapshot e fp) (schema_snapshots db) \<longleftrightarrow> fp \<in> ss_fingerprint ` set (snapshots_of db e)"
  by (auto simp: list_ex_iff is_snapshot_def snapshots_of_def)

lemma register_snapshot_rows:
  assumes "register_snapshot db e fp s = (ins, db1)"
  shows "ins \<longleftrightarrow> fp \<notin> ss_fingerprint ` set (snapshots_of db e)"
    and "api_endpoints db1 = api_endpoints db" "next_id db \<le> next_id db1" "drift_violations db1 = drift_violations db"
    and "\<exists>x. ss_fingerprint x = fp \<and> ss_schema x = s \<and> \<not> ss_baseline x \<and> ss_endpoint x = e
      \<and> (\<forall>f. snapshots_of db1 f = snapshots_of db f @ (if ins \<and> f = e then [x] else []))"
proof -
  let ?x = "\<lparr>ss_id = gen_uuid (next_id db), ss_endpoint = e, ss_fingerprint = fp, ss_schema = s,
    ss_baseline = False, ss_created = now db\<rparr>"
  have "(ins \<longleftrightarrow> fp \<notin> ss_fingerprint ` set (snapshots_of db e)) \<and> api_endpoints db1 = api_endpoints db
    \<and> next_id db \<le> next_id db1 \<and> drift_violations db1 = drift_violations db
    \<and> (\<forall>f. snapshots_of db1 f = snapshots_of db f @ (if ins \<and> f = e then [?x] else []))"
    using assms by (auto simp: register_snapshot_def known_snapshot fresh_id_def Let_def snapshots_of_def split: if_splits)
  then have "ins \<longleftrightarrow> fp \<notin> ss_fingerprint ` set (snapshots_of db e)" "api_endpoints db1 = api_endpoints db"
    "next_id db \<le> next_id db1" "drift_violations db1 = drift_violations db"
    and x: "\<forall>f. snapshots_of db1 f = snapshots_of db f @ (if ins \<and> f = e then [?x] else [])"
    by blast+
  then show "ins \<longleftrightarrow> fp \<notin> ss_fingerprint ` set (snapshots_of db e)" "api_endpoints db1 = api_endpoints db"
    "next_id db \<le> next_id db1" "drift_violations db1 = drift_violations db" by blast+
  show "\<exists>x. ss_fingerprint x = fp \<and> ss_schema x = s \<and> \<not> ss_baseline x \<and> ss_endpoint x = e
      \<and> (\<forall>f. snapshots_of db1 f = snapshots_of db f @ (if ins \<and> f = e then [x] else []))"
    by (rule exI [of _ ?x], intro conjI x) simp_all
qed

text \<open>Making the only snapshot of an endpoint its baseline.\<close>

lemma set_baseline_rows:
  assumes "snapshots_of db e = [x]" "ss_fingerprint x = fp"
  shows "snapshots_of (set_baseline db e fp) f = (if f = e then [x\<lparr>ss_baseline := True\<rparr>] else snapshots_of db f)"
proof -
  let ?off = "update_where (\<lambda>s. ss_endpoint s = e) (\<lambda>s. s\<lparr>ss_baseline := False\<rparr>)"
  let ?on = "update_where (is_snapshot e fp) (\<lambda>s. s\<lparr>ss_baseline := True\<rparr>)"
  have comm: "filter (\<lambda>s. ss_endpoint s = f) (update_where p g rows) = update_where p g (filter (\<lambda>s. ss_endpoint s = f) rows)"
    if "\<And>s. ss_endpoint (g s) = ss_endpoint s" for p g rows
    using that by (induction rows) (auto simp: update_where_def)
  have "snapshots_of (set_baseline db e fp) f = ?on (?off (snapshots_of db f))"
    by (simp add: snapshots_of_def set_baseline_def comm)
  also have "\<dots> = (if f = e then [x\<lparr>ss_baseline := True\<rparr>] else snapshots_of db f)"
  proof (cases "f = e")
    case True
    have "x \<in> set (snapshots_of db e)" by (simp add: assms(1))
    then have "ss_endpoint x = e" by (simp add: snapshots_of_def)
    then show ?thesis using assms True by (simp add: update_where_def is_snapshot_def)
  next
    case False
    then have "s \<in> set (snapshots_of db f) \<Longrightarrow> ss_endpoint s \<noteq> e" for s by (auto simp: snapshots_of_def)
    then show ?thesis using False by (simp add: update_where_none is_snapshot_def)
  qed
  finally show ?thesis .
qed

lemma log_drift_frame:
  "schema_snapshots (log_drift_violations db e fp ds) = schema_snapshots db
    \<and> api_endpoints (log_drift_violations db e fp ds) = api_endpoints db
    \<and> next_id db \<le> next_id (log_drift_violations db e fp ds)"
proof (induction ds arbitrary: db)
  case (Cons d ds)
  have one: "schema_snapshots (log_violation e fp db d) = schema_snapshots db
      \<and> api_endpoints (log_violation e fp db d) = api_endpoints db \<and> next_id db \<le> next_id (log_violation e fp db d)"
    by (cases "li_severity d") (simp_all add: log_violation_def fresh_id_def)
  have "log_drift_violations db e fp (d # ds) = log_drift_violations (log_violation e fp db d) e fp ds"
    by (simp add: log_drift_violations_def)
  then show ?case using Cons [of "log_violation e fp db d"] one by simp
qed (simp add: log_drift_violations_def)

section \<open>Properties\<close>

definition violation_view :: "drift_violation \<Rightarrow> string \<times> string \<times> string option \<times> json" where
  "violation_view v = (dv_endpoint v, dv_fingerprint v, Some (dv_severity v), dv_payload v)"

lemma legacy_write_spec:
  assumes "legacy_ok db" and "legacy_dual_write db svc m r fp schema = ((e, ins, sev, n), db')"
  shows "legacy_ok db'
    \<and> (case snapshots_of db e of
        [] \<Rightarrow> (\<exists>x. snapshots_of db' e = [x] \<and> ss_fingerprint x = fp \<and> ss_schema x = schema \<and> ss_baseline x)
          \<and> drift_violations db' = drift_violations db
      | first # rest \<Rightarrow>
          (\<exists>more. snapshots_of db' e = first # rest @ more
            \<and> map ss_fingerprint more = (if fp \<in> ss_fingerprint ` set (first # rest) then [] else [fp]))
          \<and> map violation_view (drift_violations db') = map violation_view (drift_violations db)
            @ (if ss_fingerprint first = fp then []
               else map (\<lambda>d. (e, fp, li_severity d, violation_payload d))
                 (filter (\<lambda>d. li_severity d \<noteq> None) (classify_contract_drift (structural_diff (ss_schema first) schema)))))"
proof -
  obtain e1 db1 ins1 db2 where en1: "legacy_ensure_endpoint db svc m r = (e1, db1)"
    and reg1: "register_snapshot db1 e1 fp schema = (ins1, db2)" by (metis surj_pair)
  have eqs: "e1 = e" "ins1 = ins" and db': "db' =
      (case get_active_baseline_snapshot db2 e of
         None \<Rightarrow> if ins then set_baseline db2 e fp else db2
       | Some (b, old) \<Rightarrow> if b \<noteq> fp then log_drift_violations db2 e fp (classify_contract_drift (structural_diff old schema)) else db2)"
    using assms(2) by (auto simp: legacy_dual_write_def register_payload_snapshot_def en1 reg1 Let_def
        split: option.splits if_splits)
  note en = en1 [unfolded eqs] and reg = reg1 [unfolded eqs]
  note E = legacy_endpoint_ok [OF assms(1) en] and R = register_snapshot_rows [OF reg]
  have s1: "snapshots_of db1 f = snapshots_of db f" for f using E(2) by (simp add: snapshots_of_def)
  obtain x where x: "ss_fingerprint x = fp" "ss_schema x = schema" "\<not> ss_baseline x" "ss_endpoint x = e"
    and s2: "\<And>f. snapshots_of db2 f = snapshots_of db f @ (if ins \<and> f = e then [x] else [])"
    using R(5) unfolding s1 by blast
  have ins: "ins \<longleftrightarrow> fp \<notin> ss_fingerprint ` set (snapshots_of db e)" using R(1) unfolding s1 .
  have ok: "snapshots_ok (snapshots_of db f)" for f using assms(1) by (simp add: legacy_ok_def)
  have legacy: "legacy_ok d" if "api_endpoints d = api_endpoints db2" "next_id db2 \<le> next_id d"
    "\<And>f. snapshots_ok (snapshots_of d f)" for d
    using E(1) R(2,3) that issued_mono unfolding legacy_ok_def by (auto intro: le_trans)
  show ?thesis
  proof (cases "snapshots_of db e")
    case Nil
    then have rows: "snapshots_of db2 e = [x]" and "ins" using ins s2 by simp_all
    then have "baseline_rows db2 e = []"
      using x(3) by (metis (no_types, lifting) baseline_rows_snapshots filter.simps)
    then have db'_eq: "db' = set_baseline db2 e fp"
      using db' \<open>ins\<close> by (simp add: get_active_baseline_snapshot_def)
    have rows': "snapshots_of db' f = (if f = e then [x\<lparr>ss_baseline := True\<rparr>] else snapshots_of db f)" for f
      unfolding db'_eq set_baseline_rows [OF rows x(1)] by (simp add: s2)
    have "legacy_ok db'"
    proof (rule legacy)
      show "api_endpoints db' = api_endpoints db2" "next_id db2 \<le> next_id db'"
        by (simp_all add: db'_eq set_baseline_def)
      show "snapshots_ok (snapshots_of db' f)" for f
        using ok [of f] unfolding rows' by (simp add: snapshots_ok_def)
    qed
    moreover have "drift_violations db' = drift_violations db"
      using R(4) E(4) by (simp add: db'_eq set_baseline_def)
    ultimately show ?thesis using rows' [of e] x by (simp add: Nil)
  next
    case (Cons first rest)
    define more where "more = (if ins then [x] else [])"
    have rows: "snapshots_of db2 e = first # rest @ more" using s2 [of e] by (simp add: Cons more_def)
    have ok2: "snapshots_ok (snapshots_of db2 f)" for f
      using ok [of f] ins x by (cases "ins \<and> f = e") (auto simp: s2 Cons snapshots_ok_def)
    have base: "get_active_baseline_snapshot db2 e = Some (ss_fingerprint first, ss_schema first)"
      by (simp add: baseline_of_ok [OF ok2] rows)
    have more: "map ss_fingerprint more = (if fp \<in> ss_fingerprint ` set (first # rest) then [] else [fp])"
      using ins x(1) unfolding Cons more_def by auto
    let ?ds = "classify_contract_drift (structural_diff (ss_schema first) schema)"
    have db'_eq: "db' = (if ss_fingerprint first = fp then db2 else log_drift_violations db2 e fp ?ds)"
      unfolding db' base by simp
    have same: "schema_snapshots db' = schema_snapshots db2" "api_endpoints db' = api_endpoints db2"
      "next_id db2 \<le> next_id db'"
      using log_drift_frame unfolding db'_eq by simp_all
    have rows': "snapshots_of db' f = snapshots_of db2 f" for f by (simp add: snapshots_of_def same)
    have "legacy_ok db'" by (rule legacy) (simp_all add: same rows' ok2)
    moreover have "map violation_view (drift_violations db') = map violation_view (drift_violations db)
        @ (if ss_fingerprint first = fp then []
           else map (\<lambda>d. (e, fp, li_severity d, violation_payload d)) (filter (\<lambda>d. li_severity d \<noteq> None) ?ds))"
      using log_drift_rows [of db2 e fp ?ds] R(4) E(4) unfolding db'_eq violation_view_def [abs_def] by simp
    ultimately show ?thesis
      using rows more unfolding rows' [symmetric] by (simp add: Cons del: set_simps)
  qed
qed

text \<open>C32: The legacy path keeps its tables well formed (unique endpoints, one snapshot per fingerprint, the
  first snapshot of an endpoint its only active baseline), and each payload is compared with that
  first snapshot: the first payload of an endpoint becomes the baseline and logs nothing, a payload
  with the baseline's fingerprint logs nothing, and every other one, each time it is sent, logs the
  classified changes against the baseline that have a severity.\<close>

theorem legacy_baseline_is_first:
  assumes "legacy_ok db" and "legacy_dual_write db svc m r fp schema = ((e, ins, sev, n), db')"
  shows "legacy_ok db'
    \<and> (case snapshots_of db e of
        [] \<Rightarrow> (\<exists>x. snapshots_of db' e = [x] \<and> ss_fingerprint x = fp \<and> ss_schema x = schema \<and> ss_baseline x)
          \<and> drift_violations db' = drift_violations db
      | first # rest \<Rightarrow>
          (\<exists>more. snapshots_of db' e = first # rest @ more
            \<and> map ss_fingerprint more = (if fp \<in> ss_fingerprint ` set (first # rest) then [] else [fp]))
          \<and> map violation_view (drift_violations db') = map violation_view (drift_violations db)
            @ (if ss_fingerprint first = fp then []
               else map (\<lambda>d. (e, fp, li_severity d, violation_payload d))
                 (filter (\<lambda>d. li_severity d \<noteq> None) (classify_contract_drift (structural_diff (ss_schema first) schema)))))"
  by (rule legacy_write_spec [OF assms])

lemma legacy_baseline_is_first_witness:
  "\<exists>e ins sev n db'. legacy_dual_write (empty_rdb 0) ''s'' ''GET'' ''/x'' ''fp'' (JDict []) = ((e, ins, sev, n), db')
    \<and> legacy_ok db' \<and> (\<exists>x. snapshots_of db' e = [x] \<and> ss_baseline x)"
proof -
  obtain e ins sev n db' where w: "legacy_dual_write (empty_rdb 0) ''s'' ''GET'' ''/x'' ''fp'' (JDict []) = ((e, ins, sev, n), db')"
    by (metis surj_pair)
  have "snapshots_of (empty_rdb 0) e = []" by (simp add: snapshots_of_def empty_rdb_def)
  with legacy_baseline_is_first [OF legacy_ok_empty w] w show ?thesis by auto
qed

end
