(* ===== verification/Benchmarks.thy ===== *)
theory Benchmarks
  imports Legacy_Facts
begin

text \<open>
  The benchmark scripts \<^verbatim>\<open>scripts/summarize_benchmarks.py\<close>, \<^verbatim>\<open>scripts/render_benchmark_docs.py\<close> and
  \<^verbatim>\<open>scripts/run_k6_benchmark.py\<close>. A path is its list of parts, an absolute one with \<open>/\<close> first; the JSON
  files are a partial map from paths to their values. The k6 process is the argument \<open>k6\<close>: it takes
  the command and changes files and tables. \<open>float_int\<close> is \<open>int(float(..))\<close> of a numeral.
\<close>

section \<open>Paths\<close>

type_synonym path = "string list"
type_synonym json_files = "path \<Rightarrow> json option"

definition path_text :: "path \<Rightarrow> string" where
  "path_text p = (case p of
     r # rest \<Rightarrow> if r = ''/'' then ''/'' @ py_join ''/'' rest else py_join ''/'' p
   | [] \<Rightarrow> ''.'')"

text \<open>\<open>path.stem\<close>: the last part up to its last dot, when the dot is inside.\<close>

definition stem :: "string \<Rightarrow> string" where
  "stem name =
     (let suffix = takeWhile (\<lambda>c. c \<noteq> CHR ''.'') (rev name);
          before = drop (length suffix + 1) (rev name)
      in if suffix = [] \<or> before = [] then name else rev before)"

definition with_name :: "path \<Rightarrow> string \<Rightarrow> path" where
  "with_name p name = butlast p @ [name]"

definition relative_to :: "path \<Rightarrow> path \<Rightarrow> py_error + path" where
  "relative_to p base =
     (if prefix base p then Inr (drop (length base) p) else Inl (ValueError ''is not in the subpath of''))"

section \<open>\<open>summarize_benchmarks.py\<close>\<close>

definition metric_of :: "json \<Rightarrow> string \<Rightarrow> string \<Rightarrow> json" where
  "metric_of metrics k stat =
     (case jget_or metrics k (JDict []) of JDict d \<Rightarrow> jget_or (JDict d) stat JNull | _ \<Rightarrow> JNull)"

definition sidecar_paths :: "path \<Rightarrow> path list" where
  "sidecar_paths p = map (\<lambda>suffix. with_name p (stem (last p) @ suffix)) [''.state.json'', ''.db.json'', ''.snapshot.json'']"

definition load_sidecar :: "json_files \<Rightarrow> path \<Rightarrow> json" where
  "load_sidecar files p =
     (case filter (\<lambda>c. files c \<noteq> None) (sidecar_paths p) of [] \<Rightarrow> JDict [] | c # cs \<Rightarrow> the (files c))"

definition extract_metrics :: "json \<Rightarrow> json" where
  "extract_metrics payload = (let metrics = jget_or payload ''metrics'' JNull in if is_dict metrics then metrics else payload)"

text \<open>\<open>int(_metric_number(..))\<close>; a bool is a number, and anything else the default 0.\<close>

definition metric_int :: "(string \<Rightarrow> int) \<Rightarrow> json \<Rightarrow> string \<Rightarrow> string \<Rightarrow> int" where
  "metric_int float_int metrics k stat =
     (case metric_of metrics k stat of
        JInt i \<Rightarrow> float_int (show_int i) | JFloat t \<Rightarrow> float_int t | JBool b \<Rightarrow> of_bool b | _ \<Rightarrow> 0)"

definition ordered_keys :: "string list" where
  "ordered_keys = [''endpoint_count'', ''snapshot_count'', ''schema_version_count'', ''webhook_outbox_pending_count'',
     ''webhook_delivery_dlq_count'', ''drift_event_dlq_count'', ''webhook_delivery_attempts_count'',
     ''contract_review_count'', ''contract_review_insufficient_evidence_count'']"

definition printable :: "json \<Rightarrow> bool" where
  "printable j = (case j of JStr _ \<Rightarrow> True | JInt _ \<Rightarrow> True | JFloat _ \<Rightarrow> True | JBool _ \<Rightarrow> True | _ \<Rightarrow> False)"

definition state_part :: "json pydict \<Rightarrow> string \<Rightarrow> string" where
  "state_part state k = k @ ''='' @ py_str (case map_of state k of Some v \<Rightarrow> v | None \<Rightarrow> JNull)"

definition state_summary :: "json pydict \<Rightarrow> string" where
  "state_summary state =
     (if state = [] then ''n/a''
      else let extra = sort (filter (\<lambda>k. k \<notin> set ordered_keys) (keys state));
               parts = map (state_part state) (filter (\<lambda>k. k \<in> set (keys state)) ordered_keys)
                 @ map (state_part state) (filter (\<lambda>k. printable (the (map_of state k))) extra)
           in if parts \<noteq> [] then py_join '', '' parts else ''n/a'')"

definition dict_or_empty :: "json \<Rightarrow> json pydict" where
  "dict_or_empty j = (case j of JDict d \<Rightarrow> d | _ \<Rightarrow> [])"

definition stat_or_none :: "json \<Rightarrow> string \<Rightarrow> json" where
  "stat_or_none m stat = (if is_dict m then jget_or m stat JNull else JNull)"

definition error_classes :: "(string \<Rightarrow> int) \<Rightarrow> json \<Rightarrow> json pydict" where
  "error_classes float_int metrics =
     map (\<lambda>(k, m). (k, JInt (metric_int float_int metrics m ''value'')))
       [(''transport'', ''request_error_transport_total''), (''validation'', ''request_error_validation_total''),
        (''client'', ''request_error_client_total''), (''server'', ''request_error_server_total'')]"

definition summary_row :: "(string \<Rightarrow> int) \<Rightarrow> string \<Rightarrow> json \<Rightarrow> json \<Rightarrow> json pydict" where
  "summary_row float_int name metrics state =
     (let part = (\<lambda>k. jget_or metrics k (JDict []));
          vus = jget_or metrics ''vus'' (jget_or metrics ''vus_max'' (JDict []))
      in [(''artifact'', JStr name), (''vus'', stat_or_none vus ''value''),
          (''requests'', stat_or_none (part ''http_reqs'') ''count''),
          (''failed_checks'', if is_dict (part ''checks'') then jget_or (part ''checks'') ''fails'' (JInt 0) else JInt 0),
          (''p50_latency_ms'', stat_or_none (part ''http_req_duration'') ''med''),
          (''p95_latency_ms'', stat_or_none (part ''http_req_duration'') ''p(95)''),
          (''p99_latency_ms'', stat_or_none (part ''http_req_duration'') ''p(99)''),
          (''error_rate'', stat_or_none (part ''http_req_failed'') ''value''),
          (''throughput_rps'', stat_or_none (part ''http_reqs'') ''rate''),
          (''error_classes'', JDict (error_classes float_int metrics)),
          (''state_summary'', JStr (state_summary (dict_or_empty state))),
          (''state'', JDict (dict_or_empty state))])"

definition summarize_artifact :: "(string \<Rightarrow> int) \<Rightarrow> json_files \<Rightarrow> path \<Rightarrow> py_error + json pydict" where
  "summarize_artifact float_int files p =
     (case files p of
        None \<Rightarrow> Inl (RuntimeError ''No such file or directory'')
      | Some payload \<Rightarrow>
          if \<not> is_dict payload then Inl (TypeError ''object has no attribute get'')
          else
            (let own = jget_or payload ''state'' JNull
             in Inr (summary_row float_int (last p) (extract_metrics payload)
                  (if is_dict own then own else load_sidecar files p))))"

text \<open>\<open>render_markdown\<close>: the table head and one line per row.\<close>

definition table_head :: "string list" where
  "table_head = [''# DRIFTGATE Benchmark Summary'', [],
     ''| artifact | VUs | requests | failed checks | p50 latency ms | p95 latency ms | p99 latency ms | error rate | throughput rps | error classes | state snapshot |'',
     ''| --- | --- | --- | --- | --- | --- | --- | --- | --- | --- | --- |'']"

definition class_summary :: "json \<Rightarrow> string" where
  "class_summary classes =
     (case classes of
        JDict (c # cs) \<Rightarrow> py_join '', '' (map (\<lambda>(k, v). k @ '':'' @ py_str v) (c # cs))
      | _ \<Rightarrow> ''n/a'')"

definition render_row :: "json pydict \<Rightarrow> string" where
  "render_row row =
     (let cell = (\<lambda>k dflt. py_str (jget_or (JDict row) k (JStr dflt)))
      in ''| '' @ py_join '' | ''
           ([cell ''artifact'' ''n/a'', cell ''vus'' ''n/a'', cell ''requests'' ''n/a'',
             py_str (jget_or (JDict row) ''failed_checks'' (JInt 0)), cell ''p50_latency_ms'' ''n/a'',
             cell ''p95_latency_ms'' ''n/a'', cell ''p99_latency_ms'' ''n/a'', cell ''error_rate'' ''n/a'',
             cell ''throughput_rps'' ''n/a'', class_summary (jget_or (JDict row) ''error_classes'' (JDict [])),
             cell ''state_summary'' ''n/a'']) @ '' |'')"

definition render_markdown :: "json pydict list \<Rightarrow> string" where
  "render_markdown rows = py_join nl (table_head @ map render_row rows)"

text \<open>\<open>main\<close>: the summary of all artifacts. In \<open>render_benchmark_docs.py\<close> a title replaces that of
  the first line, the first place where it occurs.\<close>

definition summarize_main :: "(string \<Rightarrow> int) \<Rightarrow> json_files \<Rightarrow> path list \<Rightarrow> py_error + string" where
  "summarize_main float_int files ps =
     bind_err (map_err (summarize_artifact float_int files) ps) (\<lambda>rows. Inr (render_markdown rows))"

definition titled :: "string \<Rightarrow> string \<Rightarrow> string" where
  "titled title markdown =
     (if title \<noteq> [] then ''# '' @ title @ drop (length ''# DRIFTGATE Benchmark Summary'') markdown else markdown)"

definition render_docs :: "(string \<Rightarrow> int) \<Rightarrow> json_files \<Rightarrow> string \<Rightarrow> path list \<Rightarrow> py_error + string" where
  "render_docs float_int files title ps =
     bind_err (summarize_main float_int files ps) (\<lambda>markdown. Inr (titled title markdown @ nl))"

section \<open>\<open>run_k6_benchmark.py\<close>\<close>

text \<open>\<open>_load_state\<close>: the newest registry endpoint of the key, and the rows with its id.\<close>

definition benchmark_state :: "rdb \<Rightarrow> string \<Rightarrow> json pydict" where
  "benchmark_state db e =
     (let counted = (\<lambda>n. JInt (int n))
      in [(''endpoint_count'', JInt 1),
          (''snapshot_count'', counted (length (filter (\<lambda>s. ss_endpoint s = e) (schema_snapshots db)))),
          (''schema_version_count'', counted (length (filter (\<lambda>v. sv_endpoint v = e) (versions db)))),
          (''webhook_outbox_pending_count'',
            counted (length (filter (\<lambda>r. ob_endpoint r = e \<and> ob_status r = PENDING) (outbox db)))),
          (''webhook_delivery_dlq_count'', counted (length (filter (\<lambda>r. dl_endpoint r = e) (dlq db)))),
          (''drift_event_dlq_count'', counted (length (filter (\<lambda>r. ed_endpoint r = e) (event_dlq db)))),
          (''webhook_delivery_attempts_count'', counted (length (filter (\<lambda>a. da_endpoint a = e) (attempts db))))])"

definition no_state :: "json pydict" where
  "no_state = map (\<lambda>k. (k, JInt 0)) (take 7 ordered_keys)"

definition load_state :: "rdb \<Rightarrow> string \<Rightarrow> string \<Rightarrow> string \<Rightarrow> string \<Rightarrow> json pydict" where
  "load_state db namespace service_name http_method route_path =
     (case first_row (rev (filter (\<lambda>e. reg_key e = (namespace, service_name, http_method, route_path)) (endpoints db))) of
        None \<Rightarrow> no_state
      | Some e \<Rightarrow> benchmark_state db (re_id e))"

record bench_args =
  ba_script :: path
  ba_name :: string
  ba_dir :: path
  ba_url :: string
  ba_route :: string
  ba_service :: string
  ba_space :: string
  ba_method :: string
  ba_vus :: "int option"
  ba_total :: "int option"
  ba_duration :: string
  ba_skip :: bool

definition default_args :: bench_args where
  "default_args = \<lparr>ba_script = [''k6'', ''track_profile.js''], ba_name = [], ba_dir = [''docs'', ''benchmarks''],
     ba_url = ''http://localhost:8302/track'', ba_route = ''/bench/profile'', ba_service = ''bench-profile'',
     ba_space = ''k6'', ba_method = ''POST'', ba_vus = Some 25, ba_total = Some 10000, ba_duration = [], ba_skip = False\<rparr>"

definition env_arg :: "string \<Rightarrow> string \<Rightarrow> string list" where
  "env_arg k v = [''-e'', k @ ''='' @ v]"

definition env_args :: "bench_args \<Rightarrow> string list" where
  "env_args a =
     env_arg ''TRACK_URL'' (ba_url a) @ env_arg ''ROUTE_PATH'' (ba_route a) @ env_arg ''SERVICE_NAME'' (ba_service a)
     @ env_arg ''NAMESPACE'' (ba_space a) @ env_arg ''HTTP_METHOD'' (ba_method a)
     @ (case ba_vus a of None \<Rightarrow> [] | Some n \<Rightarrow> env_arg ''K6_VUS'' (show_int n))
     @ (case (if ba_duration a = [] then ba_total a else None) of
          None \<Rightarrow> [] | Some n \<Rightarrow> env_arg ''K6_TOTAL_REQUESTS'' (show_int n))
     @ (if ba_duration a \<noteq> [] then env_arg ''K6_DURATION'' (ba_duration a) else [])"

text \<open>\<open>_build_command\<close> as \<open>main\<close> calls it; \<open>base\<close> is the absolute root of the repository.\<close>

definition build_command :: "bool \<Rightarrow> path \<Rightarrow> bench_args \<Rightarrow> path \<Rightarrow> py_error + string list" where
  "build_command has_k6 base a output_path =
     (if has_k6 then
        Inr ([''k6'', ''run''] @ env_args a @ [''--summary-export'', path_text output_path, path_text (ba_script a)])
      else
        bind_err (relative_to output_path base) (\<lambda>rel.
          Inr ([''docker'', ''run'', ''--rm'', ''-i'', ''-v'', path_text base @ '':/workspace'', ''-w'', ''/workspace'',
                ''grafana/k6:latest'', ''run''] @ env_args a
            @ [''--summary-export'', ''/workspace/'' @ path_text rel, ''/workspace/'' @ path_text (ba_script a)])))"

definition show_opt :: "int option \<Rightarrow> string" where
  "show_opt x = (case x of None \<Rightarrow> ''None'' | Some n \<Rightarrow> show_int n)"

definition bench_name :: "bench_args \<Rightarrow> string" where
  "bench_name a =
     (if ba_name a \<noteq> [] then ba_name a
      else stem (last (ba_script a)) @ (case ba_total a of
          Some n \<Rightarrow> ''_'' @ show_int n @ ''req_'' @ show_opt (ba_vus a) @ ''vus''
        | None \<Rightarrow> ''_'' @ show_opt (ba_vus a) @ ''vus''))"

definition summary_path :: "bench_args \<Rightarrow> path" where
  "summary_path a = ba_dir a @ [bench_name a @ ''.json'']"

definition state_path :: "bench_args \<Rightarrow> path" where
  "state_path a = ba_dir a @ [bench_name a @ ''.state.json'']"

text \<open>The process: its exit status, the files and the tables after it.\<close>

type_synonym k6_process = "string list \<Rightarrow> json_files \<times> rdb \<Rightarrow> int \<times> json_files \<times> rdb"

definition bench_row :: "json pydict \<Rightarrow> json pydict \<Rightarrow> json pydict" where
  "bench_row row state = dict_set ''state_summary''
     (JStr (py_join '', '' (map (\<lambda>(k, v). k @ ''='' @ py_str v) state))) (dict_set ''state'' (JDict state) row)"

text \<open>\<open>main\<close>: the files it leaves, with the Markdown text when it is written.\<close>

definition run_benchmark ::
  "(string \<Rightarrow> int) \<Rightarrow> k6_process \<Rightarrow> bool \<Rightarrow> path \<Rightarrow> bench_args \<Rightarrow> json_files \<times> rdb
   \<Rightarrow> (py_error + string option) \<times> json_files \<times> rdb" where
  "run_benchmark float_int k6 has_k6 base a s =
     (case build_command has_k6 base a (summary_path a) of
        Inl err \<Rightarrow> (Inl err, s)
      | Inr command \<Rightarrow>
          (let (returncode, files, db) = k6 command s
           in if returncode \<noteq> 0 \<and> returncode \<noteq> 99 then (Inl (RuntimeError ''returned non-zero exit status''), files, db)
              else if files (summary_path a) = None
              then (Inl (RuntimeError ''k6 summary export was not created''), files, db)
              else
                (let state = load_state db (ba_space a) (ba_service a) (ba_method a) (ba_route a);
                     files = files(state_path a \<mapsto> JDict state)
                 in if ba_skip a then (Inr None, files, db)
                    else (bind_err (summarize_artifact float_int files (summary_path a)) (\<lambda>row.
                            Inr (Some (render_markdown [bench_row row state] @ nl))), files, db))))"

end
