(* ===== verification/Benchmark_Facts.thy ===== *)
theory Benchmark_Facts
  imports Benchmarks
begin

text \<open>
  The two ways to the benchmark document give the same text, and the container fallback of a run
  refuses every output directory that is not written as an absolute path below the repository.
\<close>

section \<open>Names and paths\<close>

lemma stem_json: "name \<noteq> [] \<Longrightarrow> stem (name @ ''.json'') = name"
  by (simp add: stem_def)

lemma bench_name_ne: "bench_name a \<noteq> []"
  by (auto simp: bench_name_def split: option.splits)

lemma state_sidecar: "\<exists>more. sidecar_paths (summary_path a) = state_path a # more"
  by (simp add: sidecar_paths_def summary_path_def state_path_def with_name_def stem_json bench_name_ne)

lemma paths_differ: "state_path a \<noteq> summary_path a"
  by (simp add: state_path_def summary_path_def)

section \<open>The state\<close>

lemma load_state_keys: "keys (load_state db ns svc m r) = take 7 ordered_keys"
  by (simp add: load_state_def benchmark_state_def no_state_def ordered_keys_def split: option.splits)

lemma summary_of_state:
  assumes "keys d = take 7 ordered_keys"
  shows "state_summary d = py_join '', '' (map (\<lambda>(k, v). k @ ''='' @ py_str v) d)"
proof -
  have "length d = 7" using arg_cong [OF assms, of length] by (simp add: ordered_keys_def)
  then obtain v1 v2 v3 v4 v5 v6 v7 where d: "d = zip (take 7 ordered_keys) [v1, v2, v3, v4, v5, v6, v7]"
  proof -
    have "d = zip (map fst d) (map snd d)" by (simp add: zip_map_fst_snd)
    moreover obtain v1 v2 v3 v4 v5 v6 v7 where "map snd d = [v1, v2, v3, v4, v5, v6, v7]"
      using \<open>length d = 7\<close> by (auto simp: length_Suc_conv numeral_eq_Suc)
    ultimately show thesis using assms that by metis
  qed
  show ?thesis unfolding d by (simp add: state_summary_def ordered_keys_def state_part_def)
qed

lemma bench_row_same:
  assumes "map_of row ''state'' = Some (JDict d)" "map_of row ''state_summary'' = Some (JStr (state_summary d))"
    and "keys d = take 7 ordered_keys"
  shows "bench_row row d = row"
  unfolding bench_row_def summary_of_state [OF assms(3), symmetric]
  by (simp add: update_triv assms(1,2))

section \<open>The two documents\<close>

text \<open>
  A run that writes its document writes what summarizing its artifact afterwards gives: the state
  comes back from the sidecar file, and its line is the same. The summary must not hold a state of
  its own; the k6 summaries do not.
\<close>

theorem benchmark_documents_agree:
  assumes run: "run_benchmark float_int k6 has_k6 base a s = (Inr (Some document), files, db)"
    and own: "\<forall>d. files (summary_path a) = Some d \<longrightarrow> \<not> is_dict (jget_or d ''state'' JNull)"
  shows "render_docs float_int files [] [summary_path a] = Inr document
    \<and> files (state_path a) = Some (JDict (load_state db (ba_space a) (ba_service a) (ba_method a) (ba_route a)))"
proof -
  let ?state = "load_state db (ba_space a) (ba_service a) (ba_method a) (ba_route a)"
  let ?go = "\<lambda>files. bind_err (summarize_artifact float_int files (summary_path a)) (\<lambda>row.
      Inr (Some (render_markdown [bench_row row ?state] @ nl)))"
  obtain command where cmd: "build_command has_k6 base a (summary_path a) = Inr command"
    using run unfolding run_benchmark_def by (cases "build_command has_k6 base a (summary_path a)") simp_all
  obtain rc files0 db0 where k6: "k6 command s = (rc, files0, db0)" by (metis surj_pair)
  have fs: "files = files0(state_path a \<mapsto> JDict ?state)" and doc: "?go files = Inr (Some document)"
    using run unfolding run_benchmark_def cmd sum.case k6 prod.case Let_def
    by (auto simp only: prod.inject sum.inject sum.distinct option.distinct split: if_splits)
  have st: "files (state_path a) = Some (JDict ?state)" by (simp add: fs)
  then have side: "load_sidecar files (summary_path a) = JDict ?state"
    using state_sidecar [of a] by (auto simp: load_sidecar_def)
  from doc obtain row where row: "summarize_artifact float_int files (summary_path a) = Inr row"
    and d: "document = render_markdown [bench_row row ?state] @ nl" by (auto simp: bind_err_eq_Inr)
  from row own have "\<exists>name metrics. row = summary_row float_int name metrics (JDict ?state)"
    by (auto simp: summarize_artifact_def side Let_def split: option.splits if_splits)
  then have "map_of row ''state'' = Some (JDict ?state)" "map_of row ''state_summary'' = Some (JStr (state_summary ?state))"
    by (auto simp: summary_row_def Let_def dict_or_empty_def)
  then have "bench_row row ?state = row" by (rule bench_row_same) (rule load_state_keys)
  then have "render_docs float_int files [] [summary_path a] = Inr document"
    by (simp add: render_docs_def summarize_main_def row d titled_def)
  with st show ?thesis by blast
qed

definition demo_k6 :: k6_process where
  "demo_k6 command = (\<lambda>(files, db). (0, files(summary_path default_args \<mapsto>
     JDict [(''metrics'', JDict [(''http_reqs'', JDict [(''count'', JInt 10000)])])]), db))"

lemma run_benchmark_returns:
  assumes "build_command has_k6 base a (summary_path a) = Inr command" "k6 command s = (0, files, db)"
    and "files (summary_path a) = Some (JDict d)" "\<not> ba_skip a"
  shows "\<exists>document files'. run_benchmark float_int k6 has_k6 base a s = (Inr (Some document), files', db)
    \<and> files' (summary_path a) = Some (JDict d)"
  using assms paths_differ [of a] by (simp add: run_benchmark_def summarize_artifact_def Let_def)

lemma benchmark_documents_agree_witness:
  "\<exists>document files db. run_benchmark (\<lambda>t. 0) demo_k6 True [''/'', ''repo''] default_args (Map.empty, empty_rdb 0)
      = (Inr (Some document), files, db)
    \<and> render_docs (\<lambda>t. 0) files [] [summary_path default_args] = Inr document"
proof -
  let ?d = "[(''metrics'', JDict [(''http_reqs'', JDict [(''count'', JInt 10000)])])]"
  obtain command where cmd: "build_command True [''/'', ''repo''] default_args (summary_path default_args) = Inr command"
    by (simp add: build_command_def)
  have k6: "demo_k6 command (Map.empty, empty_rdb 0) = (0, [summary_path default_args \<mapsto> JDict ?d], empty_rdb 0)"
    by (simp add: demo_k6_def)
  have export: "[summary_path default_args \<mapsto> JDict ?d] (summary_path default_args) = Some (JDict ?d)" and skip: "\<not> ba_skip default_args"
    by (simp_all add: default_args_def)
  obtain document files where run:
    "run_benchmark (\<lambda>t. 0) demo_k6 True [''/'', ''repo''] default_args (Map.empty, empty_rdb 0) = (Inr (Some document), files, empty_rdb 0)"
    and same: "files (summary_path default_args) = Some (JDict ?d)"
    using run_benchmark_returns [of _ _ _ _ demo_k6 _ _ _ _ "\<lambda>t. 0", OF cmd k6 export skip] by blast
  have "\<forall>d. files (summary_path default_args) = Some d \<longrightarrow> \<not> is_dict (jget_or d ''state'' JNull)"
    unfolding same by (simp add: jget_or_def)
  from benchmark_documents_agree [OF run this] run show ?thesis by blast
qed

section \<open>The container fallback\<close>

text \<open>
  Without a k6 program the run fails before it starts whenever the output directory is not below
  the absolute root of the repository as it is written; the default directory is a relative path,
  so a run with the default arguments always fails.
\<close>

theorem container_run_needs_absolute_path:
  assumes "\<not> prefix base (summary_path a)"
  shows "run_benchmark float_int k6 False base a s = (Inl (ValueError ''is not in the subpath of''), s)"
  using assms by (simp add: run_benchmark_def build_command_def relative_to_def)

lemma container_run_needs_absolute_path_witness:
  "run_benchmark (\<lambda>t. 0) demo_k6 False [''/'', ''repo''] default_args (Map.empty, empty_rdb 0)
     = (Inl (ValueError ''is not in the subpath of''), Map.empty, empty_rdb 0)"
  by (rule container_run_needs_absolute_path) (simp add: summary_path_def default_args_def)

end
