(* ===== verification/Schema_Changes.thy ===== *)
theory Schema_Changes
  imports Schema_Infer
begin

text \<open>
  \<^verbatim>\<open>backend/app/core/schema_diff.py\<close>, \<^verbatim>\<open>severity.py\<close>, \<^verbatim>\<open>canonical.py\<close> and \<^verbatim>\<open>normalizer.py\<close>: the hash of a
  schema, the changes between two schemas with the severity of each, and the stored form of a body.
  The digest is a parameter. \<open>model_dump\<close> of a node and \<open>SchemaNode(..)\<close> of what was stored are here too.
\<close>

section \<open>Severity table\<close>

definition severity_table :: "string pydict" where
  "severity_table =
     [(''removed_field'', ''breaking''), (''added_field'', ''safe''), (''type_changed'', ''breaking''),
      (''int_to_number'', ''risky''), (''number_to_int'', ''breaking''), (''nullable_added'', ''risky''),
      (''nullable_removed'', ''safe''), (''enum_expanded'', ''risky''), (''enum_narrowed'', ''safe''),
      (''enum_changed'', ''risky''), (''nested_object_removed'', ''breaking''),
      (''array_item_type_changed'', ''breaking'')]"

definition classify_change :: "string \<Rightarrow> py_error + string" where
  "classify_change change_type =
     (case map_of severity_table change_type of
        None \<Rightarrow> Inl (ValueError (''unknown change_type: '' @ change_type))
      | Some s \<Rightarrow> Inr s)"

section \<open>Changes\<close>

record change =
  ch_severity :: string
  ch_type :: string
  ch_path :: string
  ch_old_type :: "string option"
  ch_new_type :: "string option"
  ch_old_value :: "json option"
  ch_new_value :: "json option"
  ch_message :: string

text \<open>The keyword arguments of \<open>_msg\<close>.\<close>

record msg_args =
  ma_old_type :: "string option"
  ma_new_type :: "string option"
  ma_added :: "string list"
  ma_removed :: "string list"

definition no_args :: msg_args where
  "no_args = \<lparr>ma_old_type = None, ma_new_type = None, ma_added = [], ma_removed = []\<rparr>"

definition opt_text :: "string option \<Rightarrow> string" where
  "opt_text t = (case t of None \<Rightarrow> ''None'' | Some s \<Rightarrow> s)"

definition sorted_text :: "string list \<Rightarrow> string" where
  "sorted_text xs = py_repr (JList (map JStr (sort xs)))"

definition templates :: "string \<Rightarrow> msg_args \<Rightarrow> string pydict" where
  "templates path a =
     [(''removed_field'', ''Field '' @ path @ '' was removed from the response schema.''),
      (''added_field'', ''Field '' @ path @ '' was added to the response schema.''),
      (''type_changed'', ''Field '' @ path @ '' type changed from '' @ opt_text (ma_old_type a) @ '' to ''
         @ opt_text (ma_new_type a) @ ''.''),
      (''int_to_number'', ''Field '' @ path @ '' type widened from integer to number ''
         @ ''(consumers may receive floating-point values).''),
      (''number_to_int'', ''Field '' @ path @ '' type narrowed from number to integer ''
         @ ''(decimal values no longer returned).''),
      (''nullable_added'', ''Field '' @ path @ '' is now nullable (consumers may receive null).''),
      (''nullable_removed'', ''Field '' @ path @ '' is no longer nullable (null values no longer returned).''),
      (''enum_expanded'', ''Field '' @ path @ '' enum expanded; new values: '' @ sorted_text (ma_added a) @ ''.''),
      (''enum_narrowed'', ''Field '' @ path @ '' enum narrowed; removed values: '' @ sorted_text (ma_removed a) @ ''.''),
      (''enum_changed'', ''Field '' @ path @ '' enum values changed; added: '' @ sorted_text (ma_added a)
         @ '', removed: '' @ sorted_text (ma_removed a) @ ''.''),
      (''nested_object_removed'', ''Nested object '' @ path @ '' was removed.''),
      (''array_item_type_changed'', ''Array '' @ path @ '' item type changed from '' @ opt_text (ma_old_type a)
         @ '' to '' @ opt_text (ma_new_type a) @ ''.'')]"

definition msg :: "string \<Rightarrow> string \<Rightarrow> msg_args \<Rightarrow> py_error + string" where
  "msg change_type path a =
     (case map_of (templates path a) change_type of
        None \<Rightarrow> Inl (KeyError change_type) | Some text \<Rightarrow> Inr text)"

definition pick_change_type :: "schema_node \<Rightarrow> schema_node \<Rightarrow> string option" where
  "pick_change_type old new =
     (if sn_type old \<noteq> sn_type new then
        (if sn_type old = TInteger \<and> sn_type new = TNumber then Some ''int_to_number''
         else if sn_type old = TNumber \<and> sn_type new = TInteger then Some ''number_to_int''
         else Some ''type_changed'')
      else if sn_nullable old \<noteq> sn_nullable new then
        Some (if sn_nullable new then ''nullable_added'' else ''nullable_removed'')
      else
        (let enums = (case (sn_enum old, sn_enum new) of (Some a, Some b) \<Rightarrow> Some (set a, set b) | _ \<Rightarrow> None);
             items = (if sn_type old = TArray \<and> sn_type new = TArray \<and> sn_item old \<noteq> sn_item new
                      then Some ''array_item_type_changed'' else None)
         in case enums of
              None \<Rightarrow> items
            | Some (a, b) \<Rightarrow>
                if a \<noteq> b then
                  Some (if a \<subset> b then ''enum_expanded'' else if b \<subset> a then ''enum_narrowed'' else ''enum_changed'')
                else items))"

definition nodes_by_path :: "schema_node list \<Rightarrow> schema_node pydict" where
  "nodes_by_path nodes = foldl (\<lambda>d n. dict_set (sn_path n) n d) [] nodes"

text \<open>\<open>classify\<close> and \<open>_msg\<close> are called to build the record of every change.\<close>

definition make_change ::
  "string \<Rightarrow> string \<Rightarrow> string option \<Rightarrow> string option \<Rightarrow> json option \<Rightarrow> json option \<Rightarrow> msg_args \<Rightarrow> py_error + change" where
  "make_change change_type path old_type new_type old_value new_value a =
     bind_err (classify_change change_type) (\<lambda>severity.
     bind_err (msg change_type path a) (\<lambda>message.
       Inr \<lparr>ch_severity = severity, ch_type = change_type, ch_path = path, ch_old_type = old_type,
            ch_new_type = new_type, ch_old_value = old_value, ch_new_value = new_value, ch_message = message\<rparr>))"

definition node_type :: "schema_node \<Rightarrow> string" where
  "node_type n = type_name (sn_type n)"

definition removed_change :: "schema_node \<Rightarrow> py_error + change" where
  "removed_change n =
     make_change (if sn_type n = TObject then ''nested_object_removed'' else ''removed_field'')
       (sn_path n) (Some (node_type n)) None None None no_args"

definition added_change :: "schema_node \<Rightarrow> py_error + change" where
  "added_change n = make_change ''added_field'' (sn_path n) None (Some (node_type n)) None None no_args"

definition enum_or_empty :: "schema_node \<Rightarrow> string list" where
  "enum_or_empty n = (case sn_enum n of None \<Rightarrow> [] | Some vs \<Rightarrow> vs)"

definition changed_args :: "string \<Rightarrow> schema_node \<Rightarrow> schema_node \<Rightarrow> msg_args" where
  "changed_args change_type old new =
     (let added = filter (\<lambda>v. v \<notin> set (enum_or_empty old)) (remdups (enum_or_empty new));
          removed = filter (\<lambda>v. v \<notin> set (enum_or_empty new)) (remdups (enum_or_empty old));
          item = (change_type = ''array_item_type_changed'')
      in \<lparr>ma_old_type = (if item then map_option type_name (sn_item old) else Some (node_type old)),
          ma_new_type = (if item then map_option type_name (sn_item new) else Some (node_type new)),
          ma_added = (if change_type = ''enum_expanded'' \<or> change_type = ''enum_changed'' then added else []),
          ma_removed = (if change_type = ''enum_narrowed'' \<or> change_type = ''enum_changed'' then removed else [])\<rparr>)"

text \<open>The third loop skips a path whose nodes do not differ.\<close>

definition node_change :: "schema_node \<Rightarrow> schema_node \<Rightarrow> py_error + change option" where
  "node_change old new =
     (case pick_change_type old new of
        None \<Rightarrow> Inr None
      | Some change_type \<Rightarrow>
          bind_err (make_change change_type (sn_path old) (Some (node_type old)) (Some (node_type new))
              (sn_example old) (sn_example new) (changed_args change_type old new))
            (\<lambda>d. Inr (Some d)))"

definition node_of :: "schema_node pydict \<Rightarrow> string \<Rightarrow> py_error + schema_node" where
  "node_of d path = (case map_of d path of None \<Rightarrow> Inl (KeyError path) | Some n \<Rightarrow> Inr n)"

definition diff_schemas :: "schema_node list \<Rightarrow> schema_node list \<Rightarrow> py_error + change list" where
  "diff_schemas old new =
     (let old_by_path = nodes_by_path old; new_by_path = nodes_by_path new;
          gone = sorted_set (filter (\<lambda>p. p \<notin> set (keys new_by_path)) (keys old_by_path));
          come = sorted_set (filter (\<lambda>p. p \<notin> set (keys old_by_path)) (keys new_by_path));
          both = sorted_set (filter (\<lambda>p. p \<in> set (keys new_by_path)) (keys old_by_path))
      in bind_err (map_err (\<lambda>p. bind_err (node_of old_by_path p) removed_change) gone) (\<lambda>ds1.
         bind_err (map_err (\<lambda>p. bind_err (node_of new_by_path p) added_change) come) (\<lambda>ds2.
         bind_err (map_err (\<lambda>p. bind_err (node_of old_by_path p) (\<lambda>n. bind_err (node_of new_by_path p) (node_change n))) both) (\<lambda>ds3.
           Inr (ds1 @ ds2 @ concat (map (\<lambda>d. case d of None \<Rightarrow> [] | Some d \<Rightarrow> [d]) ds3))))))"

section \<open>The hash of a schema\<close>

definition opt_value :: "('a \<Rightarrow> json) \<Rightarrow> 'a option \<Rightarrow> json" where
  "opt_value f v = (case v of None \<Rightarrow> JNull | Some x \<Rightarrow> f x)"

definition structural_projection :: "schema_node \<Rightarrow> json pydict" where
  "structural_projection n =
     [(''path'', JStr (sn_path n)), (''type'', JStr (node_type n)), (''required'', JBool (sn_required n)),
      (''nullable'', JBool (sn_nullable n)), (''array_item_type'', opt_value (JStr \<circ> type_name) (sn_item n)),
      (''enum_values'', opt_value (\<lambda>vs. JList (map JStr vs)) (sn_enum n))]"

definition schema_text :: "schema_node list \<Rightarrow> string" where
  "schema_text nodes = json_dumps True '','' '':'' (JList (map (JDict \<circ> structural_projection) (sort_key sn_path nodes)))"

definition stable_schema_hash :: "(string \<Rightarrow> string) \<Rightarrow> schema_node list \<Rightarrow> string" where
  "stable_schema_hash sha256 nodes = sha256 (schema_text nodes)"

section \<open>The stored schema\<close>

definition node_json :: "schema_node \<Rightarrow> json" where
  "node_json n = JDict (structural_projection n @ [(''example_value'', opt_value id (sn_example n))])"

definition json_types :: "json_type list" where
  "json_types = [TObject, TArray, TString, TInteger, TNumber, TBoolean, TNull, TMixed, TUnknown]"

definition read_type :: "string \<Rightarrow> json_type option" where
  "read_type s = first_row (filter (\<lambda>t. type_name t = s) json_types)"

fun read_strings :: "json list \<Rightarrow> string list option" where
  "read_strings [] = Some []"
| "read_strings (JStr s # xs) = map_option (\<lambda>ss. s # ss) (read_strings xs)"
| "read_strings _ = None"

definition validation_error :: py_error where
  "validation_error = ValueError ''validation error for SchemaNode''"

text \<open>\<open>SchemaNode(..)\<close> of a stored dict: the fields without a default must be there, the others are checked.
  An array item type or an enum that no stored schema has is refused.\<close>

definition node_of_json :: "json \<Rightarrow> py_error + schema_node" where
  "node_of_json j =
     (case (jget j ''path'', jget_or j ''type'' JNull, jget_or j ''required'' (JBool True),
            jget_or j ''nullable'' (JBool False), jget_or j ''array_item_type'' JNull, jget_or j ''enum_values'' JNull) of
        (Some (JStr p), JStr t, JBool r, JBool n, item, enum) \<Rightarrow>
          (let i = (case item of JNull \<Rightarrow> Some None | JStr s \<Rightarrow> map_option Some (read_type s) | _ \<Rightarrow> None);
               e = (case enum of JNull \<Rightarrow> Some None | JList vs \<Rightarrow> map_option Some (read_strings vs) | _ \<Rightarrow> None);
               x = jget_or j ''example_value'' JNull
           in case (read_type t, i, e) of
                (Some ty, Some it, Some en) \<Rightarrow>
                  Inr \<lparr>sn_path = p, sn_type = ty, sn_required = r, sn_nullable = n, sn_item = it, sn_enum = en,
                       sn_example = (if x = JNull then None else Some x)\<rparr>
              | _ \<Rightarrow> Inl validation_error)
      | _ \<Rightarrow> Inl validation_error)"

section \<open>Normalisation of a body\<close>

text \<open>
  A text that is cut parses again only if it is a number: an object, an array or a string lacks
  its closing mark and a literal is cut short. \<open>float_text\<close> is \<open>repr(float(..))\<close> of a numeral.
\<close>

fun digits_end :: "string \<Rightarrow> string" where
  "digits_end [] = []"
| "digits_end (c # cs) = (if CHR ''0'' \<le> c \<and> c \<le> CHR ''9'' then digits_end cs else c # cs)"

definition some_digits :: "string \<Rightarrow> string option" where
  "some_digits s = (if digits_end s = s then None else Some (digits_end s))"

definition int_part :: "string \<Rightarrow> string option" where
  "int_part s =
     (let s = (case s of c # cs \<Rightarrow> if c = CHR ''-'' then cs else s | [] \<Rightarrow> s)
      in case s of c # cs \<Rightarrow> if c = CHR ''0'' then Some cs else some_digits s | [] \<Rightarrow> None)"

definition frac_part :: "string \<Rightarrow> string" where
  "frac_part s =
     (case s of c # cs \<Rightarrow> if c = CHR ''.'' then (case some_digits cs of Some r \<Rightarrow> r | None \<Rightarrow> s) else s | [] \<Rightarrow> s)"

definition exp_part :: "string \<Rightarrow> string" where
  "exp_part s =
     (case s of
        c # cs \<Rightarrow>
          if c = CHR ''e'' \<or> c = CHR ''E''
          then (case some_digits (case cs of d # ds \<Rightarrow> if d = CHR ''-'' \<or> d = CHR ''+'' then ds else cs | [] \<Rightarrow> cs) of
                  Some r \<Rightarrow> r | None \<Rightarrow> s)
          else s
      | [] \<Rightarrow> s)"

definition read_int :: "string \<Rightarrow> int" where
  "read_int s = (case s of c # cs \<Rightarrow> if c = CHR ''-'' then - int (read_nat cs) else int (read_nat s) | [] \<Rightarrow> 0)"

definition loads_number :: "(string \<Rightarrow> string) \<Rightarrow> string \<Rightarrow> json option" where
  "loads_number float_text s =
     (case int_part s of
        None \<Rightarrow> None
      | Some r \<Rightarrow>
          if r = [] then Some (JInt (read_int s))
          else if exp_part (frac_part r) = [] then Some (JFloat (float_text s))
          else None)"

fun loads_cut :: "(string \<Rightarrow> string) \<Rightarrow> json \<Rightarrow> string \<Rightarrow> json option" where
  "loads_cut float_text (JInt i) s = loads_number float_text s"
| "loads_cut float_text (JFloat r) s = loads_number float_text s"
| "loads_cut float_text _ s = None"

text \<open>The dumped text is ASCII, so its bytes are its characters.\<close>

definition normalize :: "(string \<Rightarrow> string) \<Rightarrow> nat \<Rightarrow> nat option \<Rightarrow> json \<Rightarrow> json" where
  "normalize float_text raw_body_max_bytes max_bytes body =
     (let cap = (case max_bytes of Some n \<Rightarrow> if n \<noteq> 0 then n else raw_body_max_bytes | None \<Rightarrow> raw_body_max_bytes);
          sorted_body = sort_keys body;
          serialized = json_dumps False '','' '':'' sorted_body
      in if length serialized > cap
         then (case loads_cut float_text body (take cap serialized) of
                 Some v \<Rightarrow> v
               | None \<Rightarrow> JDict [(''_truncated'', JBool True), (''_size_bytes'', JInt (int (length serialized)))])
         else sorted_body)"

end
