(* ===== verification/Infer_Facts.thy ===== *)
theory Infer_Facts
  imports Schema_Infer
begin

text \<open>
  What an inferred schema says about the body. A reference definition lists the values of the body
  with the path the inference gives them; a node is then the result of observing the values at its
  path, one after the other. The array item type and the required flag are left out of that view.
\<close>

section \<open>The values of a body by path\<close>

function (sequential) visits :: "string \<Rightarrow> json \<Rightarrow> (string \<times> json) list" where
  "visits q (JDict d) = (q, JDict d) # concat (map (\<lambda>(k, w). visits (child_path q k) w) d)"
| "visits q (JList xs) = (if q \<noteq> [] then q else ''[*]'', JList xs) #
     (if list_all is_dict xs
      then concat (map (\<lambda>(k, w). visits (child_path (array_path q) k) w) (concat (map dict_items xs)))
      else concat (map (visits (array_path q)) xs))"
| "visits q v = [(q, v)]"
  by pat_completeness auto
termination
proof (relation "measure (\<lambda>(q, v). size v)", goal_cases)
  case 2
  then show ?case by (force dest: size_item simp del: json.size)
next
  case 3
  then show ?case by (force dest: size_element size_dict_items simp del: json.size)
next
  case 4
  then show ?case by (force dest: size_element simp del: json.size)
qed simp_all

fun body_visits :: "json \<Rightarrow> (string \<times> json) list" where
  "body_visits (JDict d) = concat (map (\<lambda>(k, w). visits (child_path [] k) w) d)"
| "body_visits (JList xs) = visits [] (JList xs)"
| "body_visits v = visits ''[root]'' v"

definition values_at :: "json \<Rightarrow> string \<Rightarrow> json list" where
  "values_at body p = map snd (filter (\<lambda>(q, v). q = p) (body_visits body))"

text \<open>One observation of a value.\<close>

definition ensured :: "string \<Rightarrow> json_type \<Rightarrow> node_state option \<Rightarrow> node_state" where
  "ensured p t s = (case s of None \<Rightarrow> new_state p t | Some s \<Rightarrow> s)"

fun see :: "string \<Rightarrow> json \<Rightarrow> node_state option \<Rightarrow> node_state" where
  "see p JNull s = ensured p TNull s\<lparr>ns_nullable := True\<rparr>"
| "see p (JDict d) s = ensured p TObject s"
| "see p (JList xs) s = ensured p TArray s"
| "see p v s = see_scalar v (ensured p (scalar_type v) s)"

definition see_all :: "string \<Rightarrow> (string \<times> json) list \<Rightarrow> node_state option \<Rightarrow> node_state option" where
  "see_all p vs s = fold (\<lambda>(q, v) s. if q = p then Some (see p v s) else s) vs s"

lemma see_all_simps [simp]:
  "see_all p [] s = s"
  "see_all p ((q, v) # vs) s = see_all p vs (if q = p then Some (see p v s) else s)"
  "see_all p (vs @ ws) s = see_all p ws (see_all p vs s)"
  by (simp_all add: see_all_def)

section \<open>The walk makes exactly these observations\<close>

definition core :: "node_state \<Rightarrow> node_state" where
  "core s = s\<lparr>ns_item := None, ns_required := True\<rparr>"

definition look :: "node_states \<Rightarrow> string \<Rightarrow> node_state option" where
  "look st p = map_option core (map_of st p)"

lemma core_fields [simp]:
  "ns_path (core s) = ns_path s" "ns_type (core s) = ns_type s" "ns_nullable (core s) = ns_nullable s"
  "ns_example (core s) = ns_example s" "ns_enum (core s) = ns_enum s"
  "ns_enum_disabled (core s) = ns_enum_disabled s" "ns_string_leaf (core s) = ns_string_leaf s"
  "core (new_state p t) = new_state p t" "core (s\<lparr>ns_nullable := b\<rparr>) = core s\<lparr>ns_nullable := b\<rparr>"
  "core (s\<lparr>ns_item := i\<rparr>) = core s" "core (s\<lparr>ns_required := r\<rparr>) = core s"
  by (simp_all add: core_def new_state_def)

lemma core_see_type: "core (see_type v s) = see_type v (core s)"
  by (simp add: see_type_def core_def Let_def)

lemma core_add_enum: "core (add_enum t s) = add_enum t (core s)"
  by (simp add: add_enum_def core_def Let_def)

lemma core_leaf: "core (s\<lparr>ns_string_leaf := b\<rparr>) = core s\<lparr>ns_string_leaf := b\<rparr>"
  by (simp add: core_def)

lemma core_see_scalar [simp]: "core (see_scalar v s) = see_scalar v (core s)"
  by (cases v) (simp_all add: see_scalar_def core_see_type core_add_enum core_leaf)

lemma look_ensure: "look (ensure q t st) p = (if q = p then Some (ensured p t (look st p)) else look st p)"
  by (auto simp: look_def ensure_def ensured_def update_conv' split: option.splits)

lemma look_on_state:
  assumes "\<And>s. core (f s) = g (core s)"
  shows "look (on_state q f st) p = (if q = p then map_option g (look st p) else look st p)"
  using assms by (auto simp: look_def on_state_def update_conv' split: option.splits)

lemma look_keeps [simp]:
  "look (on_state q (\<lambda>s. s\<lparr>ns_item := i\<rparr>) st) p = look st p"
  "look (on_state q (\<lambda>s. s\<lparr>ns_required := r\<rparr>) st) p = look st p"
  using look_on_state [of "\<lambda>s. s\<lparr>ns_item := i\<rparr>" id] look_on_state [of "\<lambda>s. s\<lparr>ns_required := r\<rparr>" id]
  by (simp_all add: option.map_id)

lemma look_mark [simp]: "look (mark_optional q n seen st) p = look st p"
  unfolding mark_optional_def by (induction seen arbitrary: st) auto

lemma look_update:
  assumes "\<And>s. core (f s) = g (core s)"
  shows "look (on_state q f (ensure q t st)) p = (if q = p then Some (g (ensured p t (look st p))) else look st p)"
  by (simp add: look_on_state [of f g, OF assms] look_ensure)

lemma look_scalar:
  "\<not> is_dict v \<Longrightarrow> (\<And>xs. v \<noteq> JList xs) \<Longrightarrow>
   look (emit_scalar q v st) p = (if q = p then Some (see p v (look st p)) else look st p)"
  by (cases v) (auto simp: emit_scalar_def look_update)

lemma ensured_twice [simp]: "ensured p t (Some (ensured p t' s)) = ensured p t' s"
  by (simp add: ensured_def)

fun walk_visits :: "string \<Rightarrow> json \<Rightarrow> (string \<times> json) list" where
  "walk_visits q (JDict d) = (if q \<noteq> [] then [(q, JDict d)] else []) @ concat (map (\<lambda>(k, w). visits (child_path q k) w) d)"
| "walk_visits q (JList xs) = visits q (JList xs)"
| "walk_visits q v = [(if q \<noteq> [] then q else ''[root]'', v)]"

lemma look_fold:
  assumes "\<And>x st. x \<in> set xs \<Longrightarrow> look (f x st) p = see_all p (g x) (look st p)"
  shows "look (fold f xs st) p = see_all p (concat (map g xs)) (look st p)"
  using assms by (induction xs arbitrary: st) simp_all

lemma look_walk:
  "look (walk v q st) p = see_all p (walk_visits q v) (look st p)"
  "look (emit_value q v st) p = see_all p (visits q v) (look st p)"
proof (induction v q st and q v st rule: walk_emit_value.induct)
  case (1 d parent states)
  have "look (fold (\<lambda>(k, v) st. emit_value (child_path parent k) v st) d st) p
      = see_all p (concat (map (\<lambda>(k, w). visits (child_path parent k) w) d)) (look st p)" for st
    using 1 by (intro look_fold) auto
  then show ?case by (simp add: look_ensure)
next
  case (2 xs parent states)
  let ?path = "if parent \<noteq> [] then parent else ''[*]''"
  let ?item = "array_path parent"
  have dicts: "look (fold (\<lambda>(k, v) st. emit_value (child_path ?item k) v st) (concat (map dict_items xs)) st) p
      = see_all p (concat (map (\<lambda>(k, w). visits (child_path ?item k) w) (concat (map dict_items xs)))) (look st p)"
    if "list_all is_dict xs" for st
    using 2(1) [OF refl refl _ refl that] that by (intro look_fold) force
  have others: "look (fold (emit_value ?item) xs st) p = see_all p (concat (map (visits ?item) xs)) (look st p)"
    if "\<not> list_all is_dict xs" for st
    using 2(2) [OF refl refl _ refl that] that by (intro look_fold) force
  show ?case
    by (cases "xs = []"; cases "list_all is_dict xs")
      (simp_all add: Let_def look_ensure dicts others cong: if_cong split del: if_split)
qed (simp_all add: look_scalar look_ensure)

lemma look_body: "look (walk body [] []) p = see_all p (body_visits body) None"
proof -
  have "walk_visits [] body = body_visits body" by (cases body) simp_all
  then show ?thesis using look_walk(1) [of body "[]" "[]" p] by (simp add: look_def)
qed

section \<open>What is observed at one path\<close>

definition sees :: "string \<Rightarrow> json list \<Rightarrow> node_state option \<Rightarrow> node_state option" where
  "sees p vs s = fold (\<lambda>v s. Some (see p v s)) vs s"

lemma see_all_at: "see_all p ws s = sees p (map snd (filter (\<lambda>(q, v). q = p) ws)) s"
  by (induction ws arbitrary: s) (auto simp: sees_def)

lemma sees_simps [simp]: "sees p [] s = s" "sees p (vs @ [v]) s = Some (see p v (sees p vs s))"
  by (simp_all add: sees_def)

fun is_scalar :: "json \<Rightarrow> bool" where
  "is_scalar JNull = False"
| "is_scalar (JDict d) = False"
| "is_scalar (JList xs) = False"
| "is_scalar v = True"

definition strings_of :: "json list \<Rightarrow> string set" where
  "strings_of vs = {t. JStr t \<in> set vs}"

text \<open>The invariant of the accumulator of one path after the values \<open>vs\<close>.\<close>

definition observed :: "string \<Rightarrow> json list \<Rightarrow> node_state \<Rightarrow> bool" where
  "observed p vs s \<longleftrightarrow>
     ns_path s = p \<and> (\<forall>x. ns_example s = Some x \<longrightarrow> is_scalar x) \<and> (ns_nullable s \<longleftrightarrow> JNull \<in> set vs) \<and>
     (ns_type s = TNull \<longrightarrow> JNull \<in> set vs \<and> (\<forall>v \<in> set vs. \<not> is_scalar v)) \<and>
     (\<forall>v \<in> set vs. is_scalar v \<longrightarrow> ns_type s = scalar_type v \<or> ns_type s = TMixed) \<and>
     (ns_string_leaf s \<longleftrightarrow> strings_of vs \<noteq> {}) \<and>
     (if ns_enum_disabled s then enum_threshold < card (strings_of vs) \<and> ns_enum s = []
      else set (ns_enum s) = strings_of vs \<and> distinct (ns_enum s) \<and> length (ns_enum s) \<le> enum_threshold)"

lemma strings_of_simps [simp]:
  "strings_of [] = {}" "strings_of (vs @ [JStr t]) = insert t (strings_of vs)"
  "(\<And>t. v \<noteq> JStr t) \<Longrightarrow> strings_of (vs @ [v]) = strings_of vs"
  by (auto simp: strings_of_def)

lemma finite_strings_of [simp]: "finite (strings_of vs)"
proof -
  have "strings_of vs \<subseteq> (\<lambda>v. case v of JStr t \<Rightarrow> t | _ \<Rightarrow> []) ` set vs"
    by (force simp: strings_of_def)
  then show ?thesis by (rule finite_subset) simp
qed

lemma observed_core [simp]: "observed p vs (core s) = observed p vs s"
  by (simp add: observed_def cong: if_cong)

lemma card_insert_list:
  assumes "set es = S" and "distinct es"
  shows "card (insert t S) = length (if t \<in> set es then es else es @ [t])"
  using assms distinct_card [of es] distinct_card [of "es @ [t]"] by (auto simp: insert_absorb)

lemma observed_add_enum:
  assumes "if ns_enum_disabled s then enum_threshold < card S \<and> ns_enum s = []
      else set (ns_enum s) = S \<and> distinct (ns_enum s) \<and> length (ns_enum s) \<le> enum_threshold"
    and "finite S"
  shows "let s' = add_enum t s in if ns_enum_disabled s' then enum_threshold < card (insert t S) \<and> ns_enum s' = []
      else set (ns_enum s') = insert t S \<and> distinct (ns_enum s') \<and> length (ns_enum s') \<le> enum_threshold"
proof (cases "ns_enum_disabled s")
  case True
  then have "enum_threshold < card (insert t S)" using assms card_insert_le [of S t] by simp
  with True assms show ?thesis by (simp add: add_enum_def)
next
  case False
  then show ?thesis using assms card_insert_list [of "ns_enum s" S t]
    by (auto simp: add_enum_def Let_def insert_absorb)
qed

lemma add_enum_fields [simp]:
  "ns_path (add_enum t s) = ns_path s" "ns_type (add_enum t s) = ns_type s"
  "ns_nullable (add_enum t s) = ns_nullable s" "ns_example (add_enum t s) = ns_example s" "ns_string_leaf (add_enum t s) = ns_string_leaf s"
  by (simp_all add: add_enum_def Let_def)

lemma see_type_fields [simp]:
  "ns_path (see_type v s) = ns_path s" "ns_enum (see_type v s) = ns_enum s"
  "ns_enum_disabled (see_type v s) = ns_enum_disabled s" "ns_string_leaf (see_type v s) = ns_string_leaf s"
  "ns_nullable (see_type v s) \<longleftrightarrow> ns_nullable s \<or> ns_type s = TNull"
  "ns_example (see_type v s) = (if ns_example s = None then Some (truncate_example v) else ns_example s)"
  "ns_type (see_type v s) =
     (if ns_type s = TNull \<or> ns_type s = scalar_type v then scalar_type v else TMixed)"
  by (auto simp: see_type_def Let_def)

lemma observed_see:
  assumes "case s of None \<Rightarrow> vs = [] | Some s \<Rightarrow> observed p vs s"
  shows "observed p (vs @ [v]) (see p v s)"
proof (cases s)
  case None
  then show ?thesis using assms
    by (cases v) (simp_all add: observed_def ensured_def new_state_def see_scalar_def add_enum_def
      enum_threshold_def strings_of_def)
next
  case (Some a)
  with assms have a: "observed p vs a" by simp
  show ?thesis
  proof (cases "\<exists>t. v = JStr t")
    case True
    then obtain t where v: "v = JStr t" by blast
    let ?b = "see_type (JStr t) a\<lparr>ns_string_leaf := True\<rparr>"
    have "let s' = add_enum t ?b
      in if ns_enum_disabled s' then enum_threshold < card (insert t (strings_of vs)) \<and> ns_enum s' = []
         else set (ns_enum s') = insert t (strings_of vs) \<and> distinct (ns_enum s') \<and> length (ns_enum s') \<le> enum_threshold"
      using a by (intro observed_add_enum) (simp_all add: observed_def cong: if_cong)
    moreover have "see p v s = add_enum t ?b" by (simp add: Some v ensured_def see_scalar_def)
    ultimately show ?thesis
      using a by (auto simp: observed_def v Let_def)
  next
    case False
    then show ?thesis using a
      by (cases v) (auto simp: Some observed_def ensured_def see_scalar_def)
  qed
qed

lemma sees_None: "sees p vs None = None \<longleftrightarrow> vs = []"
proof (induction vs rule: rev_induct)
  case (snoc v vs)
  show ?case by (simp only: sees_simps) simp
qed simp

lemma sees_observed: "sees p vs None = Some s \<Longrightarrow> observed p vs s"
proof (induction vs arbitrary: s rule: rev_induct)
  case (snoc v vs)
  have "case sees p vs None of None \<Rightarrow> vs = [] | Some a \<Rightarrow> observed p vs a"
  proof (cases "sees p vs None")
    case None
    then show ?thesis by (simp add: sees_None)
  next
    case (Some a)
    with snoc.IH show ?thesis by simp
  qed
  then have "observed p (vs @ [v]) (see p v (sees p vs None))" by (rule observed_see)
  with snoc.prems show ?case by simp
qed simp

section \<open>The dict of node states\<close>

lemma keys_ensure: "distinct (keys st) \<Longrightarrow> distinct (keys (ensure q t st))"
  by (simp add: ensure_def distinct_update)

lemma keys_on_state: "distinct (keys st) \<Longrightarrow> distinct (keys (on_state q f st))"
  by (simp add: on_state_def distinct_update split: option.splits)

lemma distinct_fold:
  assumes "\<And>x st. x \<in> set xs \<Longrightarrow> distinct (keys st) \<Longrightarrow> distinct (keys (f x st))" and "distinct (keys st)"
  shows "distinct (keys (fold f xs st))"
  using assms by (induction xs arbitrary: st) simp_all

lemma distinct_mark: "distinct (keys st) \<Longrightarrow> distinct (keys (mark_optional q n seen st))"
  unfolding mark_optional_def by (rule distinct_fold) (auto simp: keys_on_state)

lemma distinct_emit_scalar: "distinct (keys st) \<Longrightarrow> distinct (keys (emit_scalar q v st))"
  by (simp add: emit_scalar_def keys_ensure keys_on_state)

lemma distinct_walk:
  "distinct (keys st) \<Longrightarrow> distinct (keys (walk v q st))"
  "distinct (keys st) \<Longrightarrow> distinct (keys (emit_value q v st))"
proof (induction v q st and q v st rule: walk_emit_value.induct)
  case (1 d parent states)
  show ?case unfolding walk.simps
    by (rule distinct_fold) (use 1 in \<open>auto simp: keys_ensure\<close>)
next
  case (2 xs parent states)
  have "distinct (keys (fold (\<lambda>(k, v) st. emit_value (child_path (array_path parent) k) v st) (concat (map dict_items xs)) st))"
    if "list_all is_dict xs" "xs \<noteq> []" "distinct (keys st)" for st
    using 2(1) [OF refl refl that(2) refl that(1)] that(3) by (intro distinct_fold) force+
  moreover have "distinct (keys (fold (emit_value (array_path parent)) xs st))"
    if "\<not> list_all is_dict xs" "xs \<noteq> []" "distinct (keys st)" for st
    using 2(2) [OF refl refl that(2) refl that(1)] that(3) by (intro distinct_fold) force+
  ultimately show ?case using 2(3) by (auto simp: Let_def keys_ensure keys_on_state distinct_mark)
qed (simp_all add: distinct_emit_scalar keys_ensure)

section \<open>The inferred nodes\<close>

lemma infer_node:
  "n \<in> set (infer_schema body) \<longleftrightarrow> (\<exists>p a. map_of (walk body [] []) p = Some a \<and> n = finalize a)"
proof -
  have "distinct (keys (walk body [] []))" by (rule distinct_walk) simp
  then have "(p, a) \<in> set (walk body [] []) \<longleftrightarrow> map_of (walk body [] []) p = Some a" for p a
    by (metis Some_eq_map_of_iff)
  then show ?thesis by (force simp: infer_schema_def)
qed

lemma walked_observed:
  assumes "map_of (walk body [] []) p = Some a"
  shows "observed p (values_at body p) a" "values_at body p \<noteq> []"
proof -
  have c: "sees p (values_at body p) None = Some (core a)"
    using look_body [of body p] assms unfolding see_all_at values_at_def look_def by simp
  from sees_observed [OF this] show "observed p (values_at body p) a" by simp
  show "values_at body p \<noteq> []" using c by (metis option.distinct(1) sees_None)
qed

lemma in_values_at: "v \<in> set (values_at body p) \<longleftrightarrow> (p, v) \<in> set (body_visits body)"
  by (force simp: values_at_def)

lemma infer_paths: "sn_path ` set (infer_schema body) = fst ` set (body_visits body)"
proof -
  have path: "ns_path a = p" if "map_of (walk body [] []) p = Some a" for p a
    using walked_observed(1) [OF that] by (simp add: observed_def)
  have ex: "(\<exists>a. map_of (walk body [] []) p = Some a) \<longleftrightarrow> values_at body p \<noteq> []" for p
    using look_body [of body p] unfolding see_all_at values_at_def [symmetric] look_def
    by (metis not_Some_eq option.map_disc_iff sees_None)
  have "p \<in> sn_path ` set (infer_schema body) \<longleftrightarrow> (\<exists>a. map_of (walk body [] []) p = Some a)" for p
  proof
    assume "p \<in> sn_path ` set (infer_schema body)"
    then obtain n where "n \<in> set (infer_schema body)" "p = sn_path n" by blast
    then show "\<exists>a. map_of (walk body [] []) p = Some a" using path by (auto simp: infer_node finalize_def)
  next
    assume "\<exists>a. map_of (walk body [] []) p = Some a"
    then obtain a where a: "map_of (walk body [] []) p = Some a" by blast
    then have "finalize a \<in> set (infer_schema body)" by (auto simp: infer_node)
    moreover have "sn_path (finalize a) = p" using path [OF a] by (simp add: finalize_def)
    ultimately show "p \<in> sn_path ` set (infer_schema body)" by blast
  qed
  then have "p \<in> sn_path ` set (infer_schema body) \<longleftrightarrow> values_at body p \<noteq> []" for p
    by (simp only: ex)
  moreover have "values_at body p \<noteq> [] \<longleftrightarrow> p \<in> fst ` set (body_visits body)" for p
    by (force simp: values_at_def filter_empty_conv)
  ultimately show ?thesis by blast
qed

lemma infer_sorted: "sorted (map sn_path (infer_schema body))" "distinct (map sn_path (infer_schema body))"
proof -
  let ?w = "walk body [] []"
  have d: "distinct (keys ?w)" by (rule distinct_walk) simp
  have "sn_path (finalize (snd x)) = fst x" if "x \<in> set ?w" for x
  proof -
    have "map_of ?w (fst x) = Some (snd x)" using d that by simp
    then show ?thesis using walked_observed(1) by (simp add: observed_def finalize_def)
  qed
  then have "map sn_path (map (finalize \<circ> snd) ?w) = keys ?w" by simp
  with d have "distinct (map sn_path (map (finalize \<circ> snd) ?w))" by (simp only:)
  moreover have "mset (map sn_path (infer_schema body)) = mset (map sn_path (map (finalize \<circ> snd) ?w))"
    by (simp add: infer_schema_def mset_map del: map_map)
  ultimately show "distinct (map sn_path (infer_schema body))" by (metis mset_eq_imp_distinct_iff)
  show "sorted (map sn_path (infer_schema body))" by (simp add: infer_schema_def)
qed

section \<open>Properties\<close>

lemma finalized_enum:
  assumes "observed p vs a"
  shows "sn_enum (finalize a) = (if strings_of vs \<noteq> {} \<and> card (strings_of vs) \<le> enum_threshold
    then Some (sorted_list_of_set (strings_of vs)) else None)"
proof (cases "ns_enum_disabled a")
  case False
  then have e: "set (ns_enum a) = strings_of vs" "distinct (ns_enum a)" "length (ns_enum a) \<le> enum_threshold"
    "ns_string_leaf a \<longleftrightarrow> strings_of vs \<noteq> {}"
    using assms by (auto simp: observed_def)
  have "sort (ns_enum a) = sorted_list_of_set (strings_of vs)" "card (strings_of vs) = length (ns_enum a)"
    using e(1,2) by (metis sorted_list_of_set_sort_remdups remdups_id_iff_distinct, metis distinct_card)
  then show ?thesis using False e by (auto simp: finalize_def)
qed (use assms in \<open>auto simp: observed_def finalize_def\<close>)


definition demo_body :: json where
  "demo_body = JDict [(''id'', JInt 1), (''tags'', JList [JStr ''b'', JNull, JStr ''a'']),
     (''users'', JList [JDict [(''n'', JInt 1)], JDict []])]"


end
