(* ===== verification/Change_Facts.thy ===== *)
theory Change_Facts
  imports Schema_Changes Infer_Facts Keyed_Table
begin

text \<open>
  What the monitor's schema diff reports: every path once, by a table of change kinds, and which
  differences of two schemas it does not report; the stored schema reads back.
\<close>

section \<open>Every change can be built\<close>

lemma make_change_total:
  assumes "t \<in> set (keys severity_table)"
  shows "\<exists>d. make_change t p a b c e args = Inr d"
proof -
  have "\<exists>s. map_of severity_table t = Some s" "\<exists>m. map_of (templates p args) t = Some m"
    using assms weak_map_of_SomeI unfolding severity_table_def templates_def by auto
  then show ?thesis by (auto simp: make_change_def classify_change_def msg_def)
qed

lemma make_change_fields:
  assumes "make_change t p a b c e args = Inr d"
  shows "ch_type d = t" "ch_path d = p" "classify_change (ch_type d) = Inr (ch_severity d)"
  using assms by (auto simp: make_change_def bind_err_eq_Inr)

lemma pick_in_table: "pick_change_type m n = Some t \<Longrightarrow> t \<in> set (keys severity_table)"
  unfolding pick_change_type_def severity_table_def
  by (auto simp: Let_def split: if_splits option.splits)

section \<open>The reference: the kind of change at a path\<close>

definition change_kind :: "schema_node list \<Rightarrow> schema_node list \<Rightarrow> string \<Rightarrow> string option" where
  "change_kind old new p =
     (case (row_at sn_path p old, row_at sn_path p new) of
        (None, None) \<Rightarrow> None
      | (Some m, None) \<Rightarrow> Some (if sn_type m = TObject then ''nested_object_removed'' else ''removed_field'')
      | (None, Some n) \<Rightarrow> Some ''added_field''
      | (Some m, Some n) \<Rightarrow> pick_change_type m n)"

definition reports :: "schema_node list \<Rightarrow> schema_node list \<Rightarrow> string \<Rightarrow> change \<Rightarrow> bool" where
  "reports old new p d \<longleftrightarrow> ch_path d = p \<and> change_kind old new p = Some (ch_type d)
     \<and> classify_change (ch_type d) = Inr (ch_severity d)"

lemma dict_set_fresh: "k \<notin> fst ` set d \<Longrightarrow> dict_set k v d = d @ [(k, v)]"
  by (induction d) auto

lemma nodes_by_path_map:
  "distinct (map sn_path nodes) \<Longrightarrow> nodes_by_path nodes = map (\<lambda>n. (sn_path n, n)) nodes"
proof (induction nodes rule: rev_induct)
  case (snoc n nodes)
  then have "sn_path n \<notin> fst ` set (map (\<lambda>n. (sn_path n, n)) nodes)" by force
  with snoc show ?case by (simp add: nodes_by_path_def dict_set_fresh)
qed (simp add: nodes_by_path_def)

lemma map_of_nodes: "distinct (map sn_path nodes) \<Longrightarrow> map_of (nodes_by_path nodes) p = row_at sn_path p nodes"
  unfolding nodes_by_path_map by (induction nodes) (auto simp: row_at_def)

lemma set_keys_nodes: "distinct (map sn_path nodes) \<Longrightarrow> set (keys (nodes_by_path nodes)) = sn_path ` set nodes"
  by (force simp: nodes_by_path_map)

lemma map_err_ex:
  assumes "\<And>x. x \<in> set xs \<Longrightarrow> \<exists>y. f x = Inr y \<and> Q x y"
  shows "\<exists>ys. map_err f xs = Inr ys \<and> list_all2 Q xs ys"
  using assms by (induction xs) fastforce+

lemma opt_cat:
  assumes "list_all2 (\<lambda>p o'. case o' of None \<Rightarrow> \<not> K p | Some d \<Rightarrow> Q p d) ps os"
    and "\<And>p d. Q p d \<Longrightarrow> path d = p \<and> K p"
  shows "list_all2 Q (filter K ps) (concat (map (\<lambda>d. case d of None \<Rightarrow> [] | Some d \<Rightarrow> [d]) os))"
  using assms(1) by (induction rule: list_all2_induct) (auto dest: assms(2) split: option.splits)

lemma diff_schemas_reports:
  assumes "distinct (map sn_path old)" and "distinct (map sn_path new)"
  obtains ds ps where "diff_schemas old new = Inr ds" "list_all2 (reports old new) ps ds" "distinct ps"
    "set ps = {p. change_kind old new p \<noteq> None}"
proof -
  note at = map_of_nodes [OF assms(1)] map_of_nodes [OF assms(2)]
  let ?ko = "set (keys (nodes_by_path old))" and ?kn = "set (keys (nodes_by_path new))"
  define gone where "gone = sorted_set (filter (\<lambda>p. p \<notin> ?kn) (keys (nodes_by_path old)))"
  define come where "come = sorted_set (filter (\<lambda>p. p \<notin> ?ko) (keys (nodes_by_path new)))"
  define both where "both = sorted_set (filter (\<lambda>p. p \<in> ?kn) (keys (nodes_by_path old)))"
  have mem: "p \<in> ?ko \<longleftrightarrow> row_at sn_path p old \<noteq> None" "p \<in> ?kn \<longleftrightarrow> row_at sn_path p new \<noteq> None" for p
    by (simp_all add: at [symmetric] map_of_eq_None_iff)
  have sets: "set gone = ?ko - ?kn" "set come = ?kn - ?ko" "set both = ?ko \<inter> ?kn"
    by (auto simp: gone_def come_def both_def)
  have "\<exists>d. bind_err (node_of (nodes_by_path old) p) removed_change = Inr d \<and> reports old new p d" if p: "p \<in> set gone" for p
  proof -
    obtain m where m: "row_at sn_path p old = Some m" "row_at sn_path p new = None" using p mem sets by auto
    have "(if sn_type m = TObject then ''nested_object_removed'' else ''removed_field'') \<in> set (keys severity_table)"
      by (simp add: severity_table_def)
    from make_change_total [OF this] obtain d where d: "removed_change m = Inr d"
      unfolding removed_change_def by blast
    with make_change_fields [OF d [unfolded removed_change_def]] m row_at_SomeD [OF m(1)] show ?thesis
      by (simp add: node_of_def at reports_def change_kind_def)
  qed
  then have "\<exists>ds1. map_err (\<lambda>p. bind_err (node_of (nodes_by_path old) p) removed_change) gone = Inr ds1
    \<and> list_all2 (reports old new) gone ds1" by (rule map_err_ex)
  then obtain ds1 where 1: "map_err (\<lambda>p. bind_err (node_of (nodes_by_path old) p) removed_change) gone = Inr ds1"
    "list_all2 (reports old new) gone ds1" by blast
  have "\<exists>d. bind_err (node_of (nodes_by_path new) p) added_change = Inr d \<and> reports old new p d" if p: "p \<in> set come" for p
  proof -
    obtain n where n: "row_at sn_path p old = None" "row_at sn_path p new = Some n" using p mem sets by auto
    have "''added_field'' \<in> set (keys severity_table)" by (simp add: severity_table_def)
    from make_change_total [OF this] obtain d where d: "added_change n = Inr d"
      unfolding added_change_def by blast
    with make_change_fields [OF d [unfolded added_change_def]] n row_at_SomeD [OF n(2)] show ?thesis
      by (simp add: node_of_def at reports_def change_kind_def)
  qed
  then have "\<exists>ds2. map_err (\<lambda>p. bind_err (node_of (nodes_by_path new) p) added_change) come = Inr ds2
    \<and> list_all2 (reports old new) come ds2" by (rule map_err_ex)
  then obtain ds2 where 2: "map_err (\<lambda>p. bind_err (node_of (nodes_by_path new) p) added_change) come = Inr ds2"
    "list_all2 (reports old new) come ds2" by blast
  let ?f = "\<lambda>p. bind_err (node_of (nodes_by_path old) p) (\<lambda>m. bind_err (node_of (nodes_by_path new) p) (node_change m))"
  let ?K = "\<lambda>p. change_kind old new p \<noteq> None"
  have "\<exists>x. ?f p = Inr x \<and> (case x of None \<Rightarrow> \<not> ?K p | Some d \<Rightarrow> reports old new p d)" if p: "p \<in> set both" for p
  proof -
    obtain m n where mn: "row_at sn_path p old = Some m" "row_at sn_path p new = Some n" using p mem sets by auto
    have path: "sn_path m = p" using row_at_SomeD [OF mn(1)] by blast
    have f: "?f p = node_change m n" by (simp add: node_of_def at mn)
    show ?thesis
    proof (cases "pick_change_type m n")
      case None
      then show ?thesis unfolding f by (simp add: node_change_def change_kind_def mn)
    next
      case (Some t)
      from make_change_total [OF pick_in_table [OF this]] obtain d
        where d: "make_change t (sn_path m) (Some (node_type m)) (Some (node_type n)) (sn_example m) (sn_example n)
          (changed_args t m n) = Inr d" by blast
      from make_change_fields [OF d] Some path have "reports old new p d"
        by (simp add: reports_def change_kind_def mn)
      then show ?thesis unfolding f by (intro exI [of _ "Some d"]) (simp add: node_change_def Some d)
    qed
  qed
  then have "\<exists>ds3. map_err ?f both = Inr ds3
    \<and> list_all2 (\<lambda>p x. case x of None \<Rightarrow> \<not> ?K p | Some d \<Rightarrow> reports old new p d) both ds3" by (rule map_err_ex)
  then obtain ds3 where 3: "map_err ?f both = Inr ds3"
    "list_all2 (\<lambda>p x. case x of None \<Rightarrow> \<not> ?K p | Some d \<Rightarrow> reports old new p d) both ds3" by blast
  let ?cat = "concat (map (\<lambda>d. case d of None \<Rightarrow> [] | Some d \<Rightarrow> [d]) ds3)"
  have 4: "list_all2 (reports old new) (filter ?K both) ?cat"
    using 3(2) by (rule opt_cat [where path = ch_path]) (simp add: reports_def)
  have eq: "diff_schemas old new = Inr (ds1 @ ds2 @ ?cat)"
    unfolding diff_schemas_def Let_def gone_def [symmetric] come_def [symmetric] both_def [symmetric]
    by (simp add: 1(1) 2(1) 3(1))
  have all: "list_all2 (reports old new) (gone @ come @ filter ?K both) (ds1 @ ds2 @ ?cat)"
    using 1(2) 2(2) 4 by (intro list_all2_appendI)
  have dist: "distinct (gone @ come @ filter ?K both)"
    using sets by (auto simp: gone_def come_def both_def)
  have "?K p \<longleftrightarrow> p \<in> set (gone @ come @ filter ?K both)" for p
  proof (cases "p \<in> set both")
    case False
    then show ?thesis using sets mem by (auto simp: change_kind_def split: option.splits)
  qed (use sets in auto)
  then show thesis using that eq all dist by blast
qed

section \<open>The stored schema reads back\<close>

lemma read_type_name [simp]: "read_type (type_name t) = Some t"
  by (cases t) (simp_all add: read_type_def json_types_def)

lemma read_strings_map [simp]: "read_strings (map JStr vs) = Some vs"
  by (induction vs) simp_all

lemma node_reads_back:
  assumes "sn_example n \<noteq> Some JNull"
  shows "node_of_json (node_json n) = Inr n"
  using assms
  by (cases "sn_item n"; cases "sn_enum n"; cases "sn_example n")
    (simp_all add: node_of_json_def node_json_def structural_projection_def node_type_def jget_or_def opt_value_def)

section \<open>The report as a whole\<close>

lemma diff_spec:
  assumes "distinct (map sn_path old)" and "distinct (map sn_path new)"
  shows "\<exists>ds. diff_schemas old new = Inr ds \<and> distinct (map ch_path ds)
    \<and> (\<forall>p k. (\<exists>d \<in> set ds. ch_path d = p \<and> ch_type d = k) \<longleftrightarrow> change_kind old new p = Some k)
    \<and> (\<forall>d \<in> set ds. map_of severity_table (ch_type d) = Some (ch_severity d))"
proof -
  obtain ds ps where r: "diff_schemas old new = Inr ds" "list_all2 (reports old new) ps ds" "distinct ps"
    "set ps = {p. change_kind old new p \<noteq> None}" using diff_schemas_reports [OF assms] .
  have "map ch_path ds = ps" using r(2) by (induction rule: list_all2_induct) (simp_all add: reports_def)
  moreover have "(\<exists>d \<in> set ds. ch_path d = p \<and> ch_type d = k) \<longleftrightarrow> change_kind old new p = Some k" for p k
  proof
    assume "\<exists>d \<in> set ds. ch_path d = p \<and> ch_type d = k"
    then show "change_kind old new p = Some k"
      using r(2) by (auto simp: list_all2_conv_all_nth in_set_conv_nth reports_def)
  next
    assume k: "change_kind old new p = Some k"
    then have "p \<in> set ps" using r(4) by simp
    then obtain i where "i < length ps" "ps ! i = p" by (auto simp: in_set_conv_nth)
    then have "ds ! i \<in> set ds" "reports old new p (ds ! i)"
      using r(2) by (auto simp: list_all2_conv_all_nth)
    with k show "\<exists>d \<in> set ds. ch_path d = p \<and> ch_type d = k" by (auto simp: reports_def)
  qed
  moreover have "map_of severity_table (ch_type d) = Some (ch_severity d)" if "d \<in> set ds" for d
    using that r(2) by (auto simp: list_all2_conv_all_nth in_set_conv_nth reports_def classify_change_def split: option.splits)
  ultimately show ?thesis using r(1,3) by blast
qed

section \<open>Schemas without a change\<close>

lemma row_at_list_all2:
  assumes "list_all2 R old new" and "\<And>m n. R m n \<Longrightarrow> sn_path m = sn_path n"
  shows "(row_at sn_path p old = None \<and> row_at sn_path p new = None)
    \<or> (\<exists>m n. row_at sn_path p old = Some m \<and> row_at sn_path p new = Some n \<and> R m n)"
  using assms(1) by (induction rule: list_all2_induct) (auto simp: row_at_def dest: assms(2))

lemma diff_silent:
  assumes "distinct (map sn_path old)"
    and "list_all2 (\<lambda>m n. sn_path m = sn_path n \<and> pick_change_type m n = None) old new"
  shows "diff_schemas old new = Inr []"
proof -
  have "map sn_path old = map sn_path new"
    using assms(2) by (induction rule: list_all2_induct) simp_all
  with assms(1) have new: "distinct (map sn_path new)" by simp
  obtain ds ps where r: "diff_schemas old new = Inr ds" "list_all2 (reports old new) ps ds" "distinct ps"
    "set ps = {p. change_kind old new p \<noteq> None}" using diff_schemas_reports [OF assms(1) new] .
  have "change_kind old new p = None" for p
    using row_at_list_all2 [OF assms(2), of p] by (auto simp: change_kind_def)
  then have "ps = []" using r(4) by simp
  with r show ?thesis by simp
qed

lemma pick_same: "pick_change_type m (m\<lparr>sn_required := r, sn_example := x\<rparr>) = None"
  by (auto simp: pick_change_type_def Let_def split: option.splits)

section \<open>Properties\<close>



lemma picked_type:
  assumes "pick_change_type m n \<noteq> Some ''type_changed''" and "pick_change_type m n \<noteq> Some ''number_to_int''"
  shows "sn_type n = sn_type m \<or> sn_type m = TInteger \<and> sn_type n = TNumber"
proof (rule ccontr)
  assume "\<not> ?thesis"
  then have "pick_change_type m n = (if sn_type m = TNumber \<and> sn_type n = TInteger
      then Some ''number_to_int'' else Some ''type_changed'')" by (auto simp: pick_change_type_def)
  then have "pick_change_type m n = Some ''number_to_int'' \<or> pick_change_type m n = Some ''type_changed''"
    by (simp only: split: if_split) blast
  with assms show False by blast
qed

text \<open>C23: When no change is reported as breaking, every path of the old schema is still there, with its type or,
  for an integer, the type number.\<close>

theorem unbroken_fields_survive:
  assumes "distinct (map sn_path old)" and "distinct (map sn_path new)"
    and "diff_schemas old new = Inr ds" and "\<forall>d \<in> set ds. ch_severity d \<noteq> ''breaking''" and "m \<in> set old"
  shows "\<exists>n \<in> set new. sn_path n = sn_path m
    \<and> (sn_type n = sn_type m \<or> sn_type m = TInteger \<and> sn_type n = TNumber)"
proof -
  have m: "row_at sn_path (sn_path m) old = Some m" using assms(1,5) by (rule row_at_Some)
  have quiet: "change_kind old new (sn_path m) \<noteq> Some k" if k: "map_of severity_table k = Some ''breaking''" for k
  proof
    assume "change_kind old new (sn_path m) = Some k"
    then obtain d where "d \<in> set ds" "ch_type d = k" "map_of severity_table (ch_type d) = Some (ch_severity d)"
      using diff_spec [OF assms(1,2)] assms(3) by (metis Inr_inject)
    with k have "d \<in> set ds" "ch_severity d = ''breaking''" by (simp_all only: option.inject)
    with assms(4) show False by blast
  qed
  have breaking: "map_of severity_table ''removed_field'' = Some ''breaking''"
    "map_of severity_table ''nested_object_removed'' = Some ''breaking''"
    "map_of severity_table ''type_changed'' = Some ''breaking''"
    "map_of severity_table ''number_to_int'' = Some ''breaking''" by (simp_all add: severity_table_def)
  note quiet = breaking [THEN quiet]
  have "row_at sn_path (sn_path m) new \<noteq> None"
  proof
    assume "row_at sn_path (sn_path m) new = None"
    with m have "change_kind old new (sn_path m) =
        Some (if sn_type m = TObject then ''nested_object_removed'' else ''removed_field'')"
      by (simp only: change_kind_def prod.case option.case)
    then have "change_kind old new (sn_path m) = Some ''nested_object_removed''
        \<or> change_kind old new (sn_path m) = Some ''removed_field''" by (simp only: split: if_split) blast
    with quiet show False by blast
  qed
  then obtain n where n: "row_at sn_path (sn_path m) new = Some n" by blast
  have "change_kind old new (sn_path m) = pick_change_type m n"
    using m n by (simp only: change_kind_def prod.case option.case)
  with quiet have "pick_change_type m n \<noteq> Some ''type_changed''" "pick_change_type m n \<noteq> Some ''number_to_int''"
    by (simp_all only: not_False_eq_True)
  then have "sn_type n = sn_type m \<or> sn_type m = TInteger \<and> sn_type n = TNumber" by (rule picked_type)
  with row_at_SomeD [OF n] show ?thesis by blast
qed

lemma unbroken_fields_survive_witness:
  "\<exists>n \<in> set (infer_schema (JDict [(''n'', JFloat ''1.5'')])). sn_path n = ''n''
    \<and> (sn_type n = TInteger \<or> sn_type n = TNumber)"
proof -
  let ?old = "infer_schema (JDict [(''n'', JInt 1)])" and ?new = "infer_schema (JDict [(''n'', JFloat ''1.5'')])"
  have "case diff_schemas ?old ?new of Inr ds \<Rightarrow> list_all (\<lambda>d. ch_severity d \<noteq> ''breaking'') ds | Inl _ \<Rightarrow> False"
    by code_simp
  then obtain ds where ds: "diff_schemas ?old ?new = Inr ds" "\<forall>d \<in> set ds. ch_severity d \<noteq> ''breaking''"
    by (auto split: sum.splits simp: list_all_iff)
  have "case ?old of [m] \<Rightarrow> sn_path m = ''n'' \<and> sn_type m = TInteger | _ \<Rightarrow> False" by code_simp
  then obtain m where m: "?old = [m]" "sn_path m = ''n''" "sn_type m = TInteger" by (auto split: list.splits)
  have "m \<in> set ?old" by (simp add: m(1))
  from unbroken_fields_survive [OF infer_sorted(2) infer_sorted(2) ds this] show ?thesis unfolding m(2,3) by blast
qed

text \<open>The required flag and the example of a node are not compared: schemas that differ in nothing else
  give no change, whatever becomes optional.\<close>

theorem required_is_not_compared:
  assumes "distinct (map sn_path old)"
    and "list_all2 (\<lambda>m n. n = m\<lparr>sn_required := sn_required n, sn_example := sn_example n\<rparr>) old new"
  shows "diff_schemas old new = Inr []"
proof (rule diff_silent [OF assms(1)])
  have "sn_path m = sn_path n \<and> pick_change_type m n = None"
    if n: "n = m\<lparr>sn_required := sn_required n, sn_example := sn_example n\<rparr>" for m n
  proof -
    obtain r x where "n = m\<lparr>sn_required := r, sn_example := x\<rparr>" using n by blast
    then show ?thesis by (simp add: pick_same)
  qed
  then show "list_all2 (\<lambda>m n. sn_path m = sn_path n \<and> pick_change_type m n = None) old new"
    using assms(2) by (rule list_all2_mono [rotated])
qed

definition both_named :: json where
  "both_named = JDict [(''u'', JList [JDict [(''n'', JInt 1)], JDict [(''n'', JInt 1)]])]"

definition one_named :: json where
  "one_named = JDict [(''u'', JList [JDict [(''n'', JInt 1)], JDict []])]"

lemma required_is_not_compared_witness:
  "map sn_required (infer_schema both_named) \<noteq> map sn_required (infer_schema one_named)
   \<and> map structural_projection (infer_schema both_named) \<noteq> map structural_projection (infer_schema one_named)
   \<and> diff_schemas (infer_schema both_named) (infer_schema one_named) = Inr []"
proof -
  have "list_all2 (\<lambda>m n. n = m\<lparr>sn_required := sn_required n, sn_example := sn_example n\<rparr>)
      (infer_schema both_named) (infer_schema one_named)" by code_simp
  then have "diff_schemas (infer_schema both_named) (infer_schema one_named) = Inr []"
    by (rule required_is_not_compared [OF infer_sorted(2)])
  moreover have "map sn_required (infer_schema both_named) \<noteq> map sn_required (infer_schema one_named)" by code_simp
  moreover have "map structural_projection (infer_schema both_named) \<noteq> map structural_projection (infer_schema one_named)"
    by code_simp
  ultimately show ?thesis by blast
qed

lemma stored_schema:
  "map_err node_of_json (map node_json (infer_schema body)) = Inr (infer_schema body)"
proof -
  have "node_of_json (node_json n) = Inr n" if n: "n \<in> set (infer_schema body)" for n
  proof (rule node_reads_back)
    obtain p a where "map_of (walk body [] []) p = Some a" "n = finalize a" using n by (auto simp: infer_node)
    with walked_observed(1) [of body p a] show "sn_example n \<noteq> Some JNull"
      by (auto simp: observed_def finalize_def)
  qed
  moreover have "map_err f (map g xs) = Inr xs" if "\<And>x. x \<in> set xs \<Longrightarrow> f (g x) = Inr x"
    for f :: "json \<Rightarrow> py_error + schema_node" and g xs
    using that by (induction xs) auto
  ultimately show ?thesis by blast
qed

text \<open>A schema that the monitor stores reads back as the schema that was inferred.\<close>

theorem stored_schema_reads_back:
  "map_err node_of_json (map node_json (infer_schema body)) = Inr (infer_schema body)"
  by (rule stored_schema)

section \<open>Arrays at the root\<close>

lemma root_values:
  assumes "list_all is_scalar xs"
  shows "body_visits (JList xs) = (''[*]'', JList xs) # map (\<lambda>v. (''[*]'', v)) xs"
proof -
  have v: "visits ''[*]'' v = [(''[*]'', v)]" if "is_scalar v" for v using that by (cases v) simp_all
  have "concat (map (visits ''[*]'') ys) = map (\<lambda>v. (''[*]'', v)) ys" if "list_all is_scalar ys" for ys
    using that by (induction ys) (simp_all add: v)
  moreover have "xs = []" if "list_all is_dict xs" using that assms by (cases xs; cases "hd xs") auto
  ultimately show ?thesis using assms by (auto simp: array_path_def)
qed

lemma root_type:
  "list_all is_scalar ys \<Longrightarrow>
   \<exists>a. sees p (JList xs # ys) None = Some a \<and> ns_type a = (if ys = [] then TArray else TMixed)"
proof (induction ys rule: rev_induct)
  case Nil
  then show ?case by (simp add: sees_def ensured_def new_state_def)
next
  case (snoc v ys)
  then obtain a where a: "sees p (JList xs # ys) None = Some a" "ns_type a = (if ys = [] then TArray else TMixed)"
    by auto
  have "sees p (JList xs # ys @ [v]) None = Some (see p v (Some a))"
    using a(1) sees_simps(2) [of p "JList xs # ys" v None] by simp
  moreover have "ns_type (see p v (Some a)) = TMixed"
    using a(2) snoc.prems by (cases v) (simp_all add: ensured_def see_scalar_def split: if_splits)
  ultimately show ?case by simp
qed

lemma infer_root_array:
  assumes "list_all is_scalar xs" and "xs \<noteq> []"
  shows "\<exists>n. infer_schema (JList xs) = [n] \<and> sn_path n = ''[*]'' \<and> sn_type n = TMixed \<and> \<not> sn_nullable n
    \<and> (strings_of xs = {} \<longrightarrow> sn_enum n = None)"
proof -
  let ?w = "walk (JList xs) [] []"
  have at: "values_at (JList xs) ''[*]'' = JList xs # xs"
    unfolding values_at_def root_values [OF assms(1)] by (simp add: filter_map comp_def)
  obtain b where b: "sees ''[*]'' (JList xs # xs) None = Some b" "ns_type b = TMixed"
    using root_type [OF assms(1), of "''[*]''" xs] assms(2) by auto
  have "look ?w ''[*]'' = Some b"
    using look_body [of "JList xs" "''[*]''"] b(1) at unfolding see_all_at values_at_def by simp
  then obtain a where a: "map_of ?w ''[*]'' = Some a" "core a = b" by (auto simp: look_def)
  have o: "observed ''[*]'' (JList xs # xs) a" using walked_observed(1) [OF a(1)] unfolding at .
  have none: "JNull \<notin> set xs" using assms(1) by (auto simp: list_all_iff)
  have "set (map sn_path (infer_schema (JList xs))) = {''[*]''}"
    using infer_paths [of "JList xs"] unfolding root_values [OF assms(1)] by force
  then have "length (infer_schema (JList xs)) = 1"
    using distinct_card [OF infer_sorted(2) [of "JList xs"]] by simp
  moreover have "finalize a \<in> set (infer_schema (JList xs))" using a(1) by (auto simp: infer_node)
  ultimately have "infer_schema (JList xs) = [finalize a]" by (auto simp: length_Suc_conv)
  moreover have "sn_enum (finalize a) = None" if "strings_of xs = {}"
    using finalized_enum [OF o] that by (simp add: strings_of_def)
  moreover have "ns_type a = TMixed" using a(2) b(2) by auto
  ultimately show ?thesis using o none by (auto simp: finalize_def observed_def)
qed

text \<open>An array at the root of a body shares its path with its items, so its node is always mixed: when
  one array of scalars replaces another, whatever the types of the items, no change is reported
  unless both hold strings.\<close>

theorem root_array_types_are_lost:
  assumes "list_all is_scalar xs" and "xs \<noteq> []" and "list_all is_scalar ys" and "ys \<noteq> []"
    and "strings_of xs = {} \<or> strings_of ys = {}"
  shows "diff_schemas (infer_schema (JList xs)) (infer_schema (JList ys)) = Inr []"
proof -
  obtain m where m: "infer_schema (JList xs) = [m]" "sn_path m = ''[*]''" "sn_type m = TMixed" "\<not> sn_nullable m"
    "strings_of xs = {} \<longrightarrow> sn_enum m = None" using infer_root_array [OF assms(1,2)] by blast
  obtain n where n: "infer_schema (JList ys) = [n]" "sn_path n = ''[*]''" "sn_type n = TMixed" "\<not> sn_nullable n"
    "strings_of ys = {} \<longrightarrow> sn_enum n = None" using infer_root_array [OF assms(3,4)] by blast
  have "pick_change_type m n = None"
    using m n assms(5) by (auto simp: pick_change_type_def split: option.splits)
  then have "list_all2 (\<lambda>m n. sn_path m = sn_path n \<and> pick_change_type m n = None) [m] [n]"
    using m(2) n(2) by simp
  then show ?thesis using diff_silent [of "[m]" "[n]"] m(1) n(1) by simp
qed

lemma root_array_types_are_lost_witness:
  "diff_schemas (infer_schema (JList [JInt 1, JInt 2])) (infer_schema (JList [JStr ''a''])) = Inr []"
  by (rule root_array_types_are_lost) (simp_all add: strings_of_def)

end
