(* ===== verification/Simulator.thy ===== *)
theory Simulator
  imports Change_Facts
begin

text \<open>
  \<^verbatim>\<open>simulator/main.py\<close>: the service whose answer changes with the clock, so that a monitor that watches it
  has something to report. The clock in whole seconds is the argument of both definitions.
\<close>

definition simulator_stage :: "nat \<Rightarrow> nat" where
  "simulator_stage time = (time div 600) mod 4"

definition stage_payload :: "nat \<Rightarrow> json" where
  "stage_payload s =
     (let base = [(''id'', JInt 1), (''name'', JStr ''Alice''), (''active'', JBool True), (''score'', JInt 42)]
      in if s = 0 then JDict (dict_set ''email'' (JStr ''a@x.com'') base)
         else if s = 1 then JDict (dict_set ''role'' (JStr ''admin'') (dict_set ''email'' (JStr ''a@x.com'') base))
         else if s = 2 then JDict (dict_set ''role'' (JStr ''admin'') base)
         else JDict (dict_set ''role'' (JStr ''admin'') (dict_set ''id'' (JStr ''uuid-1'') base)))"

definition simulator_payload :: "nat \<Rightarrow> json" where
  "simulator_payload time = stage_payload (simulator_stage time)"

text \<open>\<open>healthz\<close>\<close>

definition simulator_health :: "nat \<Rightarrow> json" where
  "simulator_health time = JDict [(''status'', JStr ''ok''), (''stage'', JInt (int (simulator_stage time)))]"

text \<open>What a monitor reports between the answers of two stages: severity, kind and path of the changes.\<close>

definition reported :: "json \<Rightarrow> json \<Rightarrow> (string \<times> string \<times> string) list" where
  "reported old new =
     (case diff_schemas (infer_schema old) (infer_schema new) of
        Inr ds \<Rightarrow> map (\<lambda>d. (ch_severity d, ch_type d, ch_path d)) ds
      | Inl e \<Rightarrow> [])"

lemma stage_cases: "simulator_stage time \<in> {0, 1, 2, 3}"
proof -
  have "simulator_stage time < 4" by (simp add: simulator_stage_def)
  then show ?thesis by auto
qed

lemma later_stage:
  "simulator_stage time = 0 \<Longrightarrow> simulator_stage (time + 600) = 1"
  "simulator_stage time = 1 \<Longrightarrow> simulator_stage (time + 600) = 2"
  "simulator_stage time = 2 \<Longrightarrow> simulator_stage (time + 600) = 3"
  "simulator_stage time = 3 \<Longrightarrow> simulator_stage (time + 600) = 0"
proof -
  have "simulator_stage (time + 600) = (simulator_stage time + 1) mod 4"
    by (simp add: simulator_stage_def mod_Suc_eq div_add_self2)
  then show "simulator_stage time = 0 \<Longrightarrow> simulator_stage (time + 600) = 1"
    "simulator_stage time = 1 \<Longrightarrow> simulator_stage (time + 600) = 2"
    "simulator_stage time = 2 \<Longrightarrow> simulator_stage (time + 600) = 3"
    "simulator_stage time = 3 \<Longrightarrow> simulator_stage (time + 600) = 0" by simp_all
qed

lemma reported_stages:
  "reported (stage_payload 0) (stage_payload 1) = [(''safe'', ''added_field'', ''role'')]"
  "reported (stage_payload 1) (stage_payload 2) = [(''breaking'', ''removed_field'', ''email'')]"
  "reported (stage_payload 2) (stage_payload 3) = [(''breaking'', ''type_changed'', ''id'')]"
  "reported (stage_payload 3) (stage_payload 0) =
     [(''breaking'', ''removed_field'', ''role''), (''safe'', ''added_field'', ''email''), (''breaking'', ''type_changed'', ''id'')]"
  by code_simp+

text \<open>A monitor that looks at the simulator every ten minutes reports a safe addition once in four runs
  and a breaking change in the other three, each with exactly these changes.\<close>

theorem simulator_drifts:
  "reported (simulator_payload time) (simulator_payload (time + 600)) =
     (if simulator_stage time = 0 then [(''safe'', ''added_field'', ''role'')]
      else if simulator_stage time = 1 then [(''breaking'', ''removed_field'', ''email'')]
      else if simulator_stage time = 2 then [(''breaking'', ''type_changed'', ''id'')]
      else [(''breaking'', ''removed_field'', ''role''), (''safe'', ''added_field'', ''email''), (''breaking'', ''type_changed'', ''id'')])"
proof -
  from stage_cases [of time] consider "simulator_stage time = 0" | "simulator_stage time = 1"
    | "simulator_stage time = 2" | "simulator_stage time = 3" by (elim insertE emptyE) simp_all
  then show ?thesis
    by cases (simp_all only: simulator_payload_def later_stage reported_stages if_True if_False refl
        numeral_eq_iff num.distinct zero_neq_numeral zero_neq_one one_neq_zero numeral_neq_zero one_eq_numeral_iff numeral_eq_one_iff)
qed

end
