(* ===== verification/Track_Facts.thy ===== *)
theory Track_Facts
  imports Track
begin

text \<open>
  What the request path guarantees: the reports of a drift, the rows it enqueues, the requests
  that stay silent, and the invariants of all tables over a whole request, failed ones included.
\<close>

section \<open>The pieces of a request\<close>

lemma chain_view:
  assumes "map (\<lambda>v. (sv_id v, sv_version v, sv_fingerprint v, sv_previous v, sv_current v)) xs
    = map (\<lambda>v. (sv_id v, sv_version v, sv_fingerprint v, sv_previous v, sv_current v)) ys"
  shows "chain xs = chain ys"
proof -
  have len: "length xs = length ys" using assms by (rule map_eq_imp_length_eq)
  have nth: "sv_id (xs ! i) = sv_id (ys ! i) \<and> sv_version (xs ! i) = sv_version (ys ! i)
      \<and> sv_previous (xs ! i) = sv_previous (ys ! i) \<and> sv_current (xs ! i) = sv_current (ys ! i)" if "i < length ys" for i
    using arg_cong [OF assms, of "\<lambda>l. l ! i"] that len by simp
  have "map sv_fingerprint xs = map sv_fingerprint ys"
    using arg_cong [OF assms, of "map (\<lambda>(a, b, c, d). c)"] by (simp add: comp_def)
  moreover have "(sv_version (xs ! i) = int i + 1 \<and> sv_current (xs ! i) = (Suc i = length ys)
      \<and> sv_previous (xs ! i) = (if i = 0 then None else Some (sv_id (xs ! (i - 1))))) =
    (sv_version (ys ! i) = int i + 1 \<and> sv_current (ys ! i) = (Suc i = length ys)
      \<and> sv_previous (ys ! i) = (if i = 0 then None else Some (sv_id (ys ! (i - 1)))))" if "i < length ys" for i
    using nth [OF that] nth [of "i - 1"] that by (cases "i = 0") simp_all
  ultimately show ?thesis unfolding chain_def len by (simp cong: conj_cong)
qed

lemma versions_ok_class:
  assumes "versions_ok n vs"
  shows "versions_ok n (update_where p (\<lambda>v. v\<lparr>sv_class := c\<rparr>) vs)"
proof -
  let ?f = "\<lambda>v. v\<lparr>sv_class := c\<rparr>"
  have ids: "map sv_id (update_where p ?f vs) = map sv_id vs" by (rule map_update_where) simp
  have "chain (rows_of (update_where p ?f vs) e)" for e
  proof -
    have "rows_of (update_where p ?f vs) e = update_where p ?f (rows_of vs e)" by (rule rows_of_update) simp
    moreover have "chain (update_where p ?f (rows_of vs e)) = chain (rows_of vs e)"
      by (rule chain_view, rule map_update_where) simp
    ultimately show ?thesis using assms by (simp add: versions_ok_def)
  qed
  moreover have "\<forall>i \<in> set (map sv_id vs). issued n i" using assms by (simp add: versions_ok_def)
  then have "\<forall>v \<in> set (update_where p ?f vs). issued n (sv_id v)" unfolding ids [symmetric] by simp
  ultimately show ?thesis using assms ids by (simp add: versions_ok_def)
qed

lemma event_dlq_ok_mono:
  assumes "event_dlq_ok db" and "event_dlq db' = event_dlq db" "event_dlq_size db' = event_dlq_size db"
    and "next_id db \<le> next_id db'"
  shows "event_dlq_ok db'"
  using assms issued_mono by (auto simp: event_dlq_ok_def list_all_iff)

lemma registry_ok_mono:
  assumes "registry_ok db" and "endpoints db' = endpoints db" "versions db' = versions db"
    and "next_id db \<le> next_id db'"
  shows "registry_ok db'"
  using assms versions_ok_mono issued_mono by (auto simp: registry_ok_def endpoints_ok_def)

lemma publish_frame:
  "versions (publish_fire_and_forget pub name db e) = versions db
    \<and> endpoints (publish_fire_and_forget pub name db e) = endpoints db
    \<and> outbox (publish_fire_and_forget pub name db e) = outbox db
    \<and> now (publish_fire_and_forget pub name db e) = now db
    \<and> subscriptions (publish_fire_and_forget pub name db e) = subscriptions db
    \<and> dlq (publish_fire_and_forget pub name db e) = dlq db
    \<and> dlq_size (publish_fire_and_forget pub name db e) = dlq_size db
    \<and> outbox_pending_gauge (publish_fire_and_forget pub name db e) = outbox_pending_gauge db
    \<and> schema_snapshots (publish_fire_and_forget pub name db e) = schema_snapshots db
    \<and> api_endpoints (publish_fire_and_forget pub name db e) = api_endpoints db
    \<and> drift_violations (publish_fire_and_forget pub name db e) = drift_violations db
    \<and> next_id db \<le> next_id (publish_fire_and_forget pub name db e)
    \<and> (event_dlq_ok db \<longrightarrow> event_dlq_ok (publish_fire_and_forget pub name db e))"
proof -
  have rec: "event_dlq_ok d \<Longrightarrow> event_dlq_ok (record_event_failure d e r n)" for d r n
    by (rule record_event_ok)
  have fr: "versions (record_event_failure d e r n) = versions d" "endpoints (record_event_failure d e r n) = endpoints d"
    "now (record_event_failure d e r n) = now d" "subscriptions (record_event_failure d e r n) = subscriptions d"
    "outbox (record_event_failure d e r n) = outbox d" "dlq (record_event_failure d e r n) = dlq d"
    "dlq_size (record_event_failure d e r n) = dlq_size d"
    "outbox_pending_gauge (record_event_failure d e r n) = outbox_pending_gauge d"
    "schema_snapshots (record_event_failure d e r n) = schema_snapshots d"
    "api_endpoints (record_event_failure d e r n) = api_endpoints d"
    "drift_violations (record_event_failure d e r n) = drift_violations d"
    "next_id (record_event_failure d e r n) = Suc (next_id d)" for d r n
    by (simp_all add: record_event_failure_def fresh_id_def Let_def case_prod_unfold)
  have "event_dlq_ok (d\<lparr>publish_failures := n\<rparr>) = event_dlq_ok d" for d n
    by (rule event_dlq_ok_frame) simp_all
  then show ?thesis
    by (auto simp: publish_fire_and_forget_def fr rec split: option.splits prod.splits)
qed

section \<open>The invariant of the runtime guard\<close>

definition runtime_ok :: "rdb \<Rightarrow> bool" where
  "runtime_ok db \<longleftrightarrow> registry_ok db \<and> outbox_issued db \<and> dlq_ok db \<and> event_dlq_ok db"

lemma runtime_ok_empty [simp]: "runtime_ok (empty_rdb t)"
  by (simp add: runtime_ok_def) (simp add: outbox_issued_def dlq_ok_def empty_rdb_def)

text \<open>The legacy tables are not touched before the legacy path runs.\<close>

definition same_legacy :: "rdb \<Rightarrow> rdb \<Rightarrow> bool" where
  "same_legacy db db' \<longleftrightarrow> schema_snapshots db' = schema_snapshots db \<and> api_endpoints db' = api_endpoints db
     \<and> drift_violations db' = drift_violations db \<and> next_id db \<le> next_id db'"

lemma runtime_ok_frame:
  assumes "runtime_ok db" "next_id db \<le> next_id db'" "endpoints db' = endpoints db" "versions db' = versions db"
    "outbox db' = outbox db" "dlq db' = dlq db" "dlq_size db' = dlq_size db"
    "event_dlq db' = event_dlq db" "event_dlq_size db' = event_dlq_size db"
  shows "runtime_ok db'"
  using assms registry_ok_mono [of db db'] event_dlq_ok_mono [of db db'] issued_mono
  by (auto simp: runtime_ok_def outbox_issued_def dlq_ok_def)

lemma upsert_frame:
  assumes ok: "runtime_ok db" and up: "upsert_schema_version db ns svc m r fp s c = ((e, name, rec, ins), db')"
  shows "runtime_ok db'" "same_legacy db db'" "outbox db' = outbox db" "subscriptions db' = subscriptions db"
    "now db' = now db" "outbox_pending_gauge db' = outbox_pending_gauge db" "event_dlq db' = event_dlq db"
    "attempts db' = attempts db" "dlq db' = dlq db" "drift_total db' = drift_total db"
proof -
  have en: "next_id db \<le> next_id d \<and> outbox d = outbox db \<and> subscriptions d = subscriptions db \<and> now d = now db
      \<and> outbox_pending_gauge d = outbox_pending_gauge db \<and> event_dlq d = event_dlq db
      \<and> event_dlq_size d = event_dlq_size db \<and> dlq d = dlq db \<and> dlq_size d = dlq_size db
      \<and> schema_snapshots d = schema_snapshots db \<and> api_endpoints d = api_endpoints db
      \<and> drift_violations d = drift_violations db \<and> attempts d = attempts db \<and> drift_total d = drift_total db"
    if "ensure_endpoint db ns svc m r = (x, d)" for x d
    using that by (auto simp: ensure_endpoint_def fresh_id_def Let_def split: option.splits)
  have all: "next_id db \<le> next_id db' \<and> outbox db' = outbox db \<and> subscriptions db' = subscriptions db
      \<and> now db' = now db \<and> outbox_pending_gauge db' = outbox_pending_gauge db \<and> event_dlq db' = event_dlq db
      \<and> event_dlq_size db' = event_dlq_size db \<and> dlq db' = dlq db \<and> dlq_size db' = dlq_size db
      \<and> schema_snapshots db' = schema_snapshots db \<and> api_endpoints db' = api_endpoints db
      \<and> drift_violations db' = drift_violations db \<and> attempts db' = attempts db \<and> drift_total db' = drift_total db"
    using ok [unfolded runtime_ok_def, THEN conjunct1] up
  proof (cases rule: upsert_cases)
    case (found db1)
    then show ?thesis using en [OF found(1)] by simp
  next
    case (inserted db1)
    then show ?thesis using en [OF inserted(1)] by simp
  qed
  then show "outbox db' = outbox db" "subscriptions db' = subscriptions db"
    "now db' = now db" "outbox_pending_gauge db' = outbox_pending_gauge db" "event_dlq db' = event_dlq db"
    "attempts db' = attempts db" "dlq db' = dlq db" "drift_total db' = drift_total db" "same_legacy db db'"
    unfolding same_legacy_def by blast+
  have "registry_ok db'" using upsert_keeps_ok [OF _ up] ok by (simp add: runtime_ok_def)
  moreover have "outbox_issued db'" using ok all issued_mono by (auto simp: runtime_ok_def outbox_issued_def)
  moreover have "dlq_ok db'" using ok all by (simp add: runtime_ok_def dlq_ok_def)
  moreover have "event_dlq_ok db'" using ok all event_dlq_ok_mono [of db db'] by (simp add: runtime_ok_def)
  ultimately show "runtime_ok db'" by (simp add: runtime_ok_def)
qed

lemma handle_drift_spec:
  assumes ok: "runtime_ok db" and h: "handle_drift env db e name ns prior new_rec c ds = (k, db')"
  shows "runtime_ok db'" "same_legacy db db'"
    and "versions db' = update_where (\<lambda>v. sv_id v = sv_id new_rec) (\<lambda>v. v\<lparr>sv_class := c\<rparr>) (versions db)"
    and "k = length (select_affected_subscriptions db e (sv_version new_rec) c)"
    and "\<exists>ev rows. ev \<noteq> [] \<and> outbox db' = outbox db @ rows
      \<and> map (\<lambda>r. (ob_sub r, ob_endpoint r, ob_payload r)) rows
          = map (\<lambda>s. (sub_id s, e, drift_payload ev e c (sv_version new_rec) ds))
              (select_affected_subscriptions db e (sv_version new_rec) c)
      \<and> list_all (\<lambda>r. if inline_delivery env then ob_status r \<in> {DELIVERED, FAILED} \<and> ob_attempts r = 1
          else ob_status r = PENDING \<and> ob_attempts r = 0 \<and> ob_max r = 5 \<and> ob_next r = now db) rows"
    and "outbox_pending_gauge db' = outbox_pending_gauge db + int k"
    and "now db' = now db" "subscriptions db' = subscriptions db"
proof -
  let ?db1 = "db\<lparr>versions := update_where (\<lambda>v. sv_id v = sv_id new_rec) (\<lambda>v. v\<lparr>sv_class := c\<rparr>) (versions db),
    next_id := Suc (next_id db)\<rparr>"
  let ?ev = "gen_uuid (next_id db)"
  obtain n d where enq: "enqueue_webhook_outbox env ?db1 e ?ev c (sv_version new_rec) ds = (n, d)"
    by (metis surj_pair)
  let ?d = "d\<lparr>classification_total := classification_total d @ [c], drift_total := drift_total d @ [(c, e)]\<rparr>"
  obtain event where res: "k = n" "db' = publish_fire_and_forget (te_publisher env) (te_publisher_name env) ?d event"
    using h enq by (auto simp: handle_drift_def fresh_id_def Let_def)
  have ok1: "runtime_ok ?db1"
  proof -
    have "versions_ok (next_id ?db1) (versions ?db1)"
      using ok versions_ok_mono [OF versions_ok_class, of "next_id db" _ "Suc (next_id db)"]
      by (simp add: runtime_ok_def registry_ok_def)
    then have "registry_ok ?db1"
      using ok by (simp add: runtime_ok_def registry_ok_def endpoints_ok_def)
    moreover have "outbox_issued ?db1" using ok by (simp add: runtime_ok_def outbox_issued_def)
    moreover have "dlq_ok ?db1" using ok by (simp add: runtime_ok_def dlq_ok_def)
    moreover have "event_dlq_ok ?db1"
      using ok event_dlq_ok_mono [of db ?db1] by (simp add: runtime_ok_def)
    ultimately show ?thesis by (simp add: runtime_ok_def)
  qed
  then have iss: "outbox_issued ?db1" by (simp add: runtime_ok_def)
  note E = enqueue_webhook_outbox_spec [OF iss enq]
  note P = publish_frame [of "te_publisher env" "te_publisher_name env" ?d event]
  have same_now: "now ?db1 = now db" by simp
  have sel: "select_affected_subscriptions ?db1 e v c = select_affected_subscriptions db e v c" for v
    by (simp add: select_affected_subscriptions_def)
  show "k = length (select_affected_subscriptions db e (sv_version new_rec) c)"
    using E(1) res(1) by (simp only: sel)
  show "versions db' = update_where (\<lambda>v. sv_id v = sv_id new_rec) (\<lambda>v. v\<lparr>sv_class := c\<rparr>) (versions db)"
    using P E(2) by (simp add: res(2) same_registry_def)
  show "outbox_pending_gauge db' = outbox_pending_gauge db + int k"
    using P E(5) by (simp add: res)
  show "same_legacy db db'"
    using P E(2) by (simp add: res(2) same_registry_def same_legacy_def)
  have "outbox db' = outbox db @ enqueued_all env ?ev e (drift_payload ?ev e c (sv_version new_rec) ds) ?db1
      (select_affected_subscriptions db e (sv_version new_rec) c)"
    using P E(4) unfolding sel by (simp add: res(2))
  then show "\<exists>ev rows. ev \<noteq> [] \<and> outbox db' = outbox db @ rows
      \<and> map (\<lambda>r. (ob_sub r, ob_endpoint r, ob_payload r)) rows
          = map (\<lambda>s. (sub_id s, e, drift_payload ev e c (sv_version new_rec) ds))
              (select_affected_subscriptions db e (sv_version new_rec) c)
      \<and> list_all (\<lambda>r. if inline_delivery env then ob_status r \<in> {DELIVERED, FAILED} \<and> ob_attempts r = 1
          else ob_status r = PENDING \<and> ob_attempts r = 0 \<and> ob_max r = 5 \<and> ob_next r = now db) rows"
    using enqueued_all_view enqueued_all_status [of env ?db1, unfolded same_now] gen_uuid_ne by blast
  show "now db' = now db" "subscriptions db' = subscriptions db"
    using P E(2) by (simp_all add: res(2) same_registry_def)
  have "registry_ok d"
    using ok1 E(2) registry_ok_mono [of ?db1 d] by (simp add: runtime_ok_def same_registry_def)
  then have "registry_ok db'"
    using P registry_ok_mono [of d db'] by (simp add: res(2))
  moreover have "outbox_issued db'"
    using P E(3) issued_mono by (fastforce simp: res(2) outbox_issued_def)
  moreover have "dlq_ok db'"
    using P E(2) ok1 by (simp add: res(2) runtime_ok_def same_registry_def dlq_ok_def)
  moreover have "event_dlq_ok ?d"
    using ok1 E(2) event_dlq_ok_mono [of ?db1 ?d] by (simp add: runtime_ok_def same_registry_def)
  then have "event_dlq_ok db'" using P by (simp add: res(2))
  ultimately show "runtime_ok db'" by (simp add: runtime_ok_def)
qed

text \<open>The two outcomes of a request before the legacy path: nothing to report, or a drift.\<close>

lemma track_contract_cases:
  assumes ok: "runtime_ok db"
    and up: "upsert_schema_version db (sm_namespace sub) (sm_service sub) (sm_method sub) (sm_route sub)
        (fingerprint (te_sha256 env) (canonicalize (JDict (sm_payload sub)))) (canonicalize (JDict (sm_payload sub))) ''SAFE''
      = ((e, name, rec, ins), db1)"
    and t: "track_contract env db sub st = (res, db', st')"
  obtains (silent) "\<not> ins \<or> sv_previous rec = None" "db' = db1"
      "res = Inr (track_response e name (sm_namespace sub) (sv_version rec)
        (fingerprint (te_sha256 env) (canonicalize (JDict (sm_payload sub)))) ins ''SAFE'' 0 0 (te_elapsed env))"
  | (failed) pid err where "ins" "sv_previous rec = Some pid" "db' = db1" "res = Inl err"
      "\<And>prior ds. row_at sv_id pid (versions db1) = Some prior \<Longrightarrow>
         diff_and_classify (sv_schema prior) (canonicalize (JDict (sm_payload sub))) \<noteq> Inr ds"
  | (drift) pid prior ds k where "ins" "sv_previous rec = Some pid" "row_at sv_id pid (versions db1) = Some prior"
      "diff_and_classify (sv_schema prior) (canonicalize (JDict (sm_payload sub))) = Inr ds"
      "handle_drift env db1 e name (sm_namespace sub) prior rec (compat_name (summarize_classification ds)) (map diff_json ds) = (k, db')"
      "res = Inr (track_response e name (sm_namespace sub) (sv_version rec)
        (fingerprint (te_sha256 env) (canonicalize (JDict (sm_payload sub)))) ins
        (compat_name (summarize_classification ds)) (length ds) k (te_elapsed env))"
proof (cases "prior_id ins rec")
  case None
  have "registry_ok db" using ok by (simp add: runtime_ok_def)
  from this up have "\<not> ins \<or> sv_previous rec = None"
  proof (cases rule: upsert_cases)
    case (inserted d1)
    from ensure_ok [OF \<open>registry_ok db\<close> inserted(1)]
    have v: "\<forall>v \<in> set (versions d1). issued (next_id d1) (sv_id v)"
      by (simp add: registry_ok_def versions_ok_def)
    have "sv_id c \<noteq> []" if "get_current_schema (versions d1) e = Some c" for c
    proof -
      from that have "c \<in> set (versions d1)"
        unfolding get_current_schema_def by (auto dest!: first_row_Some_set)
      then have "issued (next_id d1) (sv_id c)" using v by blast
      then show ?thesis unfolding issued_def using gen_uuid_ne by metis
    qed
    then show ?thesis
      using None inserted(2,4) by (cases "get_current_schema (versions d1) e") (simp_all add: prior_id_def next_row_def)
  qed simp
  then show thesis using t silent None by (simp add: track_contract_def up Let_def del: canonicalize.simps)
next
  case (Some pid)
  then have ins: "ins" and pid: "sv_previous rec = Some pid"
    by (auto simp: prior_id_def split: option.splits if_splits)
  show thesis
  proof (cases "row_at sv_id pid (versions db1)")
    case None
    then show thesis
      using t failed [of pid "RuntimeError ''No row was found when one was required''"] ins Some pid
      by (simp add: track_contract_def up Let_def del: canonicalize.simps)
  next
    case prior: (Some prior)
    show thesis
    proof (cases "diff_and_classify (sv_schema prior) (canonicalize (JDict (sm_payload sub)))")
      case (Inl err)
      have "res = Inl err" "db' = db1"
        using t Inl by (simp_all add: track_contract_def report_drift_def up Let_def Some prior del: canonicalize.simps)
      then show thesis by (intro failed [OF ins pid]) (use prior Inl in simp_all)
    next
      case (Inr ds)
      obtain k d where h: "handle_drift env db1 e name (sm_namespace sub) prior rec
          (compat_name (summarize_classification ds)) (map diff_json ds) = (k, d)" by (metis surj_pair)
      from t have "res = Inr (track_response e name (sm_namespace sub) (sv_version rec)
          (fingerprint (te_sha256 env) (canonicalize (JDict (sm_payload sub)))) ins
          (compat_name (summarize_classification ds)) (length ds) k (te_elapsed env))" "db' = d"
        by (simp_all add: track_contract_def report_drift_def up Let_def Some prior Inr h del: canonicalize.simps)
      then show thesis using drift [OF ins pid prior Inr] h by simp
    qed
  qed
qed

section \<open>Properties\<close>

text \<open>A request of the registry keeps every invariant of the runtime tables, whatever the consumers'
  servers and the publisher do and also when it fails: version chains and unique keys, distinct
  outbox identifiers, and both dead letter queues with gauges that match their rows.\<close>

theorem track_keeps_invariants:
  assumes "runtime_ok db" and "track_contract env db sub st = (res, db', st')"
  shows "runtime_ok db'"
proof -
  obtain e name rec ins db1 where up: "upsert_schema_version db (sm_namespace sub) (sm_service sub) (sm_method sub) (sm_route sub)
        (fingerprint (te_sha256 env) (canonicalize (JDict (sm_payload sub)))) (canonicalize (JDict (sm_payload sub))) ''SAFE''
      = ((e, name, rec, ins), db1)" by (metis surj_pair)
  note F = upsert_frame [OF assms(1) up]
  from assms(1) up assms(2) show ?thesis
  proof (cases rule: track_contract_cases)
    case (drift pid prior ds k)
    then show ?thesis using handle_drift_spec(1) [OF F(1) drift(5)] by simp
  qed (use F in simp_all)
qed

lemma track_keeps_invariants_witness:
  "runtime_ok (fst (snd (track_contract \<lparr>te_sha256 = id, te_post = (\<lambda>n u p. Response 500), te_publisher = (\<lambda>n e. Some ''down''),
      te_publisher_name = ''P'', te_inline = None, te_elapsed = ''0.1''\<rparr> (empty_rdb 0)
      \<lparr>sm_namespace = ''n'', sm_service = ''s'', sm_method = ''GET'', sm_route = ''/x'', sm_payload = [(''a'', JInt 1)]\<rparr> None)))"
  by (rule track_keeps_invariants [OF runtime_ok_empty]) (rule prod.collapse [symmetric, THEN trans], rule arg_cong [OF prod.collapse [symmetric]])

text \<open>A new schema of a known endpoint that can be compared: how the request goes on.\<close>

lemma track_drift:
  assumes "runtime_ok db"
    and "ensure_endpoint db (sm_namespace sub) (sm_service sub) (sm_method sub) (sm_route sub) = ((e, name), db)"
    and "get_current_schema (versions db) e = Some cur"
    and "find_version (versions db) e (fingerprint (te_sha256 env) (canonicalize (JDict (sm_payload sub)))) = None"
    and "diff_and_classify (sv_schema cur) (canonicalize (JDict (sm_payload sub))) = Inr ds"
    and "track_contract env db sub st = (res, db', st')"
  obtains db1 row prior k fp where
    "upsert_schema_version db (sm_namespace sub) (sm_service sub) (sm_method sub) (sm_route sub) fp
        (canonicalize (JDict (sm_payload sub))) ''SAFE'' = ((e, name, row, True), db1)"
    "find_version (versions db) e fp = None"
    "row = next_row (Some cur) (gen_uuid (next_id db)) e fp (canonicalize (JDict (sm_payload sub))) ''SAFE''"
    "db1 = db\<lparr>next_id := Suc (next_id db), versions := write_version (Some cur) row (versions db)\<rparr>"
    "handle_drift env db1 e name (sm_namespace sub) prior row (compat_name (summarize_classification ds)) (map diff_json ds) = (k, db')"
    "res = Inr (track_response e name (sm_namespace sub) (sv_version cur + 1) fp True
        (compat_name (summarize_classification ds)) (length ds) k (te_elapsed env))"
proof -
  define fp where "fp = fingerprint (te_sha256 env) (canonicalize (JDict (sm_payload sub)))"
  define s where "s = canonicalize (JDict (sm_payload sub))"
  define row where "row = next_row (Some cur) (gen_uuid (next_id db)) e fp s ''SAFE''"
  define db1 where "db1 = db\<lparr>next_id := Suc (next_id db), versions := write_version (Some cur) row (versions db)\<rparr>"
  note defs = fp_def s_def
  have up: "upsert_schema_version db (sm_namespace sub) (sm_service sub) (sm_method sub) (sm_route sub) fp s ''SAFE''
      = ((e, name, row, True), db1)"
    using assms(2-4) unfolding fp_def [symmetric]
    by (simp add: upsert_schema_version_def Let_def fresh_id_def row_def db1_def)
  have reg: "registry_ok db" using assms(1) by (simp add: runtime_ok_def)
  note F = upsert_frame [OF assms(1) up]
  have cur: "cur \<in> set (versions db)"
    using assms(3) unfolding get_current_schema_def by (auto dest!: first_row_Some_set)
  have row: "sv_previous row = Some (sv_id cur)" "sv_version row = sv_version cur + 1" "sv_schema row = s"
    by (simp_all add: row_def next_row_def)
  have prior_in: "cur\<lparr>sv_current := False\<rparr> \<in> set (versions db1)"
    using cur by (auto simp: db1_def write_version_def in_update_where)
  have ids: "distinct (map sv_id (versions db1))"
    using F(1) by (simp add: runtime_ok_def registry_ok_def versions_ok_def)
  have prior: "row_at sv_id (sv_id cur) (versions db1) = Some (cur\<lparr>sv_current := False\<rparr>)"
    using row_at_Some [OF ids prior_in] by simp
  have diff: "diff_and_classify (sv_schema (cur\<lparr>sv_current := False\<rparr>)) s = Inr ds"
    using assms(5) by (simp add: s_def del: canonicalize.simps)
  show thesis
    using assms(1) up [unfolded defs] assms(6)
  proof (cases rule: track_contract_cases)
    case silent
    then show thesis using row by simp
  next
    case (failed pid err)
    then show thesis using row(1) prior diff unfolding s_def by (metis option.inject)
  next
    case (drift pid prior' ds' k)
    have pid: "pid = sv_id cur" using drift(2) row(1) by simp
    have "prior' = cur\<lparr>sv_current := False\<rparr>" using drift(3) prior unfolding pid by simp
    then have ds: "ds' = ds" using drift(4) diff unfolding s_def by (metis sum.inject(2))
    have "find_version (versions db) e fp = None" using assms(4) by (simp only: fp_def)
    then show thesis
      using that up drift(5,6) row_def db1_def unfolding s_def fp_def [symmetric] ds row(2) by blast
  qed
qed

text \<open>C8: A drift is reported: when the payload of a known endpoint has a new schema, the endpoint's
  current version becomes the new one, classified with the worst class of the diff against the
  version that was current; the response carries this class and the number of changed paths; and
  every affected subscription gets exactly one outbox row with the drift, in the order of the
  subscriptions. The rows wait for the worker, or, when delivery is inline, have had their one
  attempt and are DELIVERED or FAILED; in both cases the pending gauge grows by their number.\<close>

theorem track_reports_drift:
  assumes "runtime_ok db"
    and "ensure_endpoint db (sm_namespace sub) (sm_service sub) (sm_method sub) (sm_route sub) = ((e, name), db)"
    and "get_current_schema (versions db) e = Some cur"
    and "find_version (versions db) e (fingerprint (te_sha256 env) (canonicalize (JDict (sm_payload sub)))) = None"
    and "diff_and_classify (sv_schema cur) (canonicalize (JDict (sm_payload sub))) = Inr ds"
    and "track_contract env db sub st = (res, db', st')"
  shows "(let verdict = compat_name (summarize_classification ds); version = sv_version cur + 1;
            affected = select_affected_subscriptions db e version verdict
      in (\<exists>r. res = Inr r \<and> map_of r ''compatibility_classification'' = Some (JStr verdict)
            \<and> map_of r ''diff_count'' = Some (JInt (int (length ds)))
            \<and> map_of r ''schema_version'' = Some (JInt version)
            \<and> map_of r ''affected_consumer_count'' = Some (JInt (int (length affected))))
        \<and> (\<exists>rec. get_current_schema (versions db') e = Some rec \<and> sv_version rec = version
            \<and> sv_class rec = verdict \<and> sv_previous rec = Some (sv_id cur)
            \<and> sv_schema rec = canonicalize (JDict (sm_payload sub)))
        \<and> (\<exists>ev rows. outbox db' = outbox db @ rows
            \<and> map (\<lambda>r. (ob_sub r, ob_endpoint r, ob_payload r)) rows
                = map (\<lambda>s. (sub_id s, e, drift_payload ev e verdict version (map diff_json ds))) affected
            \<and> list_all (\<lambda>r. if inline_delivery env then ob_status r \<in> {DELIVERED, FAILED} \<and> ob_attempts r = 1
                else ob_status r = PENDING \<and> ob_attempts r = 0 \<and> ob_max r = 5 \<and> ob_next r = now db) rows)
        \<and> outbox_pending_gauge db' = outbox_pending_gauge db + int (length affected))"
proof -
  obtain db1 row prior k fp where up: "upsert_schema_version db (sm_namespace sub) (sm_service sub) (sm_method sub) (sm_route sub) fp
        (canonicalize (JDict (sm_payload sub))) ''SAFE'' = ((e, name, row, True), db1)"
    and fp: "find_version (versions db) e fp = None"
    and row_eq: "row = next_row (Some cur) (gen_uuid (next_id db)) e fp (canonicalize (JDict (sm_payload sub))) ''SAFE''"
    and db1: "db1 = db\<lparr>next_id := Suc (next_id db), versions := write_version (Some cur) row (versions db)\<rparr>"
    and drift: "handle_drift env db1 e name (sm_namespace sub) prior row (compat_name (summarize_classification ds)) (map diff_json ds) = (k, db')"
    and res: "res = Inr (track_response e name (sm_namespace sub) (sv_version cur + 1) fp True
        (compat_name (summarize_classification ds)) (length ds) k (te_elapsed env))"
    by (rule track_drift [OF assms])
  have row: "sv_previous row = Some (sv_id cur)" "sv_version row = sv_version cur + 1"
    "sv_schema row = canonicalize (JDict (sm_payload sub))" unfolding row_eq by (simp_all only: next_row_def) simp_all
  note F = upsert_frame [OF assms(1) up]
  have reg: "registry_ok db" using assms(1) by (simp add: runtime_ok_def)
  note H = handle_drift_spec [OF F(1) drift, unfolded row(2)]
  let ?c = "compat_name (summarize_classification ds)"
  have sel: "select_affected_subscriptions db1 e (sv_version cur + 1) ?c = select_affected_subscriptions db e (sv_version cur + 1) ?c"
    using F(4) by (simp add: select_affected_subscriptions_def)
  have rows1: "rows_of (versions db1) e = extend_rows (rows_of (versions db) e) row"
    using upsert_inserted_rows [OF reg assms(2) fp refl refl, of "canonicalize (JDict (sm_payload sub))" "''SAFE''" e]
    unfolding assms(3) row_eq [symmetric] db1 [symmetric] by simp
  let ?u = "\<lambda>v. v\<lparr>sv_class := ?c\<rparr>"
  have "rows_of (versions db') e = update_where (\<lambda>v. sv_id v = sv_id row) ?u (rows_of (versions db1) e)"
    unfolding H(3) by (rule rows_of_update) simp
  then have last: "rows_of (versions db') e \<noteq> []" "last (rows_of (versions db') e) = ?u row"
    unfolding rows1 by (simp_all add: extend_rows_def update_where_def)
  have "chain (rows_of (versions db') e)"
    using H(1) by (simp add: runtime_ok_def registry_ok_def versions_ok_def)
  then have "get_current_schema (versions db') e = Some (?u row)"
    using get_current_chain last by simp
  then have c2: "\<exists>rec. get_current_schema (versions db') e = Some rec \<and> sv_version rec = sv_version cur + 1
      \<and> sv_class rec = ?c \<and> sv_previous rec = Some (sv_id cur) \<and> sv_schema rec = canonicalize (JDict (sm_payload sub))"
    using row by (intro exI [of _ "?u row"]) simp
  have c1: "\<exists>r. res = Inr r \<and> map_of r ''compatibility_classification'' = Some (JStr ?c)
      \<and> map_of r ''diff_count'' = Some (JInt (int (length ds))) \<and> map_of r ''schema_version'' = Some (JInt (sv_version cur + 1))
      \<and> map_of r ''affected_consumer_count''
        = Some (JInt (int (length (select_affected_subscriptions db e (sv_version cur + 1) ?c))))"
    using res H(4) unfolding sel by (simp add: track_response_def)
  show ?thesis
    unfolding Let_def using c1 c2 H(5) [unfolded F(3,5) sel] H(6) [unfolded F(6) H(4) sel] by blast
qed

text \<open>An endpoint with one version and a subscriber, and a request that loses the version's only field.\<close>

definition demo_tracked :: rdb where
  "demo_tracked = (empty_rdb 0)\<lparr>next_id := 2,
     endpoints := [\<lparr>re_id = gen_uuid 0, re_namespace = ''n'', re_service = ''s'', re_method = ''GET'', re_route = ''/x'',
       re_name = ''s GET /x''\<rparr>],
     versions := [\<lparr>sv_id = gen_uuid 1, sv_endpoint = gen_uuid 0, sv_version = 1, sv_fingerprint = ''old'',
       sv_schema = canonicalize (JDict [(''a'', JInt 1)]), sv_class = ''SAFE'', sv_previous = None, sv_current = True\<rparr>],
     subscriptions := [(demo_sub True)\<lparr>sub_endpoint := gen_uuid 0\<rparr>]\<rparr>"

definition demo_env :: track_env where
  "demo_env = \<lparr>te_sha256 = (\<lambda>s. ''new''), te_post = (\<lambda>n u p. Response 500), te_publisher = (\<lambda>n e. Some ''down''),
     te_publisher_name = ''P'', te_inline = None, te_elapsed = ''0.1''\<rparr>"

definition demo_submission :: "json pydict \<Rightarrow> submission" where
  "demo_submission p = \<lparr>sm_namespace = ''n'', sm_service = ''s'', sm_method = ''GET'', sm_route = ''/x'', sm_payload = p\<rparr>"

lemma demo_tracked_ok: "runtime_ok demo_tracked"
proof -
  have "issued 2 (gen_uuid 0)" "issued 2 (gen_uuid 1)" by (auto simp: issued_def)
  then show ?thesis
    by (simp add: runtime_ok_def registry_ok_def endpoints_ok_def versions_ok_def rows_of_def chain_def
        outbox_issued_def dlq_ok_def event_dlq_ok_def demo_tracked_def empty_rdb_def)
qed

definition demo_lost :: diff_item where
  "demo_lost = \<lparr>di_path = ''a'', di_old_type = Some ''integer'', di_new_type = None, di_old_nullable = Some False,
    di_new_nullable = None, di_class = BREAKING, di_reason = ''removed required field''\<rparr>"

lemma demo_drift:
  shows "ensure_endpoint demo_tracked (sm_namespace (demo_submission [])) (sm_service (demo_submission []))
      (sm_method (demo_submission [])) (sm_route (demo_submission [])) = ((gen_uuid 0, ''s GET /x''), demo_tracked)"
    and "get_current_schema (versions demo_tracked) (gen_uuid 0) = Some (hd (versions demo_tracked))"
    and "find_version (versions demo_tracked) (gen_uuid 0)
      (fingerprint (te_sha256 demo_env) (canonicalize (JDict (sm_payload (demo_submission []))))) = None"
    and "diff_and_classify (sv_schema (hd (versions demo_tracked))) (canonicalize (JDict (sm_payload (demo_submission []))))
      = Inr [demo_lost]"
    and "compat_name (summarize_classification [demo_lost]) = ''BREAKING''"
proof -
  have "ensure_endpoint demo_tracked ''n'' ''s'' ''GET'' ''/x'' = ((gen_uuid 0, ''s GET /x''), demo_tracked)"
    by (simp add: ensure_endpoint_def demo_tracked_def reg_key_def Let_def)
  then show "ensure_endpoint demo_tracked (sm_namespace (demo_submission [])) (sm_service (demo_submission []))
      (sm_method (demo_submission [])) (sm_route (demo_submission [])) = ((gen_uuid 0, ''s GET /x''), demo_tracked)"
    by (simp add: demo_submission_def)
  show "get_current_schema (versions demo_tracked) (gen_uuid 0) = Some (hd (versions demo_tracked))"
    by (simp add: get_current_schema_def demo_tracked_def sort_desc_def)
  show "find_version (versions demo_tracked) (gen_uuid 0)
      (fingerprint (te_sha256 demo_env) (canonicalize (JDict (sm_payload (demo_submission []))))) = None"
    by (simp add: find_version_def demo_tracked_def demo_env_def fingerprint_def)
  have "diff_and_classify (canonicalize (JDict [(''a'', JInt 1)])) (canonicalize (JDict [])) = Inr [demo_lost]" by code_simp
  then show "diff_and_classify (sv_schema (hd (versions demo_tracked))) (canonicalize (JDict (sm_payload (demo_submission []))))
      = Inr [demo_lost]"
    by (simp add: demo_tracked_def demo_submission_def)
  show "compat_name (summarize_classification [demo_lost]) = ''BREAKING''" by code_simp
qed

lemma track_reports_drift_witness:
  "\<exists>r db' st'. track_contract demo_env demo_tracked (demo_submission []) None = (Inr r, db', st')
    \<and> map_of r ''compatibility_classification'' = Some (JStr ''BREAKING'')"
proof -
  obtain res db' st' where t: "track_contract demo_env demo_tracked (demo_submission []) None = (res, db', st')"
    by (metis prod_cases3)
  from track_reports_drift [OF demo_tracked_ok demo_drift(1-4) t] t demo_drift(5) show ?thesis by (auto simp: Let_def)
qed

text \<open>A request is silent when its schema is known for the endpoint, also when it is an older one
  than the current version, or is the endpoint's first: the response says SAFE with no diffs, and no
  consumer, outbox row, delivery, event or drift count follows.\<close>

theorem known_schema_is_silent:
  assumes "runtime_ok db"
    and "ensure_endpoint db (sm_namespace sub) (sm_service sub) (sm_method sub) (sm_route sub) = ((e, name), db0)"
    and "find_version (versions db) e (fingerprint (te_sha256 env) (canonicalize (JDict (sm_payload sub)))) \<noteq> None
      \<or> get_current_schema (versions db) e = None"
    and "track_contract env db sub st = (res, db', st')"
  shows "(\<exists>r. res = Inr r \<and> map_of r ''compatibility_classification'' = Some (JStr ''SAFE'')
        \<and> map_of r ''diff_count'' = Some (JInt 0) \<and> map_of r ''affected_consumer_count'' = Some (JInt 0))
    \<and> outbox db' = outbox db \<and> outbox_pending_gauge db' = outbox_pending_gauge db \<and> attempts db' = attempts db
    \<and> dlq db' = dlq db \<and> event_dlq db' = event_dlq db \<and> drift_total db' = drift_total db
    \<and> (get_current_schema (versions db) e \<noteq> None
        \<longrightarrow> get_current_schema (versions db') e = get_current_schema (versions db) e)"
proof -
  define fp where "fp = fingerprint (te_sha256 env) (canonicalize (JDict (sm_payload sub)))"
  define s where "s = canonicalize (JDict (sm_payload sub))"
  obtain e' name' rec ins db1 where up: "upsert_schema_version db (sm_namespace sub) (sm_service sub) (sm_method sub)
      (sm_route sub) fp s ''SAFE'' = ((e', name', rec, ins), db1)" by (metis surj_pair)
  have reg: "registry_ok db" using assms(1) by (simp add: runtime_ok_def)
  note F = upsert_frame [OF assms(1) up]
  have v0: "versions db0 = versions db" using ensure_ok(2) [OF reg assms(2)] .
  have silent: "(\<not> ins \<or> sv_previous rec = None) \<and> (get_current_schema (versions db) e \<noteq> None
      \<longrightarrow> get_current_schema (versions db1) e = get_current_schema (versions db) e)"
    using reg up
  proof (cases rule: upsert_cases)
    case (found d1)
    then have "d1 = db0" "e' = e" using assms(2) by simp_all
    then show ?thesis using found v0 by simp
  next
    case (inserted d1)
    then have d1: "d1 = db0" "e' = e" using assms(2) by simp_all
    then have "get_current_schema (versions db) e = None"
      using assms(3) inserted(3) v0 unfolding fp_def [symmetric] by auto
    then show ?thesis using inserted(4) d1 v0 by (simp add: next_row_def)
  qed
  have t: "track_contract env db sub st = (res, db', st')" by (rule assms)
  show ?thesis
    using assms(1) up [unfolded fp_def s_def] t
  proof (cases rule: track_contract_cases)
    case silent': silent
    have "\<exists>r. res = Inr r \<and> map_of r ''compatibility_classification'' = Some (JStr ''SAFE'')
        \<and> map_of r ''diff_count'' = Some (JInt 0) \<and> map_of r ''affected_consumer_count'' = Some (JInt 0)"
      unfolding silent'(3) by (simp add: track_response_def)
    then show ?thesis
      using F silent unfolding silent'(2) by (cases "get_current_schema (versions db) e") simp_all
  next
    case (failed pid err)
    then show ?thesis using silent by simp
  next
    case (drift pid prior ds k)
    then show ?thesis using silent by simp
  qed
qed

lemma known_schema_is_silent_witness:
  "\<exists>r db' st'. track_contract demo_env (demo_tracked\<lparr>versions := []\<rparr>) (demo_submission []) None = (Inr r, db', st')
    \<and> map_of r ''diff_count'' = Some (JInt 0) \<and> outbox db' = []"
proof -
  let ?db = "demo_tracked\<lparr>versions := []\<rparr>"
  obtain res db' st' where t: "track_contract demo_env ?db (demo_submission []) None = (res, db', st')"
    by (metis prod_cases3)
  have ok: "runtime_ok ?db"
  proof -
    have "issued 2 (gen_uuid 0)" by (auto simp: issued_def)
    then show ?thesis
      by (simp add: runtime_ok_def registry_ok_def endpoints_ok_def versions_ok_def rows_of_def chain_def
          outbox_issued_def dlq_ok_def event_dlq_ok_def demo_tracked_def empty_rdb_def)
  qed
  have "ensure_endpoint ?db ''n'' ''s'' ''GET'' ''/x'' = ((gen_uuid 0, ''s GET /x''), ?db)"
    by (simp add: ensure_endpoint_def demo_tracked_def reg_key_def Let_def)
  then have e: "ensure_endpoint ?db (sm_namespace (demo_submission [])) (sm_service (demo_submission []))
      (sm_method (demo_submission [])) (sm_route (demo_submission [])) = ((gen_uuid 0, ''s GET /x''), ?db)"
    by (simp add: demo_submission_def)
  have "get_current_schema (versions ?db) (gen_uuid 0) = None" by (simp add: get_current_schema_def)
  with known_schema_is_silent [OF ok e _ t] t show ?thesis by (auto simp: demo_tracked_def empty_rdb_def)
qed

end
