(* ===== verification/Outbox_Live.thy ===== *)
theory Outbox_Live
  imports Track_Facts
begin

text \<open>
  The outbox worker over many polls: every pending row is resolved after a bounded number of polls,
  and a row that failed is in the dead letter queue of its consumer. Together with the request path
  this is what the outbox promises for a reported drift.
\<close>

section \<open>Dead letters\<close>

text \<open>A dead letter for the event of a payload and a consumer; a payload without an event identifier
  is sent under a fresh one.\<close>

definition names_event :: "json \<Rightarrow> string \<Rightarrow> bool" where
  "names_event payload ev \<longleftrightarrow>
     (case jget payload ''event_id'' of Some v \<Rightarrow> truthy v \<longrightarrow> ev = py_str v | None \<Rightarrow> True)"

definition has_letter :: "rdb \<Rightarrow> json \<Rightarrow> string \<Rightarrow> bool" where
  "has_letter db payload consumer \<longleftrightarrow>
     (\<exists>ev. names_event payload ev \<and> row_at dlq_key (ev, consumer) (dlq db) \<noteq> None)"

definition letters_kept :: "rdb \<Rightarrow> rdb \<Rightarrow> bool" where
  "letters_kept db db' \<longleftrightarrow> subscriptions db' = subscriptions db
     \<and> (\<forall>k. row_at dlq_key k (dlq db) \<noteq> None \<longrightarrow> row_at dlq_key k (dlq db') \<noteq> None)"

lemma letters_kept_trans: "letters_kept a b \<Longrightarrow> letters_kept b c \<Longrightarrow> letters_kept a c"
  by (simp add: letters_kept_def)

lemma has_letter_kept: "letters_kept db db' \<Longrightarrow> has_letter db p c \<Longrightarrow> has_letter db' p c"
  unfolding letters_kept_def has_letter_def by blast

lemma upsert_dlq_kept: "letters_kept db (upsert_dlq db ev c e url p r n)"
proof -
  have "row_at dlq_key k (dlq (upsert_dlq db ev c e url p r n)) \<noteq> None" if "row_at dlq_key k (dlq db) \<noteq> None" for k
    using that upsert_dlq_other [of k ev c db e url p r n] upsert_dlq_row [of ev c db e url p r n]
    by (cases "k = (ev, c)") auto
  moreover have "subscriptions (upsert_dlq db ev c e url p r n) = subscriptions db"
    by (simp add: upsert_dlq_def fresh_id_def Let_def case_prod_unfold)
  ultimately show ?thesis unfolding letters_kept_def by blast
qed

lemma delivery_loop_dlq:
  "delivery_loop post ev e sub p m False db ks = (ok, db') \<Longrightarrow> dlq db' = dlq db"
  by (induction ks arbitrary: db) (auto simp: Let_def split: if_splits)

lemma delivery_kept:
  assumes "deliver_with_retry post db ev e sub p m False = (ok, db')"
  shows "letters_kept db db'"
  using assms deliver_frame [OF assms] delivery_loop_dlq
  by (auto simp: letters_kept_def deliver_with_retry_def split: if_splits)

lemma set_outbox_kept: "letters_kept (set_outbox i f db) db' \<longleftrightarrow> letters_kept db db'"
  "letters_kept db (set_outbox i f db') \<longleftrightarrow> letters_kept db db'"
  by (simp_all add: letters_kept_def)

lemma item_event_names: "item_event p db = (ev, db') \<Longrightarrow> names_event p ev"
  by (auto simp: item_event_def names_event_def split: option.splits if_splits)

lemma item_letters:
  assumes "deliver_item post json_loads item db = (err, db')"
  shows "letters_kept db db'"
    and "item_result post json_loads item db = Exhausted \<Longrightarrow>
      \<exists>sub. get_subscription db (ob_sub item) = Some sub \<and> has_letter db' (ob_payload item) (sub_consumer sub)"
proof -
  let ?db1 = "set_outbox (ob_id item) (\<lambda>r. r\<lparr>ob_status := DELIVERING\<rparr>) db"
  have same: "letters_kept db db" by (simp add: letters_kept_def)
  have "letters_kept db db' \<and> (item_result post json_loads item db = Exhausted \<longrightarrow>
      (\<exists>sub. get_subscription db (ob_sub item) = Some sub \<and> has_letter db' (ob_payload item) (sub_consumer sub)))"
  proof (cases "get_subscription db (ob_sub item)")
    case None
    then show ?thesis using assms same by (auto simp: deliver_item_def item_result_def set_outbox_kept)
  next
    case (Some sub)
    obtain ev db2 where ev: "item_event (ob_payload item) ?db1 = (ev, db2)" by (metis surj_pair)
    have k2: "letters_kept db db2" using item_event_frame [OF ev] by (simp add: letters_kept_def)
    show ?thesis
    proof (cases "item_body json_loads (ob_payload item)")
      case (Inl x)
      then show ?thesis using assms k2 by (auto simp: deliver_item_def Some ev item_result_def)
    next
      case (Inr body)
      obtain ok db3 where d: "deliver_with_retry post db2 ev (ob_endpoint item) sub body 1 False = (ok, db3)" by (metis surj_pair)
      have k3: "letters_kept db db3" by (rule letters_kept_trans [OF k2 delivery_kept [OF d]])
      have next2: "next_id db2 = next_id (snd (item_event (ob_payload item) db))"
        using item_event_next ev by (metis snd_conv)
      show ?thesis
      proof (cases "\<not> ok \<and> ob_max item \<le> ob_attempts item + 1")
        case True
        let ?db4 = "set_outbox (ob_id item) (\<lambda>r. r\<lparr>ob_status := FAILED, ob_attempts := ob_attempts item + 1\<rparr>) db3"
        from True obtain url p r n where db': "db' = upsert_dlq ?db4 ev (sub_consumer sub) (ob_endpoint item) url p r n"
          using assms by (auto simp: deliver_item_def Some ev Inr d Let_def)
        have "letters_kept db ?db4" using k3 by (simp add: set_outbox_kept)
        then have "letters_kept db db'" unfolding db' by (rule letters_kept_trans [OF _ upsert_dlq_kept])
        moreover have "row_at dlq_key (ev, sub_consumer sub) (dlq db') \<noteq> None"
          unfolding db' using upsert_dlq_row [of ev "sub_consumer sub" ?db4 "ob_endpoint item" url p r n] by auto
        then have "has_letter db' (ob_payload item) (sub_consumer sub)"
          unfolding has_letter_def using item_event_names [OF ev] by blast
        ultimately show ?thesis using Some by blast
      next
        case False
        then have "letters_kept db db'"
          using assms k3 by (auto simp: deliver_item_def Some ev Inr d Let_def set_outbox_kept split: if_splits)
        moreover have "ok \<longleftrightarrow> sub_active sub \<and> is_ok (post (next_id db2) (sub_url sub) body)"
          using deliver_once [of post db2] d by (metis fst_conv)
        with False have "item_result post json_loads item db \<noteq> Exhausted"
          by (auto simp: item_result_def Some Inr next2 split: if_splits)
        ultimately show ?thesis by blast
      qed
    qed
  qed
  then show "letters_kept db db'" and "item_result post json_loads item db = Exhausted \<Longrightarrow>
      \<exists>sub. get_subscription db (ob_sub item) = Some sub \<and> has_letter db' (ob_payload item) (sub_consumer sub)"
    by blast+
qed

section \<open>One poll\<close>

definition readable :: "outbox_row \<Rightarrow> bool" where
  "readable r \<longleftrightarrow> is_dict (ob_payload r)"

text \<open>A row is settled: delivered, or failed with its subscription gone or with a dead letter.\<close>

definition settled :: "rdb \<Rightarrow> outbox_row \<Rightarrow> bool" where
  "settled db r \<longleftrightarrow> ob_status r = DELIVERED \<or> ob_status r = FAILED \<and>
     (case get_subscription db (ob_sub r) of None \<Rightarrow> True | Some sub \<Rightarrow> has_letter db (ob_payload r) (sub_consumer sub))"

lemma kept_subscription: "letters_kept db db' \<Longrightarrow> get_subscription db' s = get_subscription db s"
  by (simp add: letters_kept_def get_subscription_def)

lemma settled_kept: "letters_kept db db' \<Longrightarrow> settled db r \<Longrightarrow> settled db' r"
  using has_letter_kept by (auto simp: settled_def kept_subscription split: option.splits)

text \<open>The row after a poll that handled it: settled, or waiting with one attempt more.\<close>

definition retried :: "moment \<Rightarrow> outbox_row \<Rightarrow> outbox_row \<Rightarrow> bool" where
  "retried t it r \<longleftrightarrow> r = row_after Retry t it \<and> ob_attempts it + 1 < ob_max it"

lemma readable_item:
  assumes "readable item" "deliver_item post json_loads item db = (err, db')" "outbox_row_at db (ob_id item) = Some item"
  shows "err = None \<and> (\<exists>r. outbox_row_at db' (ob_id item) = Some r \<and> ob_sub r = ob_sub item \<and> ob_payload r = ob_payload item
    \<and> ob_max r = ob_max item \<and> (settled db' r \<or> retried (now db) item r))"
proof -
  let ?res = "item_result post json_loads item db"
  note D = deliver_item_row [OF assms(3,2)] and L = item_letters [OF assms(2)]
  have sub: "get_subscription db' s = get_subscription db s" for s by (rule kept_subscription [OF L(1)])
  have "?res \<noteq> Unreadable"
    using assms(1) by (cases "ob_payload item") (auto simp: readable_def item_result_def item_body_def split: option.splits)
  moreover have "settled db' (row_after ?res (now db) item) \<or> retried (now db) item (row_after ?res (now db) item)"
  proof (cases ?res)
    case NoSubscription
    then have "get_subscription db (ob_sub item) = None" by (auto simp: item_result_def split: option.splits sum.splits if_splits)
    then show ?thesis using NoSubscription by (simp add: settled_def row_after_def sub)
  next
    case Exhausted
    with L(2) show ?thesis by (auto simp: settled_def row_after_def sub)
  next
    case Retry
    with item_result_Retry [OF Retry] show ?thesis by (simp add: retried_def)
  qed (use \<open>?res \<noteq> Unreadable\<close> in \<open>simp_all add: settled_def row_after_def\<close>)
  moreover have "ob_sub (row_after x t r) = ob_sub r \<and> ob_payload (row_after x t r) = ob_payload r \<and> ob_max (row_after x t r) = ob_max r" for x t r
    by (cases x) (simp_all add: row_after_def)
  ultimately show ?thesis using D(1,3) by blast
qed

lemma process_readable:
  assumes "distinct (map ob_id items)" "\<And>it. it \<in> set items \<Longrightarrow> outbox_row_at db (ob_id it) = Some it \<and> readable it"
    and "process_items post json_loads items n db = (err, k, db')"
  shows "err = None \<and> letters_kept db db' \<and> (\<forall>it \<in> set items. \<exists>r. outbox_row_at db' (ob_id it) = Some r \<and> ob_sub r = ob_sub it
    \<and> ob_payload r = ob_payload it \<and> ob_max r = ob_max it \<and> (settled db' r \<or> retried (now db) it r))"
  using assms
proof (induction items arbitrary: n db)
  case Nil
  then show ?case by (simp add: letters_kept_def)
next
  case (Cons it items)
  obtain e db1 where d: "deliver_item post json_loads it db = (e, db1)" by (metis surj_pair)
  have own: "outbox_row_at db (ob_id it) = Some it" "readable it" using Cons.prems(2) by simp_all
  note D = deliver_item_row [OF own(1) d] and K = item_letters(1) [OF d]
  from readable_item [OF own(2) d own(1)] obtain r where r: "e = None" "outbox_row_at db1 (ob_id it) = Some r"
    "ob_sub r = ob_sub it" "ob_payload r = ob_payload it" "ob_max r = ob_max it" "settled db1 r \<or> retried (now db) it r" by blast
  have rows: "outbox_row_at db1 (ob_id x) = Some x \<and> readable x" if "x \<in> set items" for x
  proof -
    have "ob_id x \<noteq> ob_id it" using Cons.prems(1) that by (metis distinct.simps(2) image_eqI list.simps(9) set_map)
    then show ?thesis using D(2) Cons.prems(2) that by simp
  qed
  have p: "process_items post json_loads items (n + 1) db1 = (err, k, db')" using Cons.prems(3) by (simp add: d r(1))
  have dist: "distinct (map ob_id items)" "ob_id it \<notin> ob_id ` set items" using Cons.prems(1) by simp_all
  from Cons.IH [OF dist(1) rows p] have IH: "err = None" "letters_kept db1 db'"
    "\<forall>it \<in> set items. \<exists>r. outbox_row_at db' (ob_id it) = Some r \<and> ob_sub r = ob_sub it
      \<and> ob_payload r = ob_payload it \<and> ob_max r = ob_max it \<and> (settled db' r \<or> retried (now db1) it r)" by blast+
  have "outbox_row_at db' (ob_id it) = Some r"
    using process_items_rows [OF dist(1) _ p] rows dist(2) r(2) by simp
  moreover have "settled db' r \<or> retried (now db) it r" using r(6) settled_kept [OF IH(2)] by blast
  moreover have "letters_kept db db'" by (rule letters_kept_trans [OF K IH(2)])
  ultimately show ?case using IH(1,3) r(3,4,5) D(4) by auto
qed

lemma poll_readable:
  assumes "distinct (outbox_ids db)" "\<And>r. r \<in> set (outbox db) \<Longrightarrow> ob_status r = PENDING \<Longrightarrow> readable r"
    and p: "poll_once post json_loads b db = (res, db')"
  shows "res = Inr (int (length (fetch_due db b))) \<and> letters_kept db db' \<and> now db' = now db \<and> outbox_ids db' = outbox_ids db
    \<and> (\<forall>i. i \<notin> ob_id ` set (fetch_due db b) \<longrightarrow> outbox_row_at db' i = outbox_row_at db i)
    \<and> (\<forall>it \<in> set (fetch_due db b). \<exists>r. outbox_row_at db' (ob_id it) = Some r \<and> ob_sub r = ob_sub it
        \<and> ob_payload r = ob_payload it \<and> ob_max r = ob_max it \<and> (settled db' r \<or> retried (now db) it r))"
proof -
  note F = fetch_due_rows [OF assms(1)]
  have mem: "it \<in> set (outbox db)" if "outbox_row_at db i = Some it" for i it
    using that unfolding outbox_row_at_def by (rule row_at_SomeD [THEN conjunct1])
  have ready: "outbox_row_at db (ob_id it) = Some it \<and> readable it" if "it \<in> set (fetch_due db b)" for it
    using F(2) [OF that] assms(2) mem by (auto simp: due_def)
  obtain err k db1 where q: "process_items post json_loads (fetch_due db b) 0 db = (err, k, db1)" by (metis prod_cases3)
  note P = process_readable [OF F(1) ready q]
  then have res: "res = Inr k" "db' = db1\<lparr>outbox_pending_gauge := int (pending_count db1)\<rparr>"
    using p q by (simp_all add: poll_once_def)
  have same: "outbox_row_at db' i = outbox_row_at db1 i" for i by (simp add: res(2) outbox_row_at_def)
  have kept: "letters_kept db1 db'" by (simp add: letters_kept_def res(2))
  have "k = int (length (fetch_due db b))"
    using poll_rows [OF assms(1) p] F(3) [of b] res(1) by simp
  moreover have "letters_kept db db'" using P kept letters_kept_trans by blast
  moreover have "\<forall>it \<in> set (fetch_due db b). \<exists>r. outbox_row_at db' (ob_id it) = Some r \<and> ob_sub r = ob_sub it
        \<and> ob_payload r = ob_payload it \<and> ob_max r = ob_max it \<and> (settled db' r \<or> retried (now db) it r)"
    unfolding same using P settled_kept [OF kept] by blast
  ultimately show ?thesis using poll_rows [OF assms(1) p] res(1) by blast
qed

section \<open>Many polls\<close>

text \<open>The attempts a row has left, and all of them.\<close>

definition attempts_left :: "outbox_row \<Rightarrow> nat" where
  "attempts_left r = (if ob_status r = PENDING then nat (ob_max r - ob_attempts r) else 0)"

definition work :: "rdb \<Rightarrow> nat" where
  "work db = sum_list (map attempts_left (outbox db))"

text \<open>Pending rows have attempts left, can be read and are due within the longest backoff.\<close>

definition worker_ok :: "rdb \<Rightarrow> bool" where
  "worker_ok db \<longleftrightarrow> outbox_ok db
     \<and> (\<forall>r \<in> set (outbox db). ob_status r = PENDING \<longrightarrow> readable r \<and> ob_next r \<le> now db + seconds 60)"

text \<open>What is promised for the pending rows of \<open>db0\<close>: they are settled or still pending.\<close>

definition promised :: "rdb \<Rightarrow> rdb \<Rightarrow> bool" where
  "promised db0 db \<longleftrightarrow> (\<forall>r0 \<in> set (outbox db0). ob_status r0 = PENDING \<longrightarrow>
     (\<exists>r. outbox_row_at db (ob_id r0) = Some r \<and> ob_sub r = ob_sub r0 \<and> ob_payload r = ob_payload r0
        \<and> (settled db r \<or> ob_status r = PENDING)))"

lemma row_mem: "outbox_row_at db i = Some r \<Longrightarrow> r \<in> set (outbox db) \<and> ob_id r = i"
  unfolding outbox_row_at_def by (rule row_at_SomeD)

lemma row_of: "outbox_ok db \<Longrightarrow> r \<in> set (outbox db) \<Longrightarrow> outbox_row_at db (ob_id r) = Some r"
  unfolding outbox_row_at_def outbox_ok_def by (rule row_at_Some) simp_all

lemma work_by_id:
  assumes "outbox_ok db"
  shows "work db = (\<Sum>i \<in> set (outbox_ids db). attempts_left (the (outbox_row_at db i)))"
proof -
  have d: "distinct (outbox_ids db)" using assms by (simp add: outbox_ok_def)
  have "map (\<lambda>i. attempts_left (the (outbox_row_at db i))) (outbox_ids db) = map attempts_left (outbox db)"
    using row_of [OF assms] by simp
  then show ?thesis unfolding work_def sum_list_distinct_conv_sum_set [OF d, symmetric] by (simp only:)
qed

lemma pending_work:
  assumes "outbox_ok db" "r \<in> set (outbox db)" "ob_status r = PENDING" shows "0 < work db"
proof -
  have "row_bounded r" using assms by (simp add: outbox_ok_def list_all_iff)
  then have "0 < attempts_left r" using assms(3) by (simp add: row_bounded_def attempts_left_def)
  moreover have "attempts_left r \<le> work db" unfolding work_def using assms(2) by (simp add: member_le_sum_list)
  ultimately show ?thesis by linarith
qed

lemma poll_work:
  assumes ok: "worker_ok db" and p: "poll_once post json_loads b db = (res, db')"
  shows "worker_ok db'" and "work db' + length (fetch_due db b) \<le> work db"
    and "res = Inr (int (length (fetch_due db b)))" and "letters_kept db db'" and "now db' = now db"
    and "fetch_due db b = [] \<Longrightarrow> outbox db' = outbox db"
    and "promised db0 db \<Longrightarrow> promised db0 db'"
proof -
  let ?F = "fetch_due db b"
  have oo: "outbox_ok db" using ok by (simp add: worker_ok_def)
  then have d: "distinct (outbox_ids db)" by (simp add: outbox_ok_def)
  have oo': "outbox_ok db'" by (rule poll_keeps_ok [OF oo p])
  have R: "res = Inr (int (length ?F))" "letters_kept db db'" "now db' = now db" "outbox_ids db' = outbox_ids db"
    "\<And>i. i \<notin> ob_id ` set ?F \<Longrightarrow> outbox_row_at db' i = outbox_row_at db i"
    and handled: "\<And>it. it \<in> set ?F \<Longrightarrow> \<exists>r. outbox_row_at db' (ob_id it) = Some r \<and> ob_sub r = ob_sub it
        \<and> ob_payload r = ob_payload it \<and> ob_max r = ob_max it \<and> (settled db' r \<or> retried (now db) it r)"
    using poll_readable [OF d _ p] ok unfolding worker_ok_def by blast+
  show "res = Inr (int (length ?F))" "letters_kept db db'" "now db' = now db" by (fact R)+
  note F = fetch_due_rows [OF d, where b = b]
  have due: "it \<in> set (outbox db) \<and> ob_status it = PENDING" if "it \<in> set ?F" for it
    using F(2) [OF that] row_mem by (auto simp: due_def)
  have settled_np: "ob_status r \<noteq> PENDING" if "settled x r" for x r using that by (auto simp: settled_def)
  have less: "attempts_left (the (outbox_row_at db' i)) + (if i \<in> ob_id ` set ?F then 1 else 0)
      \<le> attempts_left (the (outbox_row_at db i))" for i
  proof (cases "i \<in> ob_id ` set ?F")
    case True
    then obtain it where it: "it \<in> set ?F" "i = ob_id it" by blast
    from handled [OF it(1)] obtain r where r: "outbox_row_at db' i = Some r" "ob_max r = ob_max it"
      "settled db' r \<or> retried (now db) it r" unfolding it(2) by blast
    have "row_bounded it" using due [OF it(1)] oo by (simp add: outbox_ok_def list_all_iff)
    then have "0 < attempts_left it" "attempts_left it = nat (ob_max it - ob_attempts it)"
      using due [OF it(1)] by (simp_all add: row_bounded_def attempts_left_def)
    moreover have "attempts_left r = 0 \<or> attempts_left r = nat (ob_max it - (ob_attempts it + 1))"
      using r(3) settled_np by (auto simp: attempts_left_def retried_def row_after_def)
    ultimately show ?thesis using r(1) F(2) [OF it(1)] it(2) True by auto
  qed (simp add: R(5))
  have "card (ob_id ` set ?F) = length ?F" using F(1) by (metis distinct_card length_map set_map)
  moreover have sub: "ob_id ` set ?F \<subseteq> set (outbox_ids db)" using due by auto
  then have "(\<Sum>i \<in> set (outbox_ids db). if i \<in> ob_id ` set ?F then 1 else 0) = card (ob_id ` set ?F)"
    by (simp add: sum.If_cases Int_absorb1 Int_commute)
  ultimately have "(\<Sum>i \<in> set (outbox_ids db). attempts_left (the (outbox_row_at db' i))) + length ?F
      = (\<Sum>i \<in> set (outbox_ids db). attempts_left (the (outbox_row_at db' i)) + (if i \<in> ob_id ` set ?F then 1 else 0))"
    by (simp add: sum.distrib)
  also have "\<dots> \<le> (\<Sum>i \<in> set (outbox_ids db). attempts_left (the (outbox_row_at db i)))"
    by (rule sum_mono) (rule less)
  finally show "work db' + length ?F \<le> work db"
    unfolding work_by_id [OF oo] work_by_id [OF oo'] R(4) .
  show "worker_ok db'"
    unfolding worker_ok_def
  proof (intro conjI oo' ballI impI)
    fix r assume r: "r \<in> set (outbox db')" "ob_status r = PENDING"
    have row: "outbox_row_at db' (ob_id r) = Some r" by (rule row_of [OF oo' r(1)])
    have "readable r \<and> ob_next r \<le> now db' + seconds 60"
    proof (cases "ob_id r \<in> ob_id ` set ?F")
      case True
      then obtain it where it: "it \<in> set ?F" "ob_id r = ob_id it" by blast
      from handled [OF it(1)] row r(2) settled_np have ret: "retried (now db) it r" "ob_payload r = ob_payload it" unfolding it(2) by auto
      have "backoff_seconds n \<le> 60" for n by (simp add: backoff_seconds_def)
      then have "ob_next r \<le> now db' + seconds 60"
        using ret(1) by (simp add: retried_def row_after_def seconds_def R(3))
      moreover have "readable r" using ok due [OF it(1)] ret(2) by (simp add: worker_ok_def readable_def)
      ultimately show ?thesis by blast
    next
      case False
      then have "r \<in> set (outbox db)" using R(5) [of "ob_id r"] row row_mem by metis
      then show ?thesis using ok r(2) by (simp add: worker_ok_def R(3))
    qed
    then show "readable r" "ob_next r \<le> now db' + seconds 60" by blast+
  qed
  show "outbox db' = outbox db" if "?F = []"
  proof -
    have "outbox x = map (\<lambda>i. the (outbox_row_at x i)) (outbox_ids x)" if "outbox_ok x" for x
      using row_of [OF that] by (simp add: map_idI)
    from this [OF oo] this [OF oo'] show ?thesis using R(5) that unfolding R(4) by simp
  qed
  show "promised db0 db'" if "promised db0 db"
    unfolding promised_def
  proof (intro ballI impI)
    fix r0 assume r0: "r0 \<in> set (outbox db0)" "ob_status r0 = PENDING"
    with that obtain r where r: "outbox_row_at db (ob_id r0) = Some r" "ob_sub r = ob_sub r0" "ob_payload r = ob_payload r0"
      "settled db r \<or> ob_status r = PENDING" unfolding promised_def by blast
    show "\<exists>r. outbox_row_at db' (ob_id r0) = Some r \<and> ob_sub r = ob_sub r0 \<and> ob_payload r = ob_payload r0
        \<and> (settled db' r \<or> ob_status r = PENDING)"
    proof (cases "ob_id r0 \<in> ob_id ` set ?F")
      case True
      then obtain it where it: "it \<in> set ?F" "ob_id r0 = ob_id it" by blast
      then have "it = r" using F(2) [OF it(1)] r(1) by simp
      with handled [OF it(1)] it(2) r(2,3) show ?thesis by (auto simp: retried_def row_after_def)
    next
      case False
      with r R(5) settled_kept [OF R(2)] show ?thesis by auto
    qed
  qed
qed

text \<open>One turn of the worker's loop: a poll and the sleep after it.\<close>

definition turn :: "http_post \<Rightarrow> (string \<Rightarrow> py_error + json) \<Rightarrow> nat \<Rightarrow> rdb \<Rightarrow> rdb" where
  "turn post json_loads t db = (let (res, db) = poll_once post json_loads 50 db in db\<lparr>now := now db + worker_sleep t res\<rparr>)"

lemma run_turn:
  "run_outbox_worker post json_loads t (Suc n) db = run_outbox_worker post json_loads t n (turn post json_loads t db)"
  by (simp add: turn_def split: prod.split)

lemma run_add:
  "run_outbox_worker post json_loads t (m + n) db
    = run_outbox_worker post json_loads t n (run_outbox_worker post json_loads t m db)"
  by (induction m arbitrary: db) (simp_all only: add_0 add_Suc run_turn run_outbox_worker.simps(1))

lemma waited:
  assumes "worker_ok db"
  shows "worker_ok (db\<lparr>now := now db + d\<rparr>)" and "promised db0 db \<Longrightarrow> promised db0 (db\<lparr>now := now db + d\<rparr>)"
proof -
  show "worker_ok (db\<lparr>now := now db + d\<rparr>)" using assms by (auto simp: worker_ok_def outbox_ok_def)
  have "letters_kept db (db\<lparr>now := now db + d\<rparr>)" by (simp add: letters_kept_def)
  from settled_kept [OF this] show "promised db0 (db\<lparr>now := now db + d\<rparr>)" if "promised db0 db"
    using that by (fastforce simp: promised_def outbox_row_at_def)
qed

lemma turn_work:
  assumes ok: "worker_ok db"
  shows "worker_ok (turn post json_loads t db)"
    and "work (turn post json_loads t db) + length (fetch_due db 50) \<le> work db"
    and "promised db0 db \<Longrightarrow> promised db0 (turn post json_loads t db)"
    and "fetch_due db 50 = [] \<Longrightarrow> outbox (turn post json_loads t db) = outbox db
      \<and> now (turn post json_loads t db) = now db + t"
proof -
  obtain res db1 where p: "poll_once post json_loads 50 db = (res, db1)" by (metis surj_pair)
  note P = poll_work [OF ok p]
  have t: "turn post json_loads t db = db1\<lparr>now := now db1 + worker_sleep t res\<rparr>" by (simp add: turn_def p)
  show "worker_ok (turn post json_loads t db)" unfolding t by (rule waited(1) [OF P(1)])
  show "work (turn post json_loads t db) + length (fetch_due db 50) \<le> work db"
    using P(2) unfolding t work_def by simp
  show "promised db0 (turn post json_loads t db)" if "promised db0 db"
    unfolding t by (rule waited(2) [OF P(1) P(7) [OF that]])
  show "outbox (turn post json_loads t db) = outbox db \<and> now (turn post json_loads t db) = now db + t"
    if "fetch_due db 50 = []"
    using P(3,5) P(6) [OF that] that unfolding t by (simp add: worker_sleep_def)
qed

lemma run_work:
  assumes "worker_ok db"
  shows "worker_ok (run_outbox_worker post json_loads t n db)"
    and "work (run_outbox_worker post json_loads t n db) \<le> work db"
    and "promised db0 db \<Longrightarrow> promised db0 (run_outbox_worker post json_loads t n db)"
proof -
  have "worker_ok (run_outbox_worker post json_loads t n db)
    \<and> work (run_outbox_worker post json_loads t n db) \<le> work db
    \<and> (promised db0 db \<longrightarrow> promised db0 (run_outbox_worker post json_loads t n db))"
    using assms
  proof (induction n arbitrary: db)
    case (Suc n)
    note T = turn_work [OF Suc.prems, where post = post and json_loads = json_loads and t = t]
    from Suc.IH [OF T(1)] T(2) T(3) show ?case unfolding run_turn by force
  qed simp
  then show "worker_ok (run_outbox_worker post json_loads t n db)"
    "work (run_outbox_worker post json_loads t n db) \<le> work db"
    "promised db0 db \<Longrightarrow> promised db0 (run_outbox_worker post json_loads t n db)" by blast+
qed

lemma run_kept:
  assumes "worker_ok db"
  shows "letters_kept db (run_outbox_worker post json_loads t n db)"
  using assms
proof (induction n arbitrary: db)
  case (Suc n)
  obtain res db1 where p: "poll_once post json_loads 50 db = (res, db1)" by (metis surj_pair)
  have "letters_kept db (turn post json_loads t db)"
    using poll_work(4) [OF Suc.prems p] by (simp add: turn_def p letters_kept_def)
  then show ?case
    unfolding run_turn using letters_kept_trans Suc.IH [OF turn_work(1) [OF Suc.prems]] by blast
qed (simp add: letters_kept_def)

text \<open>A pending row that is due within \<open>m\<close> sleeps is handled, or another one is, within \<open>m + 1\<close> polls.\<close>

lemma next_work:
  assumes "worker_ok db" "r \<in> set (outbox db)" "ob_status r = PENDING" "ob_next r \<le> now db + m * t"
  shows "\<exists>k \<le> m. work (run_outbox_worker post json_loads t (Suc k) db) < work db"
  using assms
proof (induction m arbitrary: db)
  case 0
  then have "r \<in> set (filter (due db) (outbox db))" by (simp add: due_def)
  then have "0 < length (filter (due db) (outbox db))" by (rule length_pos_if_in_set)
  moreover have "distinct (outbox_ids db)" using 0(1) by (simp add: worker_ok_def outbox_ok_def)
  ultimately have "0 < length (fetch_due db 50)" using fetch_due_rows(3) by simp
  with turn_work(2) [OF 0(1), of post json_loads t] have "work (turn post json_loads t db) < work db" by linarith
  then show ?case unfolding run_turn by simp
next
  case (Suc m)
  note T = turn_work [OF Suc.prems(1), where post = post and json_loads = json_loads and t = t]
  show ?case
  proof (cases "fetch_due db 50 = []")
    case True
    note same = T(4) [OF True]
    have "r \<in> set (outbox (turn post json_loads t db))" "ob_next r \<le> now (turn post json_loads t db) + m * t"
      using same Suc.prems(2,4) by simp_all
    from Suc.IH [OF T(1) this(1) Suc.prems(3) this(2)] obtain k where
      k: "k \<le> m" "work (run_outbox_worker post json_loads t (Suc k) (turn post json_loads t db)) < work (turn post json_loads t db)"
      by blast
    have "work (run_outbox_worker post json_loads t (Suc (Suc k)) db) < work db"
      unfolding run_turn [of _ _ _ "Suc k"] using k(2) T(2) by linarith
    then show ?thesis using k(1) by (intro exI [of _ "Suc k"]) simp
  next
    case False
    then have "0 < length (fetch_due db 50)" by blast
    with T(2) have "work (turn post json_loads t db) < work db" by linarith
    then show ?thesis by (intro exI [of _ 0]) (simp only: run_turn, simp)
  qed
qed

text \<open>The polls that one attempt may take: those of the longest backoff, and the one that makes it.\<close>

definition polls_per_attempt :: "nat \<Rightarrow> nat" where
  "polls_per_attempt t = (seconds 60 + t - 1) div t + 1"

lemma work_runs_out:
  assumes "worker_ok db" "0 < t"
  shows "work (run_outbox_worker post json_loads t (work db * polls_per_attempt t) db) = 0"
  using assms(1)
proof (induction "work db" arbitrary: db rule: less_induct)
  case less
  show ?case
  proof (cases "work db = 0")
    case False
    then obtain r where r: "r \<in> set (outbox db)" "ob_status r = PENDING"
      unfolding work_def by (auto simp: attempts_left_def split: if_splits)
    let ?m = "(seconds 60 + t - 1) div t"
    have "seconds 60 \<le> ?m * t" using assms(2) div_mult_mod_eq [of "seconds 60 + t - 1" t] mod_less_divisor [OF assms(2), of "seconds 60 + t - 1"]
      by linarith
    moreover have "ob_next r \<le> now db + seconds 60" using less.prems r by (simp add: worker_ok_def)
    ultimately have "ob_next r \<le> now db + ?m * t" by linarith
    from next_work [OF less.prems r this, of post json_loads] obtain k where
      k: "k \<le> ?m" "work (run_outbox_worker post json_loads t (Suc k) db) < work db" by blast
    let ?db = "run_outbox_worker post json_loads t (Suc k) db"
    have ok: "worker_ok ?db" by (rule run_work(1) [OF less.prems])
    have "work (run_outbox_worker post json_loads t (work ?db * polls_per_attempt t) ?db) = 0"
      by (rule less.hyps [OF k(2) ok])
    moreover have "Suc k + work ?db * polls_per_attempt t \<le> work db * polls_per_attempt t"
    proof -
      have "Suc (work ?db) * polls_per_attempt t \<le> work db * polls_per_attempt t" using k(2) by (intro mult_le_mono1) simp
      moreover have "Suc k \<le> polls_per_attempt t" using k(1) by (simp add: polls_per_attempt_def)
      ultimately show ?thesis by simp
    qed
    then obtain d where "work db * polls_per_attempt t = Suc k + work ?db * polls_per_attempt t + d" by (metis le_add_diff_inverse)
    ultimately show ?thesis
      using run_work(2) [OF run_work(1) [OF ok]] by (metis run_add le_zero_eq)
  qed simp
qed

lemma pending_row_resolved:
  assumes "worker_ok db" and "0 < t" and "work db * polls_per_attempt t \<le> n"
    and "r \<in> set (outbox db)" and "ob_status r = PENDING"
  shows "\<exists>r'. outbox_row_at (run_outbox_worker post json_loads t n db) (ob_id r) = Some r'
    \<and> ob_sub r' = ob_sub r \<and> ob_payload r' = ob_payload r
    \<and> settled (run_outbox_worker post json_loads t n db) r'"
proof -
  let ?run = "\<lambda>n. run_outbox_worker post json_loads t n db"
  have "outbox_ok db" using assms(1) by (simp add: worker_ok_def)
  then have "promised db db" using row_of unfolding promised_def by blast
  then have "promised db (?run n)" by (rule run_work(3) [OF assms(1)])
  then obtain r' where r': "outbox_row_at (?run n) (ob_id r) = Some r'" "ob_sub r' = ob_sub r" "ob_payload r' = ob_payload r"
    "settled (?run n) r' \<or> ob_status r' = PENDING" using assms(4,5) unfolding promised_def by blast
  obtain d where d: "n = work db * polls_per_attempt t + d" using assms(3) by (metis le_add_diff_inverse)
  have "work (?run n) \<le> work (?run (work db * polls_per_attempt t))"
    unfolding d run_add by (rule run_work(2) [OF run_work(1) [OF assms(1)]])
  then have "work (?run n) = 0" using work_runs_out [OF assms(1,2)] by simp
  moreover have "outbox_ok (?run n)" using run_work(1) [OF assms(1)] by (simp add: worker_ok_def)
  ultimately have "ob_status r' \<noteq> PENDING" using pending_work row_mem [OF r'(1)] by fastforce
  then show ?thesis using r' by blast
qed

text \<open>Liveness of the outbox. Take any state in which pending rows hold readable payloads and are
  due within the longest backoff, as the request path, the replays and the worker itself leave them.
  However the consumers answer, once the worker has polled often enough for the attempts that are
  left, each spread over a full backoff, every row that was pending is resolved: it is delivered, or
  it failed and either its subscription is gone or the dead letter queue holds the event for its
  consumer. No pending notification is dropped and none waits for ever.\<close>

theorem outbox_resolves_every_row:
  assumes "worker_ok db" and "0 < t" and "work db * polls_per_attempt t \<le> n"
    and "r \<in> set (outbox db)" and "ob_status r = PENDING"
  shows "\<exists>r'. outbox_row_at (run_outbox_worker post json_loads t n db) (ob_id r) = Some r'
    \<and> ob_sub r' = ob_sub r \<and> ob_payload r' = ob_payload r
    \<and> settled (run_outbox_worker post json_loads t n db) r'"
  by (rule pending_row_resolved [OF assms])

text \<open>A consumer that always answers 503: with a sleep of 15 seconds, 25 polls are enough for the
  five attempts of the row, and it ends in the dead letter queue of its subscriber.\<close>

lemma outbox_resolves_every_row_witness:
  "\<exists>r'. outbox_row_at (run_outbox_worker (\<lambda>n url p. Response 503) (\<lambda>s. Inr JNull) 15000000 25 demo_outbox) ''o'' = Some r'
    \<and> ob_sub r' = ''s'' \<and> settled (run_outbox_worker (\<lambda>n url p. Response 503) (\<lambda>s. Inr JNull) 15000000 25 demo_outbox) r'"
proof -
  have "worker_ok demo_outbox"
    by (simp add: worker_ok_def outbox_ok_def row_bounded_def demo_outbox_def demo_row_def readable_def)
  moreover have "work demo_outbox * polls_per_attempt 15000000 \<le> 25"
    by (simp add: work_def demo_outbox_def demo_row_def attempts_left_def polls_per_attempt_def seconds_def)
  moreover have "demo_row \<in> set (outbox demo_outbox)" "ob_status demo_row = PENDING" "ob_id demo_row = ''o''" "ob_sub demo_row = ''s''"
    by (simp_all add: demo_outbox_def demo_row_def)
  ultimately show ?thesis
    using outbox_resolves_every_row [of demo_outbox 15000000 25 demo_row "\<lambda>n url p. Response 503" "\<lambda>s. Inr JNull"] by auto
qed

section \<open>From a request to its subscribers\<close>

text \<open>Rows that the request path leaves to the worker.\<close>

lemma worker_ok_append:
  assumes "worker_ok db" "outbox db' = outbox db @ rows" "now db' = now db" "outbox_issued db'"
    and new: "\<And>r. r \<in> set rows \<Longrightarrow> ob_status r = PENDING \<and> ob_attempts r = 0 \<and> ob_max r = 5 \<and> ob_next r = now db \<and> readable r"
  shows "worker_ok db'"
proof -
  have "row_bounded r" if "r \<in> set rows" for r using new [OF that] by (simp add: row_bounded_def)
  moreover have "\<forall>r \<in> set (outbox db). row_bounded r" using assms(1) by (simp add: worker_ok_def outbox_ok_def list_all_iff)
  ultimately have "outbox_ok db'" using assms(2,4) unfolding outbox_ok_def outbox_issued_def list_all_iff by auto
  then show ?thesis using assms(1,2,3) new unfolding worker_ok_def by auto
qed

text \<open>The event of a drift payload is the one the payload names.\<close>

lemma drift_letter:
  assumes "has_letter db (drift_payload ev e c v ds) consumer" "ev \<noteq> []"
  shows "row_at dlq_key (ev, consumer) (dlq db) \<noteq> None"
  using assms by (auto simp: has_letter_def names_event_def drift_payload_def)

text \<open>C14: End to end delivery of a drift. When delivery is left to the worker, a request with a new
  schema for a known endpoint leaves every affected subscription a row with the drift, and after the
  polls that the attempts in the outbox may take, however the consumers answer, this row is delivered
  or it failed and the dead letter queue holds the event for the consumer of the subscription. This
  composes the request path, the registry, the outbox, the deliveries and the dead letter queue.\<close>

theorem drift_reaches_every_subscriber:
  assumes "runtime_ok db" and "worker_ok db" and "\<not> inline_delivery env"
    and "ensure_endpoint db (sm_namespace sub) (sm_service sub) (sm_method sub) (sm_route sub) = ((e, name), db)"
    and "get_current_schema (versions db) e = Some cur"
    and "find_version (versions db) e (fingerprint (te_sha256 env) (canonicalize (JDict (sm_payload sub)))) = None"
    and "diff_and_classify (sv_schema cur) (canonicalize (JDict (sm_payload sub))) = Inr ds"
    and "track_contract env db sub st = (res, db', st')"
    and "0 < t" and "work db' * polls_per_attempt t \<le> n"
  shows "let verdict = compat_name (summarize_classification ds); version = sv_version cur + 1;
             db'' = run_outbox_worker post json_loads t n db'
         in \<exists>ev. \<forall>s \<in> set (select_affected_subscriptions db e version verdict).
           \<exists>i r. outbox_row_at db'' i = Some r \<and> outbox_row_at db i = None \<and> ob_sub r = sub_id s
             \<and> ob_payload r = drift_payload ev e verdict version (map diff_json ds)
             \<and> (ob_status r = DELIVERED \<or> ob_status r = FAILED \<and> (\<exists>sub. get_subscription db (sub_id s) = Some sub
                  \<and> row_at dlq_key (ev, sub_consumer sub) (dlq db'') \<noteq> None))"
proof -
  let ?c = "compat_name (summarize_classification ds)" and ?v = "sv_version cur + 1"
  obtain db1 row prior k fp where up: "upsert_schema_version db (sm_namespace sub) (sm_service sub) (sm_method sub) (sm_route sub) fp
        (canonicalize (JDict (sm_payload sub))) ''SAFE'' = ((e, name, row, True), db1)"
    and row: "row = next_row (Some cur) (gen_uuid (next_id db)) e fp (canonicalize (JDict (sm_payload sub))) ''SAFE''"
    and drift: "handle_drift env db1 e name (sm_namespace sub) prior row ?c (map diff_json ds) = (k, db')"
    by (rule track_drift [OF assms(1,4-8)])
  have version: "sv_version row = ?v" unfolding row next_row_def by simp
  note F = upsert_frame [OF assms(1) up]
  note H = handle_drift_spec [OF F(1) drift, unfolded version F(3,5)]
  have sel: "select_affected_subscriptions db1 e ?v ?c = select_affected_subscriptions db e ?v ?c"
    using F(4) by (simp add: select_affected_subscriptions_def)
  let ?subs = "select_affected_subscriptions db e ?v ?c"
  obtain ev rows where ev: "ev \<noteq> []" and rows: "outbox db' = outbox db @ rows"
    "map (\<lambda>r. (ob_sub r, ob_endpoint r, ob_payload r)) rows = map (\<lambda>s. (sub_id s, e, drift_payload ev e ?c ?v (map diff_json ds))) ?subs"
    "\<And>r. r \<in> set rows \<Longrightarrow> ob_status r = PENDING \<and> ob_attempts r = 0 \<and> ob_max r = 5 \<and> ob_next r = now db"
    using H(5) assms(3) unfolding sel list_all_iff by auto
  let ?view = "\<lambda>r. (ob_sub r, ob_endpoint r, ob_payload r)"
  have views: "?view ` set rows = (\<lambda>s. (sub_id s, e, drift_payload ev e ?c ?v (map diff_json ds))) ` set ?subs"
    using arg_cong [OF rows(2), of set] by simp
  have "readable r" if "r \<in> set rows" for r
  proof -
    have "?view r \<in> ?view ` set rows" using that by blast
    then have "ob_payload r = drift_payload ev e ?c ?v (map diff_json ds)" unfolding views by auto
    then show ?thesis by (simp add: readable_def drift_payload_def)
  qed
  moreover have issued': "outbox_issued db'" using H(1) by (simp add: runtime_ok_def)
  ultimately have ok: "worker_ok db'" using worker_ok_append [OF assms(2) rows(1) H(7)] rows(3) by blast
  let ?run = "run_outbox_worker post json_loads t n db'" and ?p = "drift_payload ev e ?c ?v (map diff_json ds)"
  have subs: "get_subscription ?run x = get_subscription db x" for x
    using run_kept [OF ok] H(8) F(4) unfolding letters_kept_def get_subscription_def by metis
  have each: "\<exists>i r. outbox_row_at ?run i = Some r \<and> outbox_row_at db i = None \<and> ob_sub r = sub_id s \<and> ob_payload r = ?p
      \<and> (ob_status r = DELIVERED \<or> ob_status r = FAILED \<and> (\<exists>sub. get_subscription db (sub_id s) = Some sub
          \<and> row_at dlq_key (ev, sub_consumer sub) (dlq ?run) \<noteq> None))" if s: "s \<in> set ?subs" for s
  proof -
    from s views obtain r where r: "r \<in> set rows" "?view r = (sub_id s, e, ?p)" by (metis (no_types, lifting) imageE imageI)
    then have "r \<in> set (outbox db')" by (simp add: rows(1))
    from pending_row_resolved [OF ok assms(9,10) this rows(3) [OF r(1), THEN conjunct1], of post json_loads] obtain r' where
      r': "outbox_row_at ?run (ob_id r) = Some r'" "ob_sub r' = sub_id s" "ob_payload r' = ?p" "settled ?run r'" using r(2) by auto
    have "ob_id r \<notin> ob_id ` set (outbox db)" using issued' r(1) unfolding outbox_issued_def rows(1) by auto
    then have "outbox_row_at db (ob_id r) = None" using row_mem by (metis image_eqI option.exhaust)
    moreover have "s \<in> set (subscriptions db)" using s by (simp add: select_affected_subscriptions_def)
    then have "filter (\<lambda>x. sub_id x = sub_id s) (subscriptions db) \<noteq> []" by (auto simp: filter_empty_conv)
    then obtain sub where "get_subscription db (sub_id s) = Some sub"
      unfolding get_subscription_def by (cases "filter (\<lambda>x. sub_id x = sub_id s) (subscriptions db)") simp_all
    ultimately show ?thesis using r' drift_letter [OF _ ev] unfolding settled_def subs by fastforce
  qed
  show ?thesis unfolding Let_def using each by blast
qed

text \<open>The endpoint loses its only field, its consumer never answers, and the worker polls every 15
  seconds: the breaking drift ends in the dead letter queue.\<close>

lemma drift_reaches_every_subscriber_witness:
  "\<exists>db' n i r. fst (snd (track_contract (demo_env\<lparr>te_inline := Some ''false''\<rparr>) demo_tracked (demo_submission []) None)) = db'
    \<and> outbox_row_at (run_outbox_worker (\<lambda>n url p. Response 500) (\<lambda>s. Inr JNull) 15000000 n db') i = Some r
    \<and> ob_sub r = ''s'' \<and> ob_status r \<in> {DELIVERED, FAILED}"
proof -
  let ?env = "demo_env\<lparr>te_inline := Some ''false''\<rparr>" and ?post = "\<lambda>(n :: nat) (url :: string) (p :: json). Response 500"
  let ?loads = "(\<lambda>s. Inr JNull) :: string \<Rightarrow> py_error + json"
  obtain res db' st' where t: "track_contract ?env demo_tracked (demo_submission []) None = (res, db', st')"
    by (metis prod_cases3)
  have ok: "worker_ok demo_tracked" by (simp add: worker_ok_def outbox_ok_def demo_tracked_def empty_rdb_def)
  have wait: "\<not> inline_delivery ?env" by (simp add: inline_delivery_def py_lower_def char_lower_def)
  have fp: "find_version (versions demo_tracked) (gen_uuid 0)
      (fingerprint (te_sha256 ?env) (canonicalize (JDict (sm_payload (demo_submission []))))) = None"
    using demo_drift(3) by simp
  have "(demo_sub True)\<lparr>sub_endpoint := gen_uuid 0\<rparr> \<in> set (select_affected_subscriptions demo_tracked (gen_uuid 0)
      (sv_version (hd (versions demo_tracked)) + 1) (compat_name (summarize_classification [demo_lost])))"
    unfolding demo_drift(5) by (simp add: select_affected_subscriptions_def affected_by_def threshold_rank_def severity_rank_def demo_tracked_def demo_sub_def)
  moreover have "sub_id ((demo_sub True)\<lparr>sub_endpoint := gen_uuid 0\<rparr>) = ''s''" by (simp add: demo_sub_def)
  ultimately show ?thesis
    using drift_reaches_every_subscriber [OF demo_tracked_ok ok wait demo_drift(1,2) fp demo_drift(4) t, of 15000000 _ ?post ?loads, OF _ order_refl]
      t unfolding Let_def by fastforce
qed

end
