(* ===== verification/Simulation.thy ===== *)
theory Simulation
  imports Track
begin

text \<open>
  \<^verbatim>\<open>scripts/simulate_drift.py\<close>: the payloads of the load simulation, its run against the request
  path and the checks at its end. The requests are sent concurrently; the advisory lock of a route
  makes them one sequence, whose order is the argument \<open>ks\<close>. The two connections of the script, the
  clock and the artifact file are left out; a failed assertion is its message.
\<close>

definition payload_variant :: "nat \<Rightarrow> json pydict" where
  "payload_variant i =
     (let base = [(''user_id'', JInt (int i)),
                  (''meta'', JDict [(''tags'', JList [JStr ''admin'', JStr ''staff'']), (''active'', JBool True)]),
                  (''score'', JInt 42), (''price'', JFloat ''42.5'')];
          phase = i mod 5
      in if phase = 1 then dict_set ''optional'' JNull base
         else if phase = 2 then dict_set ''score'' (JFloat ''42.5'') base
         else if phase = 3 then dict_set ''price'' (JInt 42) base
         else if phase = 4 then filter (\<lambda>(k, v). k \<noteq> ''meta'') base
         else base)"

definition simulated :: "nat \<Rightarrow> submission" where
  "simulated i = \<lparr>sm_namespace = ''default'', sm_service = ''chaos-client'', sm_method = ''POST'',
     sm_route = ''/mocked/contracts'', sm_payload = payload_variant i\<rparr>"

text \<open>\<open>_submit\<close>: whether the answer is 200, and the tables after it.\<close>

definition submit :: "track_env \<Rightarrow> nat \<Rightarrow> rdb \<times> mem_store option \<Rightarrow> bool \<times> rdb \<times> mem_store option" where
  "submit env i = (\<lambda>(db, st).
     (case track_payload env db (simulated i) st of
        (Inr r, db', st') \<Rightarrow> (True, db', st')
      | (Inl e, db', st') \<Rightarrow> (False, db', st')))"

record simulation_result =
  sr_total :: nat
  sr_success :: nat
  sr_failure :: nat

fun submit_all :: "track_env \<Rightarrow> nat list \<Rightarrow> rdb \<times> mem_store option \<Rightarrow> bool list \<times> rdb \<times> mem_store option" where
  "submit_all env [] s = ([], s)"
| "submit_all env (k # ks) s =
     (let (ok, s) = submit env k s; (oks, s) = submit_all env ks s in (ok # oks, s))"

definition run_simulation ::
  "track_env \<Rightarrow> nat list \<Rightarrow> rdb \<times> mem_store option \<Rightarrow> simulation_result \<times> rdb \<times> mem_store option" where
  "run_simulation env ks s =
     (let (results, s) = submit_all env ks s; success = length (filter id results)
      in (\<lparr>sr_total = length ks, sr_success = success, sr_failure = length ks - success\<rparr>, s))"

text \<open>The three \<open>DELETE\<close>s before the run.\<close>

definition clear_legacy :: "rdb \<Rightarrow> rdb" where
  "clear_legacy db = db\<lparr>drift_violations := [], schema_snapshots := [], api_endpoints := []\<rparr>"

text \<open>The queries after it: the endpoints of the route and their snapshots, the violations by
  severity, and the active baselines beyond the first of an endpoint.\<close>

definition route_ids :: "rdb \<Rightarrow> string list" where
  "route_ids db = map ae_id (filter (\<lambda>a. ae_route a = ''/mocked/contracts'') (api_endpoints db))"

definition severity_count :: "rdb \<Rightarrow> string \<Rightarrow> nat" where
  "severity_count db s = (case map_of (count_by dv_severity (drift_violations db)) s of None \<Rightarrow> 0 | Some n \<Rightarrow> n)"

definition duplicate_baselines :: "rdb \<Rightarrow> nat" where
  "duplicate_baselines db = sum_list (map (\<lambda>(e, n). n - 1)
     (filter (\<lambda>(e, n). n > 1) (count_by ss_endpoint (filter ss_baseline (schema_snapshots db)))))"

record sim_artifact =
  sa_total :: nat
  sa_success :: nat
  sa_failure :: nat
  sa_safe :: nat
  sa_risky :: nat
  sa_breaking :: nat
  sa_duplicates :: nat

definition simulation_main ::
  "track_env \<Rightarrow> nat list \<Rightarrow> rdb \<times> mem_store option \<Rightarrow> string + sim_artifact" where
  "simulation_main env ks = (\<lambda>(db, st).
     (let (result, db, st) = run_simulation env ks (clear_legacy db, st);
          endpoint_count = length (route_ids db);
          snapshot_count = length (filter (\<lambda>s. ss_endpoint s \<in> set (route_ids db)) (schema_snapshots db));
          safe = severity_count db ''SAFE''; risky = severity_count db ''RISKY'';
          breaking = severity_count db ''BREAKING''
      in if sr_failure result \<noteq> 0 then Inl ''simulation encountered failed submissions''
         else if endpoint_count \<noteq> 1 then Inl (''expected exactly one endpoint row, got '' @ show_nat endpoint_count)
         else if snapshot_count < 1 then Inl ''expected at least one schema snapshot''
         else if safe = 0 then Inl ''expected SAFE drift logs''
         else if risky = 0 then Inl ''expected RISKY drift logs''
         else if breaking = 0 then Inl ''expected BREAKING drift logs''
         else Inr \<lparr>sa_total = sr_total result, sa_success = sr_success result, sa_failure = sr_failure result,
                sa_safe = safe, sa_risky = risky, sa_breaking = breaking, sa_duplicates = duplicate_baselines db\<rparr>))"

end
