(* ===== verification/Simulation_Facts.thy ===== *)
theory Simulation_Facts
  imports Simulation Classifier_Facts Track_Facts Legacy_Facts
begin

text \<open>
  Requests with plain payloads always succeed, and what the load simulation finds in the legacy
  tables is decided by the payload that arrives first.
\<close>

section \<open>Plain payloads never fail\<close>

definition plain_schemas :: "rdb \<Rightarrow> bool" where
  "plain_schemas db \<longleftrightarrow> (\<forall>v \<in> set (versions db). \<exists>p. plain p \<and> sv_schema v = canonicalize p)"

lemma plain_schemas_update:
  assumes "plain_schemas db" "\<And>v. sv_schema (f v) = sv_schema v"
  shows "\<forall>v \<in> set (update_where q f (versions db)). \<exists>p. plain p \<and> sv_schema v = canonicalize p"
proof
  fix v assume "v \<in> set (update_where q f (versions db))"
  then obtain r where r: "r \<in> set (versions db)" "v = (if q r then f r else r)" unfolding in_update_where by blast
  then have "sv_schema v = sv_schema r" using assms(2) by simp
  then show "\<exists>p. plain p \<and> sv_schema v = canonicalize p" using assms(1) r(1) unfolding plain_schemas_def by simp
qed

lemma plain_track_contract:
  assumes ok: "runtime_ok db" "plain_schemas db" "plain (JDict (sm_payload sub))"
    and t: "track_contract env db sub st = (res, db', st')"
  shows "(\<exists>r. res = Inr r) \<and> runtime_ok db' \<and> plain_schemas db' \<and> same_legacy db db'"
proof -
  let ?s = "canonicalize (JDict (sm_payload sub))" and ?fp = "fingerprint (te_sha256 env) (canonicalize (JDict (sm_payload sub)))"
  obtain e name rec ins db1 where up: "upsert_schema_version db (sm_namespace sub) (sm_service sub) (sm_method sub) (sm_route sub)
        ?fp ?s ''SAFE'' = ((e, name, rec, ins), db1)" by (metis surj_pair)
  note F = upsert_frame [OF ok(1) up]
  have reg: "registry_ok db" using ok(1) by (simp add: runtime_ok_def)
  have ids: "distinct (map sv_id (versions db1))"
    using F(1) by (simp add: runtime_ok_def registry_ok_def versions_ok_def)
  have "plain_schemas db1 \<and> (ins \<longrightarrow> (\<forall>pid. sv_previous rec = Some pid \<longrightarrow> row_at sv_id pid (versions db1) \<noteq> None))"
    using reg up
  proof (cases rule: upsert_cases)
    case (found d)
    then show ?thesis using ensure_ok(2) [OF reg found(1)] ok(2) by (simp add: plain_schemas_def)
  next
    case (inserted d)
    have v: "versions d = versions db" by (rule ensure_ok(2) [OF reg inserted(1)])
    let ?cur = "get_current_schema (versions d) e"
    have rec: "sv_schema rec = ?s" "sv_previous rec = map_option sv_id ?cur" by (simp_all add: inserted(4) next_row_def)
    have new: "\<exists>p. plain p \<and> sv_schema rec = canonicalize p" using ok(3) rec(1) by blast
    have "\<forall>x \<in> set (write_version ?cur rec (versions d)). \<exists>p. plain p \<and> sv_schema x = canonicalize p"
      using plain_schemas_update [OF ok(2), of "\<lambda>v. v\<lparr>sv_current := False\<rparr>"] ok(2) new
      unfolding v write_version_def plain_schemas_def by (auto split: option.splits simp del: canonicalize.simps)
    then have "plain_schemas db1" unfolding plain_schemas_def inserted(5) by simp
    moreover have "row_at sv_id pid (versions db1) \<noteq> None" if "sv_previous rec = Some pid" for pid
    proof -
      from that rec(2) obtain c where c: "?cur = Some c" "pid = sv_id c" by auto
      then have "c \<in> set (versions d)" unfolding get_current_schema_def by (auto dest!: first_row_Some_set)
      then have "pid \<in> set (map sv_id (versions d))" unfolding c(2) by simp
      then have "pid \<in> set (map sv_id (write_version ?cur rec (versions d)))" unfolding ids_write by simp
      then show ?thesis unfolding row_at_None inserted(5) by simp
    qed
    ultimately show ?thesis by blast
  qed
  then have pl: "plain_schemas db1" and row: "ins \<Longrightarrow> sv_previous rec = Some pid \<Longrightarrow> row_at sv_id pid (versions db1) \<noteq> None" for pid
    by blast+
  show ?thesis
    using ok(1) up t
  proof (cases rule: track_contract_cases)
    case silent
    then show ?thesis using F(1,2) pl by simp
  next
    case (failed pid err)
    from row [OF failed(1,2)] obtain prior where prior: "row_at sv_id pid (versions db1) = Some prior" by blast
    have "prior \<in> set (versions db1)" by (rule row_at_SomeD [OF prior, THEN conjunct1])
    from bspec [OF pl [unfolded plain_schemas_def] this]
    obtain p where p: "plain p" "sv_schema prior = canonicalize p" by blast
    from plain_diff_spec [OF p(1) ok(3)] obtain ds where "diff_and_classify (sv_schema prior) ?s = Inr ds"
      unfolding p(2) by blast
    with failed(5) [OF prior, of ds] show ?thesis by (rule notE)
  next
    case (drift pid prior ds k)
    note H = handle_drift_spec [OF F(1) drift(5)]
    have "plain_schemas db'"
      unfolding plain_schemas_def H(3) by (rule plain_schemas_update [OF pl]) simp
    moreover have "same_legacy db db'" using H(2) F(2) unfolding same_legacy_def by (metis le_trans)
    moreover have "\<exists>r. res = Inr r" unfolding drift(6) by blast
    ultimately show ?thesis using H(1) by blast
  qed
qed

text \<open>The legacy path changes the legacy tables only.\<close>

definition legacy_part_of :: "rdb \<Rightarrow> rdb \<Rightarrow> rdb" where
  "legacy_part_of db db' = db'\<lparr>next_id := next_id db, api_endpoints := api_endpoints db,
     schema_snapshots := schema_snapshots db, drift_violations := drift_violations db\<rparr>"

definition only_legacy :: "rdb \<Rightarrow> rdb \<Rightarrow> bool" where
  "only_legacy db db' \<longleftrightarrow> next_id db \<le> next_id db' \<and> legacy_part_of db db' = db"

lemma only_legacy_refl: "only_legacy db db"
  by (simp add: only_legacy_def legacy_part_of_def)

lemma only_legacy_trans:
  assumes "only_legacy a b" "only_legacy b c" shows "only_legacy a c"
proof -
  have "legacy_part_of a c = legacy_part_of a (legacy_part_of b c)" by (simp add: legacy_part_of_def)
  then show ?thesis using assms unfolding only_legacy_def by simp
qed

lemma only_legacy_ok:
  assumes "only_legacy db db'" shows "runtime_ok db \<Longrightarrow> runtime_ok db'" "plain_schemas db \<Longrightarrow> plain_schemas db'"
proof -
  have "outbox (legacy_part_of db db') = outbox db" "dlq (legacy_part_of db db') = dlq db"
    "dlq_size (legacy_part_of db db') = dlq_size db" "event_dlq (legacy_part_of db db') = event_dlq db"
    "event_dlq_size (legacy_part_of db db') = event_dlq_size db" "endpoints (legacy_part_of db db') = endpoints db"
    "versions (legacy_part_of db db') = versions db" and n: "next_id db \<le> next_id db'"
    using assms by (simp_all add: only_legacy_def)
  then have eqs: "outbox db' = outbox db" "dlq db' = dlq db" "dlq_size db' = dlq_size db" "event_dlq db' = event_dlq db"
    "event_dlq_size db' = event_dlq_size db" "endpoints db' = endpoints db" "versions db' = versions db"
    by (simp_all add: legacy_part_of_def)
  show "runtime_ok db \<Longrightarrow> runtime_ok db'" using runtime_ok_frame [OF _ n] eqs by simp
  show "plain_schemas db \<Longrightarrow> plain_schemas db'" by (simp add: plain_schemas_def eqs)
qed

lemma only_legacy_log: "only_legacy db (log_drift_violations db e fp ds)"
proof (induction ds arbitrary: db)
  case (Cons d ds)
  have "only_legacy db (log_violation e fp db d)"
    by (cases "li_severity d") (simp_all add: log_violation_def fresh_id_def only_legacy_def legacy_part_of_def)
  then show ?case using Cons [of "log_violation e fp db d"]
    by (simp add: log_drift_violations_def only_legacy_trans)
qed (simp add: log_drift_violations_def only_legacy_refl)

lemma only_legacy_write:
  assumes "legacy_dual_write db svc m r fp s = (x, db')"
  shows "only_legacy db db'"
proof -
  obtain e db1 ins db2 where en: "legacy_ensure_endpoint db svc m r = (e, db1)"
    and reg: "register_snapshot db1 e fp s = (ins, db2)" by (metis surj_pair)
  have "only_legacy db db1" using en
    by (auto simp: legacy_ensure_endpoint_def fresh_id_def only_legacy_def legacy_part_of_def split: option.splits)
  moreover have "only_legacy db1 db2" using reg
    by (auto simp: register_snapshot_def fresh_id_def only_legacy_def legacy_part_of_def split: if_splits)
  moreover have "only_legacy db2 (set_baseline db2 e fp)"
    by (simp add: set_baseline_def only_legacy_def legacy_part_of_def)
  then have "only_legacy db2 db'"
    using assms only_legacy_refl [of db2] only_legacy_log [of db2]
    by (auto simp: legacy_dual_write_def register_payload_snapshot_def en reg Let_def split: option.splits if_splits)
  ultimately show ?thesis by (blast intro: only_legacy_trans)
qed

definition structural :: "json pydict \<Rightarrow> string" where
  "structural d = (case structural_string (JDict d) of Inr t \<Rightarrow> t | Inl _ \<Rightarrow> [])"

lemma plain_track_payload:
  assumes ok: "runtime_ok db" "plain_schemas db" "plain (JDict (sm_payload sub))"
    and t: "track_payload env db sub st = (res, db', st')"
  shows "(\<exists>r. res = Inr r) \<and> runtime_ok db' \<and> plain_schemas db'"
    and "\<not> startswith (py_lower (sm_namespace sub)) ''k6'' \<Longrightarrow>
      \<exists>d x. same_legacy db d \<and> legacy_dual_write d (sm_service sub) (py_upper (sm_method sub)) (sm_route sub)
        (te_sha256 env (structural (sm_payload sub))) (normalize_types (JDict (sm_payload sub))) = (x, db')"
proof -
  let ?bench = "startswith (py_lower (sm_namespace sub)) ''k6''" and ?sub = "sub\<lparr>sm_method := py_upper (sm_method sub)\<rparr>"
  obtain r0 d s where c: "track_contract env db ?sub (if ?bench then None else st) = (r0, d, s)" by (metis surj_pair)
  have "plain (JDict (sm_payload ?sub))" using ok(3) by simp
  from plain_track_contract [OF ok(1,2) this c] obtain r where r: "r0 = Inr r"
    and d: "runtime_ok d" "plain_schemas d" "same_legacy db d" by blast
  obtain x d' where w: "legacy_dual_write d (sm_service sub) (py_upper (sm_method sub)) (sm_route sub)
        (te_sha256 env (structural (sm_payload sub))) (normalize_types (JDict (sm_payload sub))) = (x, d')" by (metis surj_pair)
  have st: "structural_string (JDict (sm_payload sub)) = Inr (structural (sm_payload sub))"
    "fingerprint_schema (te_sha256 env) (JDict (sm_payload sub)) = Inr (te_sha256 env (structural (sm_payload sub)))"
    by (simp_all add: structural_def structural_string_def fingerprint_schema_def)
  have res: "(\<exists>r. res = Inr r) \<and> db' = (if ?bench then d else d')"
    using t by (cases x) (auto simp: track_payload_def c r st w Let_def simp del: normalize_types.simps split: if_splits)
  then show "(\<exists>r. res = Inr r) \<and> runtime_ok db' \<and> plain_schemas db'"
    using d only_legacy_ok [OF only_legacy_write [OF w]] by simp
  show "\<exists>d x. same_legacy db d \<and> legacy_dual_write d (sm_service sub) (py_upper (sm_method sub)) (sm_route sub)
        (te_sha256 env (structural (sm_payload sub))) (normalize_types (JDict (sm_payload sub))) = (x, db')"
    if "\<not> ?bench"
  proof (intro exI conjI)
    show "same_legacy db d" by (rule d(3))
    show "legacy_dual_write d (sm_service sub) (py_upper (sm_method sub)) (sm_route sub)
        (te_sha256 env (structural (sm_payload sub))) (normalize_types (JDict (sm_payload sub))) = (x, db')"
      using res that w by simp
  qed
qed

section \<open>The five payloads\<close>

lemma variant_cases:
  "i mod 5 = 0 \<Longrightarrow> payload_variant i = [(''user_id'', JInt (int i)),
     (''meta'', JDict [(''tags'', JList [JStr ''admin'', JStr ''staff'']), (''active'', JBool True)]),
     (''score'', JInt 42), (''price'', JFloat ''42.5'')]"
  "i mod 5 = 1 \<Longrightarrow> payload_variant i = [(''user_id'', JInt (int i)),
     (''meta'', JDict [(''tags'', JList [JStr ''admin'', JStr ''staff'']), (''active'', JBool True)]),
     (''score'', JInt 42), (''price'', JFloat ''42.5''), (''optional'', JNull)]"
  "i mod 5 = 2 \<Longrightarrow> payload_variant i = [(''user_id'', JInt (int i)),
     (''meta'', JDict [(''tags'', JList [JStr ''admin'', JStr ''staff'']), (''active'', JBool True)]),
     (''score'', JFloat ''42.5''), (''price'', JFloat ''42.5'')]"
  "i mod 5 = 3 \<Longrightarrow> payload_variant i = [(''user_id'', JInt (int i)),
     (''meta'', JDict [(''tags'', JList [JStr ''admin'', JStr ''staff'']), (''active'', JBool True)]),
     (''score'', JInt 42), (''price'', JInt 42)]"
  "i mod 5 = 4 \<Longrightarrow> payload_variant i = [(''user_id'', JInt (int i)), (''score'', JInt 42), (''price'', JFloat ''42.5'')]"
  by (simp_all add: payload_variant_def Let_def)

lemma phase_cases: obtains "i mod 5 = 0" | "i mod 5 = 1" | "i mod 5 = 2" | "i mod 5 = 3" | "i mod 5 = (4 :: nat)"
proof -
  have "i mod 5 < 5" by simp
  then have "i mod 5 = 0 \<or> i mod 5 = 1 \<or> i mod 5 = 2 \<or> i mod 5 = 3 \<or> i mod 5 = 4" by presburger
  then show thesis by (elim disjE) (rule that; assumption)+
qed

lemma plain_variant: "plain (JDict (payload_variant i))"
  by (rule phase_cases [of i]) (simp_all add: variant_cases)

text \<open>Schema and structural text of a payload depend on its phase only.\<close>

lemma sorted_map_vals: "sorted_items (map_vals f d) = map_vals f (sorted_items d)"
proof -
  have ins: "insort_key fst (k, f v) (map_vals f e) = map_vals f (insort_key fst (k, v) e)" for k v e
    by (induction e) (auto simp: map_vals_def)
  show ?thesis unfolding sorted_items_def by (induction d) (auto simp: ins)
qed

lemma shape_same_keys: "map_vals shape_of c = map_vals shape_of d \<Longrightarrow> shape_of (JDict c) = shape_of (JDict d)"
  by (simp only: shape_of.simps sorted_map_vals [symmetric])

lemma variant_shape: "shape_of (JDict (payload_variant i)) = shape_of (JDict (payload_variant (i mod 5)))"
  by (rule shape_same_keys, rule phase_cases [of i]) (simp_all add: variant_cases)

lemma variant_phase:
  "structural (payload_variant i) = structural (payload_variant (i mod 5))"
  "normalize_types (JDict (payload_variant i)) = normalize_types (JDict (payload_variant (i mod 5)))"
  unfolding structural_def structural_string_shape [OF variant_shape [of i]] normalize_types_shape variant_shape [of i] by simp_all

text \<open>The severities logged for a payload of phase \<open>q\<close> against a baseline of phase \<open>p\<close>.\<close>

definition logged :: "nat \<Rightarrow> nat \<Rightarrow> string list" where
  "logged p q = (if structural (payload_variant p) = structural (payload_variant q) then []
     else map (\<lambda>d. the (li_severity d)) (filter (\<lambda>d. li_severity d \<noteq> None) (classify_contract_drift
       (structural_diff (normalize_types (JDict (payload_variant p))) (normalize_types (JDict (payload_variant q)))))))"

lemma logged_phase: "logged p q = logged (p mod 5) (q mod 5)"
  unfolding logged_def variant_phase [of p] variant_phase [of q] ..

text \<open>The types at the paths of the five payloads.\<close>

definition phase_types :: "nat \<Rightarrow> string pydict" where
  "phase_types q =
     (if q = 4 then []
      else [(''meta.active'', ''bool''), (''meta.tags'', ''array''), (''meta.tags[*0]'', ''string''), (''meta.tags[*1]'', ''string'')])
     @ (if q = 1 then [(''optional'', ''null'')] else [])
     @ [(''price'', if q = 3 then ''int'' else ''float''), (''score'', if q = 2 then ''float'' else ''int''), (''user_id'', ''int'')]"

lemma phase_types:
  assumes "q < 5" shows "flatten_schema (normalize_types (JDict (payload_variant q))) [] = phase_types q"
proof -
  have "\<forall>q \<in> set [0..<5]. flatten_schema (normalize_types (JDict (payload_variant q))) [] = phase_types q" by code_simp
  then show ?thesis using assms by simp
qed

lemma in_logged:
  "s \<in> set (logged p q) \<longleftrightarrow> structural (payload_variant p) \<noteq> structural (payload_variant q) \<and>
     (\<exists>path. map_of (phase_types (p mod 5)) path \<noteq> map_of (phase_types (q mod 5)) path
       \<and> severity_of (map_of (phase_types (p mod 5)) path) (map_of (phase_types (q mod 5)) path) = Some s)"
proof -
  let ?p = "normalize_types (JDict (payload_variant (p mod 5)))" and ?q = "normalize_types (JDict (payload_variant (q mod 5)))"
  have types: "flatten_schema ?p [] = phase_types (p mod 5)" "flatten_schema ?q [] = phase_types (q mod 5)"
    by (simp_all add: phase_types del: normalize_types.simps)
  have "s \<in> set (map (\<lambda>d. the (li_severity d)) (filter (\<lambda>d. li_severity d \<noteq> None) (classify_contract_drift (structural_diff ?p ?q))))
    \<longleftrightarrow> (\<exists>d \<in> set (structural_diff ?p ?q). severity_of (li_old d) (li_new d) = Some s)" (is "?l \<longleftrightarrow> ?r")
    unfolding classified_diff by force
  also have "?r \<longleftrightarrow> (\<exists>path. map_of (phase_types (p mod 5)) path \<noteq> map_of (phase_types (q mod 5)) path
       \<and> severity_of (map_of (phase_types (p mod 5)) path) (map_of (phase_types (q mod 5)) path) = Some s)"
  proof
    assume "\<exists>path. map_of (phase_types (p mod 5)) path \<noteq> map_of (phase_types (q mod 5)) path
       \<and> severity_of (map_of (phase_types (p mod 5)) path) (map_of (phase_types (q mod 5)) path) = Some s"
    then obtain path where path: "map_of (phase_types (p mod 5)) path \<noteq> map_of (phase_types (q mod 5)) path"
      "severity_of (map_of (phase_types (p mod 5)) path) (map_of (phase_types (q mod 5)) path) = Some s" by blast
    let ?d = "\<lparr>li_path = path, li_old = map_of (phase_types (p mod 5)) path, li_new = map_of (phase_types (q mod 5)) path,
      li_severity = None\<rparr>"
    have "?d \<in> set (structural_diff ?p ?q)" using path(1) unfolding in_structural_diff types by simp
    then show ?r by (rule bexI [rotated]) (simp add: path(2))
  next
    assume ?r
    then obtain d where "d \<in> set (structural_diff ?p ?q)" "severity_of (li_old d) (li_new d) = Some s" by blast
    then show "\<exists>path. map_of (phase_types (p mod 5)) path \<noteq> map_of (phase_types (q mod 5)) path
       \<and> severity_of (map_of (phase_types (p mod 5)) path) (map_of (phase_types (q mod 5)) path) = Some s"
      unfolding in_structural_diff types by metis
  qed
  finally show ?thesis unfolding logged_def variant_phase [of p] variant_phase [of q] by simp
qed

section \<open>The run\<close>

lemma write_endpoint:
  assumes "legacy_dual_write db svc m r fp s = ((e, x), db')"
  shows "\<exists>db1. legacy_ensure_endpoint db svc m r = (e, db1) \<and> api_endpoints db' = api_endpoints db1"
proof -
  obtain e1 db1 ins db2 where en: "legacy_ensure_endpoint db svc m r = (e1, db1)"
    and reg: "register_snapshot db1 e1 fp s = (ins, db2)" by (metis surj_pair)
  have "api_endpoints db2 = api_endpoints db1" by (rule register_snapshot_rows(2) [OF reg])
  moreover have "api_endpoints (set_baseline db2 e1 fp) = api_endpoints db2" by (simp add: set_baseline_def)
  moreover note log_drift_frame [of db2]
  ultimately have "e = e1" "api_endpoints db' = api_endpoints db1"
    using assms by (auto simp: legacy_dual_write_def register_payload_snapshot_def en reg Let_def split: option.splits if_splits)
  with en show ?thesis by blast
qed

definition sim_key :: "string \<times> string \<times> string" where
  "sim_key = (''chaos-client'', ''POST'', ''/mocked/contracts'')"

text \<open>After the first request \<open>k0\<close> and the requests \<open>ks\<close>: one endpoint of the route, whose first
  snapshot is that of \<open>k0\<close>, and the logged severities of the others against it.\<close>

definition sim_inv :: "track_env \<Rightarrow> nat \<Rightarrow> nat list \<Rightarrow> rdb \<Rightarrow> bool" where
  "sim_inv env k0 ks db \<longleftrightarrow> runtime_ok db \<and> plain_schemas db \<and> legacy_ok db
     \<and> (\<exists>a x rest. api_endpoints db = [a] \<and> legacy_key a = sim_key \<and> snapshots_of db (ae_id a) = x # rest
         \<and> ss_fingerprint x = te_sha256 env (structural (payload_variant k0))
         \<and> ss_schema x = normalize_types (JDict (payload_variant k0)))
     \<and> map dv_severity (drift_violations db) = concat (map (logged k0) ks)"

lemma simulated_written:
  assumes "runtime_ok db" "plain_schemas db" "track_payload env db (simulated k) st = (res, db', st')"
  obtains r d e x where "res = Inr r" "runtime_ok db'" "plain_schemas db'" "same_legacy db d"
    "legacy_dual_write d ''chaos-client'' ''POST'' ''/mocked/contracts''
       (te_sha256 env (structural (payload_variant k))) (normalize_types (JDict (payload_variant k))) = ((e, x), db')"
proof -
  have sub: "sm_payload (simulated k) = payload_variant k" "sm_service (simulated k) = ''chaos-client''"
    "py_upper (sm_method (simulated k)) = ''POST''" "sm_route (simulated k) = ''/mocked/contracts''"
    "\<not> startswith (py_lower (sm_namespace (simulated k))) ''k6''"
    by (simp_all add: simulated_def) code_simp+
  have pl: "plain (JDict (sm_payload (simulated k)))" unfolding sub(1) by (rule plain_variant)
  note P = plain_track_payload [OF assms(1,2) pl assms(3)]
  from P(2) [OF sub(5)] obtain d x where "same_legacy db d"
    "legacy_dual_write d ''chaos-client'' ''POST'' ''/mocked/contracts''
       (te_sha256 env (structural (payload_variant k))) (normalize_types (JDict (payload_variant k))) = (x, db')"
    unfolding sub(1-4) by blast
  moreover obtain e y where "x = (e, y)" by (cases x)
  ultimately show thesis using P(1) that by blast
qed

lemma legacy_ok_same: "same_legacy db d \<Longrightarrow> legacy_ok db \<Longrightarrow> legacy_ok d"
  by (rule legacy_ok_frame) (auto simp: same_legacy_def)

lemma sim_first:
  assumes "runtime_ok db" "plain_schemas db" "legacy_ok db" "api_endpoints db = []" "schema_snapshots db = []" "drift_violations db = []"
    and t: "track_payload env db (simulated k) st = (res, db', st')"
  shows "(\<exists>r. res = Inr r) \<and> sim_inv env k [] db'"
proof -
  from assms(1,2) t obtain r d e x where S: "res = Inr r" "runtime_ok db'" "plain_schemas db'" and same: "same_legacy db d"
    and w: "legacy_dual_write d ''chaos-client'' ''POST'' ''/mocked/contracts''
       (te_sha256 env (structural (payload_variant k))) (normalize_types (JDict (payload_variant k))) = ((e, x), db')"
    by (rule simulated_written)
  from same have d: "api_endpoints d = []" "schema_snapshots d = []" "drift_violations d = []"
    using assms(4-6) by (simp_all add: same_legacy_def)
  from write_endpoint [OF w] obtain d1 where "legacy_ensure_endpoint d ''chaos-client'' ''POST'' ''/mocked/contracts'' = (e, d1)"
    "api_endpoints db' = api_endpoints d1" by blast
  then have ep: "\<exists>a. api_endpoints db' = [a] \<and> legacy_key a = sim_key \<and> ae_id a = e"
    by (auto simp: legacy_ensure_endpoint_def d fresh_id_def sim_key_def legacy_key_def)
  obtain ins sev n where x: "x = (ins, sev, n)" by (cases x)
  have none: "snapshots_of d e = []" by (simp add: snapshots_of_def d)
  from legacy_baseline_is_first [OF legacy_ok_same [OF same assms(3)] w [unfolded x]]
  have L: "legacy_ok db'" "\<exists>y. snapshots_of db' e = [y] \<and> ss_fingerprint y = te_sha256 env (structural (payload_variant k))
      \<and> ss_schema y = normalize_types (JDict (payload_variant k))" "drift_violations db' = []"
    unfolding none d(3) list.case by blast+
  from ep L S show ?thesis unfolding sim_inv_def by auto
qed

lemma sim_next:
  assumes inj: "inj (te_sha256 env)" and inv: "sim_inv env k0 ks db"
    and t: "track_payload env db (simulated k) st = (res, db', st')"
  shows "(\<exists>r. res = Inr r) \<and> sim_inv env k0 (ks @ [k]) db'"
proof -
  from inv obtain a x0 rest where I: "runtime_ok db" "plain_schemas db" "legacy_ok db" "api_endpoints db = [a]" "legacy_key a = sim_key"
    and snaps: "snapshots_of db (ae_id a) = x0 # rest" "ss_fingerprint x0 = te_sha256 env (structural (payload_variant k0))"
      "ss_schema x0 = normalize_types (JDict (payload_variant k0))"
    and viol: "map dv_severity (drift_violations db) = concat (map (logged k0) ks)"
    unfolding sim_inv_def by blast
  from I(1,2) t obtain r d e x where S: "res = Inr r" "runtime_ok db'" "plain_schemas db'" and same: "same_legacy db d"
    and w: "legacy_dual_write d ''chaos-client'' ''POST'' ''/mocked/contracts''
       (te_sha256 env (structural (payload_variant k))) (normalize_types (JDict (payload_variant k))) = ((e, x), db')"
    by (rule simulated_written)
  have d: "api_endpoints d = [a]" "snapshots_of d f = snapshots_of db f" "drift_violations d = drift_violations db" for f
    using same I(4) by (simp_all add: same_legacy_def snapshots_of_def)
  from write_endpoint [OF w] obtain d1 where "legacy_ensure_endpoint d ''chaos-client'' ''POST'' ''/mocked/contracts'' = (e, d1)"
    "api_endpoints db' = api_endpoints d1" by blast
  then have ep: "api_endpoints db' = [a]" "e = ae_id a"
    using I(5) d(1) by (auto simp: legacy_ensure_endpoint_def sim_key_def)
  obtain ins sev n where x: "x = (ins, sev, n)" by (cases x)
  let ?ds = "classify_contract_drift (structural_diff (ss_schema x0) (normalize_types (JDict (payload_variant k))))"
  from legacy_baseline_is_first [OF legacy_ok_same [OF same I(3)] w [unfolded x]]
  have ok: "legacy_ok db'" by (rule conjunct1)
  from legacy_baseline_is_first [OF legacy_ok_same [OF same I(3)] w [unfolded x]]
  have L: "\<exists>more. snapshots_of db' e = x0 # rest @ more"
    "map violation_view (drift_violations db') = map violation_view (drift_violations db)
       @ (if ss_fingerprint x0 = te_sha256 env (structural (payload_variant k)) then []
          else map (\<lambda>d. (e, te_sha256 env (structural (payload_variant k)), li_severity d, violation_payload d))
            (filter (\<lambda>d. li_severity d \<noteq> None) ?ds))"
    unfolding d ep(2) snaps(1) list.case by auto
  have "map (\<lambda>v. the (fst (snd (snd (violation_view v))))) vs = map dv_severity vs" for vs
    by (simp add: violation_view_def)
  then have "map dv_severity (drift_violations db') = map (\<lambda>v. the (fst (snd (snd v)))) (map violation_view (drift_violations db'))"
    by simp
  also have "\<dots> = map dv_severity (drift_violations db) @ logged k0 k"
    unfolding L(2) snaps inj_eq [OF inj] logged_def by (simp add: violation_view_def comp_def del: normalize_types.simps)
  finally have "map dv_severity (drift_violations db') = concat (map (logged k0) (ks @ [k]))" by (simp add: viol)
  with ok S(2,3) ep L(1) I(5) snaps(2,3) have "sim_inv env k0 (ks @ [k]) db'" unfolding sim_inv_def ep(2) by blast
  with S(1) show ?thesis by blast
qed

lemma sim_rest:
  assumes "inj (te_sha256 env)" "sim_inv env k0 done db"
  shows "\<exists>db' st'. submit_all env ks (db, st) = (replicate (length ks) True, db', st') \<and> sim_inv env k0 (done @ ks) db'"
  using assms(2)
proof (induction ks arbitrary: "done" db st)
  case (Cons k ks)
  obtain res db1 st1 where t: "track_payload env db (simulated k) st = (res, db1, st1)" by (metis surj_pair)
  from sim_next [OF assms(1) Cons.prems t] obtain r where r: "res = Inr r" "sim_inv env k0 (done @ [k]) db1" by blast
  from Cons.IH [OF r(2), of st1] obtain db2 st2 where
    "submit_all env ks (db1, st1) = (replicate (length ks) True, db2, st2)" "sim_inv env k0 ((done @ [k]) @ ks) db2" by blast
  then show ?case by (simp add: submit_def t r(1))
qed auto

section \<open>The checks at the end\<close>

lemma severity_count_0: "severity_count db s = 0 \<longleftrightarrow> s \<notin> set (map dv_severity (drift_violations db))"
proof -
  let ?xs = "map dv_severity (drift_violations db)"
  let ?n = "\<lambda>k. length (filter (\<lambda>v. dv_severity v = k) (drift_violations db))"
  have "map_of (map (\<lambda>k. (k, ?n k)) (remdups ?xs)) s = (if s \<in> set ?xs then Some (?n s) else None)"
    by (simp add: map_of_map_restrict restrict_map_def)
  then show ?thesis
    by (auto simp: severity_count_def count_by_def filter_empty_conv split: option.splits if_splits)
qed

lemma no_duplicate_baselines: assumes "legacy_ok db" shows "duplicate_baselines db = 0"
proof -
  have "length (filter (\<lambda>s. ss_endpoint s = e) (filter ss_baseline (schema_snapshots db))) \<le> 1" for e
  proof -
    have "filter (\<lambda>s. ss_endpoint s = e) (filter ss_baseline (schema_snapshots db)) = filter ss_baseline (snapshots_of db e)"
      by (simp add: snapshots_of_def conj_commute)
    moreover have "snapshots_ok (snapshots_of db e)" using assms by (simp add: legacy_ok_def)
    then have "length (filter ss_baseline (snapshots_of db e)) \<le> 1"
      by (cases "snapshots_of db e") (simp_all add: snapshots_ok_def list_all_iff filter_empty_conv)
    ultimately show ?thesis by simp
  qed
  then have "filter (\<lambda>(e, n). n > 1) (count_by ss_endpoint (filter ss_baseline (schema_snapshots db))) = []"
    by (auto simp: count_by_def filter_empty_conv not_less)
  then show ?thesis unfolding duplicate_baselines_def by simp
qed

lemma texts_distinct: "p < 5 \<Longrightarrow> q < 5 \<Longrightarrow> structural (payload_variant p) = structural (payload_variant q) \<longleftrightarrow> p = q"
proof -
  have "distinct (map (\<lambda>p. structural (payload_variant p)) [0..<5])" by code_simp
  then show "p < 5 \<Longrightarrow> q < 5 \<Longrightarrow> structural (payload_variant p) = structural (payload_variant q) \<longleftrightarrow> p = q"
    by (simp only: distinct_map inj_on_def) auto
qed

lemma logged_at:
  assumes "p < 5" "q < 5" "p \<noteq> q" "map_of (phase_types p) path \<noteq> map_of (phase_types q) path"
    "severity_of (map_of (phase_types p) path) (map_of (phase_types q) path) = Some s"
  shows "s \<in> set (logged p q)"
  using assms texts_distinct [of p q] unfolding in_logged by auto

lemma logged_all:
  assumes "p \<in> {0, 3, 4}" "s \<in> {''SAFE'', ''RISKY'', ''BREAKING''}"
  shows "\<exists>q < 5. s \<in> set (logged p q)"
proof -
  have "\<exists>q < 5. \<exists>path. p \<noteq> q \<and> map_of (phase_types p) path \<noteq> map_of (phase_types q) path
    \<and> severity_of (map_of (phase_types p) path) (map_of (phase_types q) path) = Some s" (is "\<exists>q < 5. \<exists>path. ?at q path")
  proof -
    have "?at 1 ''optional'' \<or> ?at 2 ''score'' \<or> ?at 3 ''price'' \<or> ?at 0 ''price'' \<or> ?at 4 ''price'' \<or> ?at 4 ''meta.active'' \<or> ?at 0 ''meta.active''"
      using assms by (auto simp: phase_types_def severity_of_def primitive_types_def)
    moreover have at: "\<exists>q < 5. \<exists>path. ?at q path" if "?at q path" "q < 5" for q path using that by blast
    ultimately show ?thesis by (elim disjE) (rule at, assumption, simp)+
  qed
  then show ?thesis using assms(1) logged_at [of p] by auto
qed

lemma logged_never: "''SAFE'' \<notin> set (logged 1 q)" "''RISKY'' \<notin> set (logged 2 q)"
proof -
  have "q mod 5 < 5" by simp
  then have "q mod 5 \<in> {0, 1, 2, 3, 4}" by auto
  then show "''SAFE'' \<notin> set (logged 1 q)" "''RISKY'' \<notin> set (logged 2 q)"
    unfolding in_logged by (auto simp: phase_types_def severity_of_def primitive_types_def split: if_splits)
qed

lemma logged_two: "''SAFE'' \<in> set (logged 2 1)"
  by (rule logged_at [of _ _ "''optional''"]) (simp_all add: phase_types_def severity_of_def)

text \<open>
  With all five kinds of payload among the requests, the simulation's last checks are decided by the
  request that arrives first: with a payload of kind 1 no SAFE drift is ever logged and with one of
  kind 2 no RISKY drift, and the simulation fails; otherwise it succeeds, with no failed request and
  no duplicate baseline. Nothing else of the order matters.
\<close>

theorem simulation_verdict:
  assumes "runtime_ok db" "plain_schemas db" "inj (te_sha256 env)"
    and all: "\<forall>p < 5. \<exists>k \<in> set ks. k mod 5 = p" and ks: "ks = first # rest"
  shows "(first mod 5 = 1 \<longrightarrow> simulation_main env ks (db, st) = Inl ''expected SAFE drift logs'')
    \<and> (first mod 5 = 2 \<longrightarrow> simulation_main env ks (db, st) = Inl ''expected RISKY drift logs'')
    \<and> (first mod 5 \<notin> {1, 2} \<longrightarrow> (\<exists>a. simulation_main env ks (db, st) = Inr a \<and> sa_success a = length ks
         \<and> sa_failure a = 0 \<and> sa_duplicates a = 0))"
proof -
  let ?db = "clear_legacy db"
  have "only_legacy db ?db" by (simp add: only_legacy_def legacy_part_of_def clear_legacy_def)
  from only_legacy_ok [OF this] assms(1,2) have ok: "runtime_ok ?db" "plain_schemas ?db" by blast+
  have empty: "api_endpoints ?db = []" "schema_snapshots ?db = []" "drift_violations ?db = []" by (simp_all add: clear_legacy_def)
  then have "legacy_ok ?db" by (simp add: legacy_ok_def snapshots_of_def snapshots_ok_def)
  obtain res db1 st1 where t: "track_payload env ?db (simulated first) st = (res, db1, st1)" by (metis surj_pair)
  from sim_first [OF ok \<open>legacy_ok ?db\<close> empty t] obtain r where r: "res = Inr r" "sim_inv env first [] db1" by blast
  from sim_rest [OF assms(3) r(2), of rest st1] obtain db' st' where
    run: "submit_all env rest (db1, st1) = (replicate (length rest) True, db', st')" and inv: "sim_inv env first rest db'" by auto
  have result: "run_simulation env ks (?db, st) = (\<lparr>sr_total = length ks, sr_success = length ks, sr_failure = 0\<rparr>, db', st')"
    by (simp add: run_simulation_def ks submit_def t r(1) run)
  from inv obtain a x more where I: "api_endpoints db' = [a]" "legacy_key a = sim_key" "snapshots_of db' (ae_id a) = x # more"
    "map dv_severity (drift_violations db') = concat (map (logged first) rest)" "legacy_ok db'" unfolding sim_inv_def by blast
  have ids: "route_ids db' = [ae_id a]" using I(2) by (simp add: route_ids_def I(1) legacy_key_def sim_key_def)
  have snaps: "filter (\<lambda>s. ss_endpoint s = ae_id a) (schema_snapshots db') = x # more"
    using I(3) by (simp add: snapshots_of_def)
  have "logged first first = []" by (simp add: logged_def)
  then have count: "severity_count db' s = 0 \<longleftrightarrow> (\<forall>k \<in> set ks. s \<notin> set (logged (first mod 5) (k mod 5)))" for s
    unfolding severity_count_0 I(4) ks using logged_phase [of first] by auto
  have some: "severity_count db' s \<noteq> 0" if "q < 5" "s \<in> set (logged (first mod 5) q)" for s q
    using all that unfolding count by metis
  have main: "simulation_main env ks (db, st) =
      (if severity_count db' ''SAFE'' = 0 then Inl ''expected SAFE drift logs''
       else if severity_count db' ''RISKY'' = 0 then Inl ''expected RISKY drift logs''
       else if severity_count db' ''BREAKING'' = 0 then Inl ''expected BREAKING drift logs''
       else Inr \<lparr>sa_total = length ks, sa_success = length ks, sa_failure = 0, sa_safe = severity_count db' ''SAFE'',
         sa_risky = severity_count db' ''RISKY'', sa_breaking = severity_count db' ''BREAKING'', sa_duplicates = 0\<rparr>)"
    by (simp add: simulation_main_def result ids snaps no_duplicate_baselines [OF I(5)])
  have one: "severity_count db' ''SAFE'' = 0" if "first mod 5 = 1" unfolding count that using logged_never(1) by blast
  have two: "severity_count db' ''RISKY'' = 0" "severity_count db' ''SAFE'' \<noteq> 0" if p: "first mod 5 = 2"
    unfolding count p using logged_never(2) some [of 1 "''SAFE''"] logged_two unfolding count p by simp_all
  have other: "severity_count db' s \<noteq> 0" if p: "first mod 5 \<notin> {1, 2}" and s: "s \<in> {''SAFE'', ''RISKY'', ''BREAKING''}" for s
  proof -
    have "first mod 5 < 5" by simp
    then have "first mod 5 \<in> {0, 3, 4}" using p by auto
    from logged_all [OF this s] obtain q where "q < 5" "s \<in> set (logged (first mod 5) q)" by (elim exE conjE)
    then show "severity_count db' s \<noteq> 0" by (rule some)
  qed
  have "simulation_main env ks (db, st) = Inr \<lparr>sa_total = length ks, sa_success = length ks, sa_failure = 0,
      sa_safe = severity_count db' ''SAFE'', sa_risky = severity_count db' ''RISKY'',
      sa_breaking = severity_count db' ''BREAKING'', sa_duplicates = 0\<rparr>" if "first mod 5 \<notin> {1, 2}"
    unfolding main using other [OF that, of "''SAFE''"] other [OF that, of "''RISKY''"] other [OF that, of "''BREAKING''"]
    by (simp only: insert_iff simp_thms if_False)
  then have three: "\<exists>a. simulation_main env ks (db, st) = Inr a \<and> sa_success a = length ks \<and> sa_failure a = 0 \<and> sa_duplicates a = 0"
    if "first mod 5 \<notin> {1, 2}" using that by simp
  have "simulation_main env ks (db, st) = Inl ''expected SAFE drift logs''" if "first mod 5 = 1"
    unfolding main using one [OF that] by (simp only: simp_thms if_True)
  moreover have "simulation_main env ks (db, st) = Inl ''expected RISKY drift logs''" if "first mod 5 = 2"
    unfolding main using two [OF that] by (simp only: simp_thms if_True if_False)
  ultimately show ?thesis using three by (intro conjI impI)
qed

lemma plain_schemas_empty: "plain_schemas (empty_rdb t)"
  by (simp add: plain_schemas_def empty_rdb_def)

definition sim_env :: track_env where
  "sim_env = \<lparr>te_sha256 = id, te_post = (\<lambda>n u p. Response 500), te_publisher = (\<lambda>n e. Some ''down''),
     te_publisher_name = ''P'', te_inline = None, te_elapsed = ''0.1''\<rparr>"

lemma simulation_verdict_witness:
  "simulation_main sim_env [1, 0, 2, 3, 4] (empty_rdb 0, None) = Inl ''expected SAFE drift logs''
   \<and> (\<exists>a. simulation_main sim_env [0, 1, 2, 3, 4] (empty_rdb 0, None) = Inr a \<and> sa_success a = 5)"
proof -
  have inj: "inj (te_sha256 sim_env)" by (simp add: sim_env_def)
  have five: "\<forall>p < 5. \<exists>k \<in> set ks. k mod 5 = p" if "{0, 1, 2, 3, 4} \<subseteq> set ks" for ks :: "nat list"
  proof (intro allI impI)
    fix p :: nat assume "p < 5"
    then have "p \<in> {0, 1, 2, 3, 4}" by auto
    with that have "p \<in> set ks" by (rule subsetD)
    then show "\<exists>k \<in> set ks. k mod 5 = p" by (rule bexI [rotated]) (simp add: \<open>p < 5\<close>)
  qed
  have all: "\<forall>p < 5. \<exists>k \<in> set [1, 0, 2, 3, 4]. k mod 5 = (p :: nat)" "\<forall>p < 5. \<exists>k \<in> set [0, 1, 2, 3, 4]. k mod 5 = (p :: nat)"
    by (rule five, simp)+
  show ?thesis
    using simulation_verdict [OF runtime_ok_empty plain_schemas_empty inj all(1) refl, of 0 None]
      simulation_verdict [OF runtime_ok_empty plain_schemas_empty inj all(2) refl, of 0 None] by auto
qed

text \<open>
  A request with a plain payload never fails: from tables that hold plain schemas only it is
  answered, whatever the servers of the consumers and the publisher do, and it leaves such tables.
\<close>

theorem plain_requests_succeed:
  assumes "runtime_ok db" "plain_schemas db" "plain (JDict (sm_payload sub))"
    and "track_payload env db sub st = (res, db', st')"
  shows "(\<exists>r. res = Inr r) \<and> runtime_ok db' \<and> plain_schemas db'"
  using assms by (rule plain_track_payload(1))

lemma plain_requests_succeed_witness:
  "\<exists>r. fst (track_payload sim_env (empty_rdb 0) (simulated 3) None) = Inr r"
proof -
  have "plain (JDict (sm_payload (simulated 3)))" by (simp add: simulated_def plain_variant del: plain.simps)
  from plain_requests_succeed [OF runtime_ok_empty plain_schemas_empty this] show ?thesis by (metis prod.collapse)
qed

end
