(* ===== verification/Guard_System.thy ===== *)
theory Guard_System
  imports Outbox_Live Simulation_Facts Review_Graph
begin

text \<open>
  The runtime guard as one system: every operation of \<^verbatim>\<open>app/main.py\<close>, the routes under
  \<^verbatim>\<open>app/api\<close> and the outbox worker over the shared tables, the document store and the review
  counters. What lies outside the program (consumers' servers, publishers, model providers, clocks)
  is a parameter of each step, so a run may meet any of their answers in any order. This theory has
  the steps, what each leaves alone, and that every step keeps the invariant.
\<close>

section \<open>The steps\<close>

datatype guard_op =
    Track track_env submission
  | CreateSubscription create_request
  | PatchSubscription string update_request
  | ReplayDelivery http_post string
  | ReplayEvent publisher string string
  | WorkerTurn http_post "string \<Rightarrow> py_error + json" nat
  | ReviewContract review_env review_request
  | RejectRequest string string json "string option"
  | Wait nat

fun guard_apply :: "guard_op \<Rightarrow> review_state \<Rightarrow> review_state" where
  "guard_apply (Track env sub) (db, st, m) = (case track_payload env db sub st of (res, db', st') \<Rightarrow> (db', st', m))"
| "guard_apply (CreateSubscription q) (db, st, m) =
     (case api_create db q of Inl err \<Rightarrow> (db, st, m) | Inr (s, db') \<Rightarrow> (db', st, m))"
| "guard_apply (PatchSubscription i q) (db, st, m) =
     (case api_patch db i q of Inl err \<Rightarrow> (db, st, m) | Inr (s, db') \<Rightarrow> (db', st, m))"
| "guard_apply (ReplayDelivery post i) (db, st, m) =
     (case api_replay_webhook_dlq post db i st of (res, db', st') \<Rightarrow> (db', st', m))"
| "guard_apply (ReplayEvent pub name i) (db, st, m) =
     (case api_replay_drift_event pub name db i st of (res, db', st') \<Rightarrow> (db', st', m))"
| "guard_apply (WorkerTurn post json_loads t) (db, st, m) = (turn post json_loads t db, st, m)"
| "guard_apply (ReviewContract env q) s = snd (api_contract_review env s q)"
| "guard_apply (RejectRequest path http_method errors body) (db, st, m) =
     (db, snd (request_validation_handler st (now db) path http_method errors body), m)"
| "guard_apply (Wait d) (db, st, m) = (db\<lparr>now := now db + d\<rparr>, st, m)"

definition fresh_guard :: "moment \<Rightarrow> bool \<Rightarrow> review_state" where
  "fresh_guard t with_store = (empty_rdb t, if with_store then Some empty_store else None, no_metrics)"

inductive guard_reachable :: "review_state \<Rightarrow> bool" where
  start: "guard_reachable (fresh_guard t with_store)"
| step: "guard_reachable s \<Longrightarrow> guard_reachable (guard_apply op s)"

definition run_guard :: "guard_op list \<Rightarrow> review_state \<Rightarrow> review_state" where
  "run_guard ops s = foldl (\<lambda>s op. guard_apply op s) s ops"

lemma run_reachable: "guard_reachable s \<Longrightarrow> guard_reachable (run_guard ops s)"
  unfolding run_guard_def by (induction ops arbitrary: s) (simp_all add: guard_reachable.step)

section \<open>The invariant\<close>

text \<open>Every row of the outbox is accounted for: its subscription exists, and it waits, was delivered,
  or failed and left a dead letter for the event and the consumer.\<close>

definition accounted :: "rdb \<Rightarrow> outbox_row \<Rightarrow> bool" where
  "accounted db r \<longleftrightarrow> (\<exists>sub. get_subscription db (ob_sub r) = Some sub
     \<and> (ob_status r = PENDING \<or> ob_status r = DELIVERED
        \<or> ob_status r = FAILED \<and> has_letter db (ob_payload r) (sub_consumer sub)))"

text \<open>The legacy tables and the registry have no endpoint identifier in common, and every snapshot
  belongs to a legacy endpoint.\<close>

definition apart :: "rdb \<Rightarrow> bool" where
  "apart db \<longleftrightarrow> (\<forall>a \<in> set (api_endpoints db). \<forall>e \<in> set (endpoints db). ae_id a \<noteq> re_id e)
     \<and> (\<forall>s \<in> set (schema_snapshots db). ss_endpoint s \<in> ae_id ` set (api_endpoints db))"

definition subscriptions_ok :: "rdb \<Rightarrow> bool" where
  "subscriptions_ok db \<longleftrightarrow> distinct (map sub_id (subscriptions db))
     \<and> (\<forall>s \<in> set (subscriptions db). issued (next_id db) (sub_id s) \<and> sub_endpoint s \<in> re_id ` set (endpoints db))"

definition tables_ok :: "rdb \<Rightarrow> bool" where
  "tables_ok db \<longleftrightarrow> runtime_ok db \<and> worker_ok db \<and> legacy_ok db \<and> apart db \<and> subscriptions_ok db
     \<and> (\<forall>r \<in> set (outbox db). accounted db r)"

definition store_ok :: "mem_store option \<Rightarrow> bool" where
  "store_ok st \<longleftrightarrow> (case st of None \<Rightarrow> True | Some st \<Rightarrow> mem_ok st)"

definition guard_ok :: "review_state \<Rightarrow> bool" where
  "guard_ok s \<longleftrightarrow> tables_ok (fst s) \<and> store_ok (fst (snd s))"

lemma fresh_guard_ok: "guard_ok (fresh_guard t b)"
proof -
  have "worker_ok (empty_rdb t)" by (simp add: worker_ok_def outbox_ok_def empty_rdb_def)
  moreover have "apart (empty_rdb t)" "subscriptions_ok (empty_rdb t)"
    by (simp_all add: apart_def subscriptions_ok_def empty_rdb_def)
  moreover have "outbox (empty_rdb t) = []" by (simp add: empty_rdb_def)
  ultimately show ?thesis by (simp add: guard_ok_def fresh_guard_def tables_ok_def store_ok_def)
qed

text \<open>Steps that leave the outbox as it is and keep subscriptions and dead letters.\<close>

lemma accounted_kept: "letters_kept db db' \<Longrightarrow> accounted db r \<Longrightarrow> accounted db' r"
  using has_letter_kept unfolding accounted_def by (metis kept_subscription)

lemma worker_ok_same:
  assumes "worker_ok db" "outbox db' = outbox db" "now db \<le> now db'"
  shows "worker_ok db'"
  using assms by (fastforce simp: worker_ok_def outbox_ok_def)

text \<open>What a step of the deliveries leaves alone: the registry, the legacy tables and the dead events.\<close>

definition same_rest :: "rdb \<Rightarrow> rdb \<Rightarrow> bool" where
  "same_rest db db' \<longleftrightarrow> versions db' = versions db \<and> endpoints db' = endpoints db
     \<and> schema_snapshots db' = schema_snapshots db \<and> api_endpoints db' = api_endpoints db
     \<and> subscriptions db' = subscriptions db \<and> next_id db \<le> next_id db'"

lemma same_rest_refl: "same_rest db db"
  by (simp add: same_rest_def)

lemma same_rest_trans: "same_rest a b \<Longrightarrow> same_rest b c \<Longrightarrow> same_rest a c"
  by (auto simp: same_rest_def)

lemma same_rest_parts:
  assumes "same_rest db db'"
  shows "registry_ok db \<Longrightarrow> registry_ok db'" "legacy_ok db \<Longrightarrow> legacy_ok db'" "apart db \<Longrightarrow> apart db'"
    "subscriptions_ok db \<Longrightarrow> subscriptions_ok db'"
  using assms registry_ok_mono [of db db'] legacy_ok_frame [of db db'] issued_mono [of "next_id db" _ "next_id db'"]
  by (auto simp: same_rest_def apart_def subscriptions_ok_def)

lemma tables_ok_same_rest:
  assumes "tables_ok db" "same_rest db db'" "outbox_issued db'" "dlq_ok db'" "event_dlq_ok db'" "worker_ok db'"
    and "\<And>r. r \<in> set (outbox db') \<Longrightarrow> accounted db' r"
  shows "tables_ok db'"
  using assms same_rest_parts [OF assms(2)] unfolding tables_ok_def runtime_ok_def by blast

text \<open>The common case: the outbox does not change either.\<close>

lemma tables_ok_same_outbox:
  assumes "tables_ok db" "same_rest db db'" "outbox db' = outbox db" "now db \<le> now db'" "letters_kept db db'"
    and "dlq_ok db'" "event_dlq_ok db'"
  shows "tables_ok db'"
proof (rule tables_ok_same_rest [OF assms(1,2)])
  have db: "outbox_issued db" "worker_ok db" "next_id db \<le> next_id db'"
    using assms(1,2) by (simp_all add: tables_ok_def runtime_ok_def same_rest_def)
  show "outbox_issued db'" using db(1,3) assms(3) issued_mono by (auto simp: outbox_issued_def)
  show "worker_ok db'" by (rule worker_ok_same [OF db(2) assms(3,4)])
  show "accounted db' r" if "r \<in> set (outbox db')" for r
    using that assms(1,3) accounted_kept [OF assms(5)] by (simp add: tables_ok_def)
qed (fact assms)+

section \<open>Deliveries, replays and the worker\<close>

lemma deliver_same_rest:
  assumes "deliver_with_retry post db ev e sub p m persist = (ok, db')"
  shows "same_rest db db'" "outbox db' = outbox db" "now db' = now db" "event_dlq db' = event_dlq db"
    "event_dlq_size db' = event_dlq_size db"
  using deliver_frame [OF assms] deliver_frame2 [OF assms] by (simp_all add: same_rest_def)

lemma replay_delivery_cases:
  assumes "api_replay_webhook_dlq post db i st = (res, db', st')"
  obtains "db' = db" | ok ev e sub p where "deliver_with_retry post db ev e sub p 1 False = (ok, db')"
  using assms by (auto simp: api_replay_webhook_dlq_def replay_dlq_entry_def Let_def split: option.splits prod.splits)

lemma replay_delivery_kept:
  assumes "api_replay_webhook_dlq post db i st = (res, db', st')"
  shows "versions db' = versions db" "outbox db' = outbox db" "letters_kept db db'"
proof -
  have "versions db' = versions db \<and> outbox db' = outbox db \<and> letters_kept db db'"
    using assms by (rule replay_delivery_cases) (auto simp: letters_kept_def dest: deliver_frame delivery_kept)
  then show "versions db' = versions db" "outbox db' = outbox db" "letters_kept db db'" by blast+
qed

lemma replay_delivery_ok:
  assumes "tables_ok db" and "api_replay_webhook_dlq post db i st = (res, db', st')"
  shows "tables_ok db'"
  using assms(2)
proof (rule replay_delivery_cases)
  fix ok ev e sub p assume d: "deliver_with_retry post db ev e sub p 1 False = (ok, db')"
  note D = deliver_same_rest [OF d]
  have old: "dlq_ok db" "event_dlq_ok db" using assms(1) by (simp_all add: tables_ok_def runtime_ok_def)
  show ?thesis
  proof (rule tables_ok_same_outbox [OF assms(1) D(1,2)])
    show "now db \<le> now db'" using D(3) by simp
    show "letters_kept db db'" by (rule delivery_kept [OF d])
    show "dlq_ok db'" using deliver_frame [OF d] old(1) by blast
    show "event_dlq_ok db'" using event_dlq_ok_mono [OF old(2) D(4,5)] D(1) by (simp add: same_rest_def)
  qed
qed (use assms(1) in simp)

lemma replay_event_rest:
  assumes "api_replay_drift_event pub name db i st = (res, db', st')"
  shows "same_rest db db'" "outbox db' = outbox db" "now db' = now db" "dlq db' = dlq db" "dlq_size db' = dlq_size db"
proof -
  have set: "same_rest d (set_event_row i f d) \<and> outbox (set_event_row i f d) = outbox d \<and> now (set_event_row i f d) = now d
      \<and> dlq (set_event_row i f d) = dlq d \<and> dlq_size (set_event_row i f d) = dlq_size d" for f d
    by (simp add: set_event_row_def same_rest_def)
  obtain r where r: "replay_event_dlq pub name db i st = (r, db', st')"
    using assms by (auto simp: api_replay_drift_event_def split: prod.splits)
  have "same_rest db db' \<and> outbox db' = outbox db \<and> now db' = now db \<and> dlq db' = dlq db \<and> dlq_size db' = dlq_size db"
    using r set by (auto simp: replay_event_dlq_def Let_def same_rest_def split: option.splits sum.splits if_splits)
  then show "same_rest db db'" "outbox db' = outbox db" "now db' = now db" "dlq db' = dlq db" "dlq_size db' = dlq_size db"
    by blast+
qed

lemma replay_event_ok:
  assumes "tables_ok db" and "api_replay_drift_event pub name db i st = (res, db', st')"
  shows "tables_ok db'"
proof (rule tables_ok_same_outbox [OF assms(1)])
  note R = replay_event_rest [OF assms(2)]
  have old: "dlq_ok db" "event_dlq_ok db" using assms(1) by (simp_all add: tables_ok_def runtime_ok_def)
  show "same_rest db db'" "outbox db' = outbox db" "now db \<le> now db'" using R by simp_all
  show "letters_kept db db'" using R by (simp add: letters_kept_def same_rest_def)
  show "dlq_ok db'" using old(1) R by (simp add: dlq_ok_def)
  obtain r where "replay_event_dlq pub name db i st = (r, db', st')"
    using assms(2) by (auto simp: api_replay_drift_event_def split: prod.splits)
  then show "event_dlq_ok db'" by (rule replay_keeps_ok [OF old(2)])
qed

text \<open>The worker: an item, a batch, a turn.\<close>

lemma same_rest_set_outbox: "same_rest db (set_outbox i f db') \<longleftrightarrow> same_rest db db'"
  by (simp add: same_rest_def set_outbox_def)

lemma upsert_dlq_rest:
  "same_rest db (upsert_dlq db ev c e url p r n)"
  "event_dlq (upsert_dlq db ev c e url p r n) = event_dlq db"
  "event_dlq_size (upsert_dlq db ev c e url p r n) = event_dlq_size db"
  by (simp_all add: same_rest_def upsert_dlq_def fresh_id_def Let_def case_prod_unfold)

lemma deliver_item_rest:
  assumes "deliver_item post json_loads item db = (err, db')"
  shows "same_rest db db' \<and> event_dlq db' = event_dlq db \<and> event_dlq_size db' = event_dlq_size db"
proof -
  let ?db1 = "set_outbox (ob_id item) (\<lambda>r. r\<lparr>ob_status := DELIVERING\<rparr>) db"
  have ev_set: "event_dlq (set_outbox i f d) = event_dlq d" "event_dlq_size (set_outbox i f d) = event_dlq_size d" for i f d
    by (simp_all add: set_outbox_def)
  show ?thesis
  proof (cases "get_subscription db (ob_sub item)")
    case None
    then show ?thesis using assms by (auto simp: deliver_item_def Let_def same_rest_set_outbox same_rest_refl ev_set)
  next
    case (Some sub)
    obtain ev db2 where ev: "item_event (ob_payload item) ?db1 = (ev, db2)" by (metis surj_pair)
    have r2: "same_rest db db2 \<and> event_dlq db2 = event_dlq db \<and> event_dlq_size db2 = event_dlq_size db"
      using ev by (auto simp: item_event_def fresh_id_def same_rest_def set_outbox_def split: option.splits if_splits)
    show ?thesis
    proof (cases "item_body json_loads (ob_payload item)")
      case (Inl x)
      then show ?thesis using assms r2 by (simp add: deliver_item_def Let_def Some ev)
    next
      case (Inr body)
      obtain ok db3 where d: "deliver_with_retry post db2 ev (ob_endpoint item) sub body 1 False = (ok, db3)" by (metis surj_pair)
      have r3: "same_rest db db3" "event_dlq db3 = event_dlq db" "event_dlq_size db3 = event_dlq_size db"
        using deliver_same_rest [OF d] r2 by (auto intro: same_rest_trans)
      have "same_rest db (upsert_dlq (set_outbox i f db3) a b c u v w x)" for i f a b c u v w x
        using same_rest_trans [OF r3(1)] same_rest_trans [OF _ upsert_dlq_rest(1)] same_rest_set_outbox same_rest_refl by metis
      then show ?thesis
        using assms r3 by (auto simp: deliver_item_def Let_def Some ev Inr d same_rest_set_outbox upsert_dlq_rest ev_set split: if_splits)
    qed
  qed
qed

lemma process_items_rest:
  "process_items post json_loads items n db = (err, k, db') \<Longrightarrow>
     same_rest db db' \<and> event_dlq db' = event_dlq db \<and> event_dlq_size db' = event_dlq_size db"
proof (induction items arbitrary: n db)
  case (Cons it items)
  obtain e db1 where d: "deliver_item post json_loads it db = (e, db1)" by (metis surj_pair)
  note D = deliver_item_rest [OF d]
  show ?case
  proof (cases e)
    case None
    then have "process_items post json_loads items (n + 1) db1 = (err, k, db')" using Cons.prems d by simp
    from Cons.IH [OF this] D show ?thesis using same_rest_trans by (metis (no_types))
  qed (use Cons.prems d D in simp)
qed (simp add: same_rest_refl)

lemma turn_parts:
  obtains res db1 where "poll_once post json_loads 50 db = (res, db1)"
    "turn post json_loads t db = db1\<lparr>now := now db1 + worker_sleep t res\<rparr>"
    "same_rest db db1" "event_dlq db1 = event_dlq db" "event_dlq_size db1 = event_dlq_size db"
proof -
  obtain res db1 where p: "poll_once post json_loads 50 db = (res, db1)" by (metis surj_pair)
  obtain err k d where q: "process_items post json_loads (fetch_due db 50) 0 db = (err, k, d)" by (metis prod_cases3)
  note Q = process_items_rest [OF q]
  have "\<exists>g. db1 = d\<lparr>outbox_pending_gauge := g\<rparr>"
  proof (cases err)
    case None
    then show ?thesis using p q by (auto simp: poll_once_def)
  next
    case (Some x)
    then have "db1 = d" using p q by (simp add: poll_once_def)
    then show ?thesis by (intro exI [of _ "outbox_pending_gauge d"]) simp
  qed
  then have "same_rest db db1" "event_dlq db1 = event_dlq db" "event_dlq_size db1 = event_dlq_size db"
    using Q by (auto simp: same_rest_def)
  then show thesis by (intro that [OF p]) (simp_all add: turn_def p)
qed

lemma turn_kept:
  assumes "tables_ok db"
  shows "versions (turn post json_loads t db) = versions db" "outbox_ids (turn post json_loads t db) = outbox_ids db"
    "letters_kept db (turn post json_loads t db)"
proof -
  obtain res db1 where p: "poll_once post json_loads 50 db = (res, db1)"
    and t: "turn post json_loads t db = db1\<lparr>now := now db1 + worker_sleep t res\<rparr>"
    and rest: "same_rest db db1" by (rule turn_parts)
  have old: "worker_ok db" "distinct (outbox_ids db)" using assms by (simp_all add: tables_ok_def runtime_ok_def outbox_issued_def)
  have "outbox_ids db1 = outbox_ids db" using poll_rows [OF old(2) p] by blast
  then show "versions (turn post json_loads t db) = versions db" "outbox_ids (turn post json_loads t db) = outbox_ids db"
    using rest by (simp_all add: t same_rest_def)
  show "letters_kept db (turn post json_loads t db)"
    using poll_work(4) [OF old(1) p] by (simp add: t letters_kept_def)
qed

lemma worker_turn_ok:
  assumes ok: "tables_ok db"
  shows "tables_ok (turn post json_loads t db)"
proof -
  obtain res db1 where p: "poll_once post json_loads 50 db = (res, db1)"
    and t: "turn post json_loads t db = db1\<lparr>now := now db1 + worker_sleep t res\<rparr>"
    and rest: "same_rest db db1" "event_dlq db1 = event_dlq db" "event_dlq_size db1 = event_dlq_size db" by (rule turn_parts)
  have old: "worker_ok db" "dlq_ok db" "event_dlq_ok db" "outbox_issued db" "\<And>r. r \<in> set (outbox db) \<Longrightarrow> accounted db r"
    using ok by (simp_all add: tables_ok_def runtime_ok_def)
  have d: "distinct (outbox_ids db)" using old(4) by (simp add: outbox_issued_def)
  note P = poll_work [OF old(1) p] and R = poll_rows [OF d p]
  have readable: "readable r" if "r \<in> set (outbox db)" "ob_status r = PENDING" for r
    using old(1) that by (simp add: worker_ok_def)
  note H = poll_readable [OF d readable p]
  have ids: "outbox_ids db1 = outbox_ids db" using R by blast
  have sub: "get_subscription db1 x = get_subscription db x" for x by (rule kept_subscription [OF P(4)])
  have acc: "accounted db1 r" if r: "r \<in> set (outbox db1)" for r
  proof -
    have row: "outbox_row_at db1 (ob_id r) = Some r"
      by (rule row_of [OF _ r]) (use P(1) in \<open>simp add: worker_ok_def\<close>)
    show ?thesis
    proof (cases "ob_id r \<in> ob_id ` set (fetch_due db 50)")
      case True
      then obtain it where it: "it \<in> set (fetch_due db 50)" "ob_id r = ob_id it" by blast
      have "it \<in> set (outbox db)" using fetch_due_rows(2) [OF d it(1)] row_mem by blast
      then obtain s where s: "get_subscription db (ob_sub it) = Some s" using old(5) by (auto simp: accounted_def)
      from H it row have h: "ob_sub r = ob_sub it" "settled db1 r \<or> retried (now db) it r" by fastforce+
      then have "ob_status r = PENDING \<or> ob_status r = DELIVERED \<or> ob_status r = FAILED \<and> has_letter db1 (ob_payload r) (sub_consumer s)"
        using s by (auto simp: settled_def sub retried_def row_after_def)
      then show ?thesis using s h(1) by (auto simp: accounted_def sub)
    next
      case False
      then have "r \<in> set (outbox db)" using R row row_mem by metis
      then show ?thesis using accounted_kept [OF P(4) old(5)] by blast
    qed
  qed
  have "tables_ok db1"
  proof (rule tables_ok_same_rest [OF ok rest(1) _ _ _ P(1) acc])
    have "next_id db \<le> next_id db1" using rest(1) by (simp add: same_rest_def)
    moreover have "\<forall>i \<in> set (outbox_ids db). issued (next_id db) i" using old(4) by (simp add: outbox_issued_def)
    ultimately have "\<forall>i \<in> set (outbox_ids db1). issued (next_id db1) i" unfolding ids using issued_mono by blast
    then show "outbox_issued db1" using d ids [symmetric] by (simp add: outbox_issued_def)
    show "dlq_ok db1" using R old(2) by blast
    show "event_dlq_ok db1" using event_dlq_ok_mono [OF old(3) rest(2,3)] rest(1) by (simp add: same_rest_def)
  qed
  then show ?thesis unfolding t
    by (rule tables_ok_same_outbox) (use P(1) \<open>tables_ok db1\<close> in
      \<open>simp_all add: same_rest_def letters_kept_def tables_ok_def runtime_ok_def dlq_ok_def event_dlq_ok_def\<close>)
qed

section \<open>Subscriptions\<close>

lemma first_row_map: "first_row (map f xs) = map_option f (first_row xs)"
  by (cases xs) simp_all

lemma first_row_append: "first_row xs = Some x \<Longrightarrow> first_row (xs @ ys) = Some x"
  by (cases xs) simp_all

lemma create_ok:
  assumes ok: "tables_ok db" and c: "api_create db q = Inr (s, db')"
  shows "tables_ok db'"
proof -
  let ?s = "\<lparr>sub_id = gen_uuid (next_id db), sub_consumer = cr_consumer q, sub_endpoint = cr_endpoint q,
    sub_url = cr_url q, sub_threshold = cr_threshold q, sub_version = cr_version q, sub_active = cr_active q,
    sub_created = now db, sub_updated = now db\<rparr>"
  have db': "db' = db\<lparr>next_id := Suc (next_id db), subscriptions := subscriptions db @ [?s]\<rparr>"
    and fk: "cr_endpoint q \<in> re_id ` set (endpoints db)"
    using c by (auto simp: api_create_def create_subscription_def fresh_id_def Let_def split: if_splits)
  have old: "runtime_ok db" "worker_ok db" "legacy_ok db" "apart db" "subscriptions_ok db"
    "\<And>r. r \<in> set (outbox db) \<Longrightarrow> accounted db r" using ok by (simp_all add: tables_ok_def)
  have fresh: "gen_uuid (next_id db) \<notin> sub_id ` set (subscriptions db)"
    using old(5) issued_fresh unfolding subscriptions_ok_def by (metis imageE)
  have "accounted db' r" if r: "r \<in> set (outbox db)" for r
  proof -
    from old(6) [OF r] obtain sub where "get_subscription db (ob_sub r) = Some sub"
      and st: "ob_status r = PENDING \<or> ob_status r = DELIVERED \<or> ob_status r = FAILED \<and> has_letter db (ob_payload r) (sub_consumer sub)"
      by (auto simp: accounted_def)
    then have "get_subscription db' (ob_sub r) = Some sub"
      by (auto simp: get_subscription_def db' first_row_append)
    then show ?thesis using st by (auto simp: accounted_def has_letter_def db')
  qed
  moreover have "runtime_ok db'" using runtime_ok_frame [OF old(1)] by (simp add: db')
  moreover have "worker_ok db'" using worker_ok_same [OF old(2)] by (simp add: db')
  moreover have "legacy_ok db'" using legacy_ok_frame [OF old(3)] by (simp add: db')
  moreover have "apart db'" using old(4) by (simp add: apart_def db')
  moreover have "subscriptions_ok db'" using old(5) fresh fk by (auto simp: subscriptions_ok_def db')
  ultimately show ?thesis by (simp add: tables_ok_def db')
qed

lemma fold_set_item_keeps: "sub_consumer (fold set_item p s) = sub_consumer s \<and> sub_endpoint (fold set_item p s) = sub_endpoint s"
proof (induction p arbitrary: s)
  case (Cons i p)
  then show ?case by (cases i) simp_all
qed simp

lemma patch_ok:
  assumes ok: "tables_ok db" and c: "api_patch db i q = Inr (s, db')"
  shows "tables_ok db'"
proof -
  obtain u where "update_subscription db i (dump_update q) = (u, db')"
    using c by (auto simp: api_patch_def split: prod.splits option.splits)
  then have "db' = db \<or> (\<exists>p. db' = db\<lparr>subscriptions :=
      update_where (\<lambda>s. sub_id s = i) (\<lambda>s. (fold set_item p s)\<lparr>sub_updated := now db\<rparr>) (subscriptions db)\<rparr>)"
    by (auto simp: update_subscription_def Let_def split: if_splits)
  then show ?thesis
  proof (elim disjE exE)
    fix p
    let ?f = "\<lambda>s. (fold set_item p s)\<lparr>sub_updated := now db\<rparr>"
    assume db': "db' = db\<lparr>subscriptions := update_where (\<lambda>s. sub_id s = i) ?f (subscriptions db)\<rparr>"
    have keeps: "sub_id (?f s) = sub_id s" "sub_consumer (?f s) = sub_consumer s" "sub_endpoint (?f s) = sub_endpoint s" for s
      using fold_set_item_keeps [of p s] by simp_all
    have old: "runtime_ok db" "worker_ok db" "legacy_ok db" "apart db" "subscriptions_ok db"
      "\<And>r. r \<in> set (outbox db) \<Longrightarrow> accounted db r" using ok by (simp_all add: tables_ok_def)
    have "accounted db' r" if r: "r \<in> set (outbox db)" for r
    proof -
      from old(6) [OF r] obtain sub where sub: "get_subscription db (ob_sub r) = Some sub"
        and st: "ob_status r = PENDING \<or> ob_status r = DELIVERED \<or> ob_status r = FAILED \<and> has_letter db (ob_payload r) (sub_consumer sub)"
        by (auto simp: accounted_def)
      have "filter (\<lambda>s. sub_id s = j) (update_where (\<lambda>s. sub_id s = i) ?f rows)
          = update_where (\<lambda>s. sub_id s = i) ?f (filter (\<lambda>s. sub_id s = j) rows)" for j rows
        by (induction rows) (auto simp: update_where_def)
      then have "get_subscription db' (ob_sub r) = Some (if sub_id sub = i then ?f sub else sub)"
        using sub by (auto simp: get_subscription_def db' update_where_def first_row_map)
      moreover have "sub_consumer (if sub_id sub = i then ?f sub else sub) = sub_consumer sub" using keeps by simp
      ultimately show ?thesis using st by (auto simp: accounted_def has_letter_def db')
    qed
    moreover have "runtime_ok db'" using runtime_ok_frame [OF old(1)] by (simp add: db')
    moreover have "worker_ok db'" using worker_ok_same [OF old(2)] by (simp add: db')
    moreover have "legacy_ok db'" using legacy_ok_frame [OF old(3)] by (simp add: db')
    moreover have "apart db'" using old(4) by (simp add: apart_def db')
    moreover have "subscriptions_ok db'"
    proof -
      have "map sub_id (subscriptions db') = map sub_id (subscriptions db)"
        unfolding db' by (simp add: map_update_where)
      moreover have "issued (next_id db) (sub_id s) \<and> sub_endpoint s \<in> re_id ` set (endpoints db)" if "s \<in> set (subscriptions db')" for s
        using that old(5) keeps unfolding db' by (auto simp: in_update_where subscriptions_ok_def)
      ultimately show ?thesis using old(5) by (simp add: subscriptions_ok_def db')
    qed
    ultimately show ?thesis by (simp add: tables_ok_def db')
  qed (use ok in simp)
qed

section \<open>Reviews, rejected requests and time\<close>

lemma tables_ok_ids: "tables_ok db \<Longrightarrow> next_id db \<le> n \<Longrightarrow> tables_ok (db\<lparr>next_id := n\<rparr>)"
proof (rule tables_ok_same_outbox [of db])
  assume ok: "tables_ok db" and n: "next_id db \<le> n"
  show "event_dlq_ok (db\<lparr>next_id := n\<rparr>)"
    using ok n event_dlq_ok_mono [of db "db\<lparr>next_id := n\<rparr>"] by (simp add: tables_ok_def runtime_ok_def)
  show "dlq_ok (db\<lparr>next_id := n\<rparr>)" using ok by (simp add: tables_ok_def runtime_ok_def dlq_ok_def)
qed (simp_all add: same_rest_def letters_kept_def)

lemma wait_ok: "tables_ok db \<Longrightarrow> tables_ok (db\<lparr>now := now db + d\<rparr>)"
  by (rule tables_ok_same_outbox [of db])
    (simp_all add: same_rest_def letters_kept_def tables_ok_def runtime_ok_def dlq_ok_def event_dlq_ok_def)

lemma review_tables:
  "versions (fst (snd (api_contract_review env s q))) = versions (fst s)"
  "outbox (fst (snd (api_contract_review env s q))) = outbox (fst s)"
  "dlq (fst (snd (api_contract_review env s q))) = dlq (fst s)"
  by (auto simp: api_contract_review_def run_review_def persist_node_def fresh_id_def Let_def
      split: sum.splits prod.splits py_error.splits)

lemma review_ok:
  assumes "guard_ok s"
  shows "guard_ok (snd (api_contract_review env s q))"
proof -
  have persisted: "guard_ok (snd (persist_node env db st e a b review m))" if ok: "tables_ok db" "store_ok st" for db st e a b review m
  proof -
    have "field_keys_ok (contract_review_fields x y p md a b r c src)" for x y p md r c src
      by (simp add: field_keys_ok_def contract_review_fields_def)
    then have "store_ok (map_option (\<lambda>st. snd (store_contract_review st (contract_review_fields x y p md a b r c src) t)) st)"
      for x y p md r c src t
      using ok(2) mem.put_ok by (cases st) (simp_all add: store_ok_def store_contract_review_def)
    then show ?thesis
      using tables_ok_ids [OF ok(1), of "Suc (next_id db)"] by (simp add: persist_node_def fresh_id_def Let_def guard_ok_def)
  qed
  obtain db st m where s: "s = (db, st, m)" by (cases s)
  obtain res s' where run: "run_review env s q = (res, s')" by (metis surj_pair)
  have "guard_ok s'"
    using run assms persisted [of db st] unfolding s run_review_def
    by (auto simp: guard_ok_def split: sum.splits prod.splits) (metis snd_conv)+
  then show ?thesis
    unfolding api_contract_review_def run by (auto split: sum.splits py_error.splits)
qed

section \<open>Requests\<close>

text \<open>A row of the outbox as the request path leaves it: within its bounds, due at once, readable and
  accounted for, also when its only delivery was made inline and failed.\<close>

lemma enqueued_bounds:
  assumes "is_dict p"
  shows "row_bounded (enqueued env ev e p db sub)"
    and "readable (enqueued env ev e p db sub)" "ob_next (enqueued env ev e p db sub) = now db"
  using assms by (simp_all add: enqueued_def new_outbox_row_def row_bounded_def readable_def Let_def)

lemma inline_delivery_letters:
  assumes "deliver_with_retry post db ev e sub p 1 True = (sent, db')" "sub_active sub"
  shows "letters_kept db db'" "\<not> sent \<Longrightarrow> row_at dlq_key (ev, sub_consumer sub) (dlq db') \<noteq> None"
proof -
  let ?d = "log_attempt (db\<lparr>delivery_failures := Suc (delivery_failures db)\<rparr>) ev (sub_consumer sub) e (sub_url sub)
    False (Some (reason_of (post (next_id db) (sub_url sub) p))) 1"
  let ?lost = "upsert_dlq ?d ev (sub_consumer sub) e (sub_url sub)
    (JDict [(''event'', p), (''failed_at'', JStr (isoformat (now ?d)))]) (reason_of (post (next_id db) (sub_url sub) p)) 1"
  have sent: "letters_kept db db'" if "sent"
    using assms that by (auto simp: deliver_with_retry_def Let_def letters_kept_def split: if_splits)
  have lost: "db' = ?lost" if "\<not> sent"
    using assms that by (simp add: deliver_with_retry_def Let_def split: if_splits)
  have "letters_kept db ?d" by (simp add: letters_kept_def)
  then have "letters_kept db ?lost" by (rule letters_kept_trans [OF _ upsert_dlq_kept])
  then show "letters_kept db db'" using sent lost by metis
  show "row_at dlq_key (ev, sub_consumer sub) (dlq db') \<noteq> None" if "\<not> sent"
    unfolding lost [OF that] using upsert_dlq_row by blast
qed

lemma enqueue_one_accounted:
  assumes iss: "outbox_issued db" and act: "sub_active sub" and sub: "get_subscription db (sub_id sub) = Some sub"
    and names: "names_event p ev"
  shows "letters_kept db (enqueue_one env ev e p db sub)"
    and "accounted (enqueue_one env ev e p db sub) (enqueued env ev e p db sub)"
proof -
  let ?row = "new_outbox_row db (gen_uuid (next_id db)) sub e p"
  let ?db = "db\<lparr>next_id := Suc (next_id db), outbox := outbox db @ [?row]\<rparr>"
  let ?res = "enqueue_one env ev e p db sub"
  have row: "new_outbox_row (db\<lparr>next_id := n\<rparr>) i sub e p = new_outbox_row db i sub e p" for n i
    by (simp add: new_outbox_row_def)
  have start: "letters_kept db ?db" by (simp add: letters_kept_def)
  have "letters_kept db ?res \<and> (ob_status (enqueued env ev e p db sub) = FAILED
      \<longrightarrow> row_at dlq_key (ev, sub_consumer sub) (dlq ?res) \<noteq> None)"
  proof (cases "inline_delivery env")
    case False
    then have "?res = ?db" by (simp add: enqueue_one_def fresh_id_def row Let_def)
    then show ?thesis using start False by (simp add: enqueued_def new_outbox_row_def)
  next
    case True
    obtain sent d where del: "deliver_with_retry (te_post env) ?db ev e sub p 1 True = (sent, d)" by (metis surj_pair)
    have res: "\<exists>f. ?res = set_outbox (gen_uuid (next_id db)) f d"
      using True del by (auto simp: enqueue_one_def fresh_id_def row Let_def)
    note L = inline_delivery_letters [OF del act]
    have "sent = is_ok (te_post env (Suc (next_id db)) (sub_url sub) p)"
      using deliver_one [OF act, of "te_post env" ?db ev e p True] del by simp
    then have "ob_status (enqueued env ev e p db sub) = FAILED \<Longrightarrow> \<not> sent" using True by (auto simp: enqueued_def Let_def)
    then show ?thesis using res L letters_kept_trans [OF start L(1)] by (auto simp: set_outbox_kept)
  qed
  then have kept: "letters_kept db ?res"
    and lost: "ob_status (enqueued env ev e p db sub) = FAILED \<Longrightarrow> row_at dlq_key (ev, sub_consumer sub) (dlq ?res) \<noteq> None"
    by blast+
  show "letters_kept db ?res" by (rule kept)
  have "ob_status (enqueued env ev e p db sub) \<in> {PENDING, DELIVERED, FAILED}"
    by (simp add: enqueued_def new_outbox_row_def Let_def)
  moreover have "ob_sub (enqueued env ev e p db sub) = sub_id sub" "ob_payload (enqueued env ev e p db sub) = p"
    by (simp_all add: enqueued_def new_outbox_row_def Let_def)
  moreover have "get_subscription ?res (sub_id sub) = Some sub" using kept_subscription [OF kept] sub by simp
  ultimately show "accounted ?res (enqueued env ev e p db sub)"
    using lost names unfolding accounted_def has_letter_def by auto
qed

lemma enqueue_all_accounted:
  assumes "outbox_issued db" "list_all sub_active subs" "names_event p ev" "is_dict p"
    and "\<And>sub. sub \<in> set subs \<Longrightarrow> get_subscription db (sub_id sub) = Some sub"
  shows "letters_kept db (foldl (enqueue_one env ev e p) db subs)
    \<and> (\<forall>r \<in> set (enqueued_all env ev e p db subs). accounted (foldl (enqueue_one env ev e p) db subs) r
        \<and> row_bounded r \<and> readable r \<and> ob_next r = now db)"
  using assms
proof (induction subs arbitrary: db)
  case (Cons sub subs)
  have act: "sub_active sub" "list_all sub_active subs" using Cons.prems(2) by simp_all
  have own: "get_subscription db (sub_id sub) = Some sub" using Cons.prems(5) by simp
  let ?db = "enqueue_one env ev e p db sub"
  note S = enqueue_one_spec [OF Cons.prems(1) act(1), of env ev e p]
  note A = enqueue_one_accounted [OF Cons.prems(1) act(1) own Cons.prems(3), of env e]
  have "get_subscription ?db (sub_id s) = Some s" if "s \<in> set subs" for s
    using kept_subscription [OF A(1)] Cons.prems(5) that by simp
  from Cons.IH [OF S(4) act(2) Cons.prems(3,4) this]
  have IH: "letters_kept ?db (foldl (enqueue_one env ev e p) ?db subs)"
    "\<forall>r \<in> set (enqueued_all env ev e p ?db subs). accounted (foldl (enqueue_one env ev e p) ?db subs) r
        \<and> row_bounded r \<and> readable r \<and> ob_next r = now ?db" by blast+
  have "now ?db = now db" using S(1) by (simp add: same_registry_def)
  then show ?case
    using IH letters_kept_trans [OF A(1) IH(1)] accounted_kept [OF IH(1) A(2)] enqueued_bounds [OF Cons.prems(4)] by simp
qed (simp add: letters_kept_def)

lemma known_subscription:
  assumes "distinct (map sub_id (subscriptions db))" "s \<in> set (subscriptions db)"
  shows "get_subscription db (sub_id s) = Some s"
  unfolding get_subscription_def
  by (rule first_row_filter_unique) (use assms in \<open>auto simp: distinct_map inj_on_def\<close>)

lemma handle_drift_ok:
  assumes ok: "tables_ok db" and h: "handle_drift env db e name ns prior new_rec c ds = (k, db')"
  shows "tables_ok db'" "letters_kept db db'"
proof -
  let ?db1 = "db\<lparr>versions := update_where (\<lambda>v. sv_id v = sv_id new_rec) (\<lambda>v. v\<lparr>sv_class := c\<rparr>) (versions db),
    next_id := Suc (next_id db)\<rparr>"
  let ?ev = "gen_uuid (next_id db)" and ?subs = "select_affected_subscriptions db e (sv_version new_rec) c"
  let ?p = "drift_payload ?ev e c (sv_version new_rec) ds"
  let ?d = "foldl (enqueue_one env ?ev e ?p) ?db1 ?subs"
  have old: "runtime_ok db" "worker_ok db" "legacy_ok db" "apart db" "subscriptions_ok db"
    "\<And>r. r \<in> set (outbox db) \<Longrightarrow> accounted db r" using ok by (simp_all add: tables_ok_def)
  note H = handle_drift_spec [OF old(1) h]
  have sel: "select_affected_subscriptions ?db1 e v c = select_affected_subscriptions db e v c" for v
    by (simp add: select_affected_subscriptions_def)
  obtain n d where enq: "enqueue_webhook_outbox env ?db1 e ?ev c (sv_version new_rec) ds = (n, d)" by (metis surj_pair)
  let ?d' = "d\<lparr>classification_total := classification_total d @ [c], drift_total := drift_total d @ [(c, e)]\<rparr>"
  obtain event where res: "db' = publish_fire_and_forget (te_publisher env) (te_publisher_name env) ?d' event"
    using h enq by (auto simp: handle_drift_def fresh_id_def Let_def)
  have d: "dlq d = dlq ?d" "subscriptions d = subscriptions ?d" "outbox d = outbox ?d"
    using enq unfolding enqueue_webhook_outbox_def Let_def sel by auto
  have iss: "outbox_issued ?db1" using old(1) by (simp add: runtime_ok_def outbox_issued_def)
  note P = publish_frame [of "te_publisher env" "te_publisher_name env" ?d' event]
  have known: "get_subscription ?db1 (sub_id s) = Some s" if "s \<in> set ?subs" for s
    by (rule known_subscription) (use that old(5) in \<open>simp_all add: subscriptions_ok_def select_affected_subscriptions_def\<close>)
  have names: "names_event ?p ?ev" "is_dict ?p" by (simp_all add: names_event_def drift_payload_def)
  note A = enqueue_all_accounted [OF iss affected_active names known]
  note S = enqueue_all_spec [OF iss affected_active, of env ?ev e ?p]
  have last: "letters_kept ?d db'" using P d by (simp add: res letters_kept_def)
  have rows: "outbox db' = outbox db @ enqueued_all env ?ev e ?p ?db1 ?subs" using P d S by (simp add: res)
  have "letters_kept db ?db1" by (simp add: letters_kept_def)
  then have kept: "letters_kept db db'" using A last letters_kept_trans by blast
  then show "letters_kept db db'" .
  have row: "accounted db' r \<and> row_bounded r \<and> readable r \<and> ob_next r = now db"
    if "r \<in> set (enqueued_all env ?ev e ?p ?db1 ?subs)" for r
    using A that accounted_kept [OF last] by fastforce
  have acc: "accounted db' r" if "r \<in> set (outbox db')" for r
    using that row accounted_kept [OF kept old(6)] unfolding rows by auto
  have "outbox_ok db'"
  proof -
    have "distinct (outbox_ids db')" using H(1) by (simp add: runtime_ok_def outbox_issued_def)
    then show ?thesis using old(2) row unfolding worker_ok_def outbox_ok_def list_all_iff rows by auto
  qed
  then have "worker_ok db'" using old(2) row H(7) unfolding worker_ok_def rows by auto
  moreover have L: "schema_snapshots db' = schema_snapshots db" "api_endpoints db' = api_endpoints db" "next_id db \<le> next_id db'"
    using H(2) by (simp_all add: same_legacy_def)
  moreover have E: "endpoints db' = endpoints db"
    using P enqueue_webhook_outbox_spec(2) [OF iss enq] by (simp add: res same_registry_def)
  moreover have "apart db'" using old(4) by (simp add: apart_def L E)
  moreover have "subscriptions_ok db'" using old(5) L(3) issued_mono by (auto simp: subscriptions_ok_def H(8) E)
  ultimately show "tables_ok db'" using H(1) legacy_ok_frame [OF old(3) L(2,1,3)] acc by (simp add: tables_ok_def)
qed

text \<open>A new endpoint of the registry gets an identifier that no legacy endpoint has, and the other way round.\<close>

lemma ensure_new:
  assumes "ensure_endpoint db ns svc m r = (x, db')"
  shows "endpoints db' = endpoints db \<or> (\<exists>e. endpoints db' = endpoints db @ [e] \<and> re_id e = gen_uuid (next_id db))"
  using assms by (auto simp: ensure_endpoint_def fresh_id_def Let_def split: option.splits)

lemma upsert_ok:
  assumes ok: "tables_ok db" and up: "upsert_schema_version db ns svc m r fp s c = ((e, name, rec, ins), db')"
  shows "tables_ok db'"
proof -
  have old: "runtime_ok db" "worker_ok db" "legacy_ok db" "apart db" "subscriptions_ok db"
    "\<And>r. r \<in> set (outbox db) \<Longrightarrow> accounted db r" using ok by (simp_all add: tables_ok_def)
  note F = upsert_frame [OF old(1) up]
  have L: "schema_snapshots db' = schema_snapshots db" "api_endpoints db' = api_endpoints db" "next_id db \<le> next_id db'"
    using F(2) by (simp_all add: same_legacy_def)
  have reg: "registry_ok db" using old(1) by (simp add: runtime_ok_def)
  have "endpoints db' = endpoints db \<or> (\<exists>e. endpoints db' = endpoints db @ [e] \<and> re_id e = gen_uuid (next_id db))"
    using reg up by (cases rule: upsert_cases) (auto dest: ensure_new)
  moreover have "ae_id a \<noteq> gen_uuid (next_id db)" if "a \<in> set (api_endpoints db)" for a
    using that old(3) issued_fresh unfolding legacy_ok_def by metis
  ultimately have E: "apart db'" "re_id ` set (endpoints db) \<subseteq> re_id ` set (endpoints db')"
    using old(4) by (auto simp: apart_def L)
  have "subscriptions_ok db'" using old(5) L(3) E(2) issued_mono unfolding subscriptions_ok_def F(4) by blast
  moreover have "letters_kept db db'" by (simp add: letters_kept_def F(4,9))
  ultimately show ?thesis
    using F(1) worker_ok_same [OF old(2) F(3)] legacy_ok_frame [OF old(3) L(2,1,3)] E(1) accounted_kept old(6)
    by (simp add: tables_ok_def F(3,5))
qed

lemma track_contract_ok:
  assumes ok: "tables_ok db" and t: "track_contract env db sub st = (res, db', st')"
  shows "tables_ok db'" "next_id db \<le> next_id db'"
proof -
  obtain e name rec ins db1 where up: "upsert_schema_version db (sm_namespace sub) (sm_service sub) (sm_method sub) (sm_route sub)
        (fingerprint (te_sha256 env) (canonicalize (JDict (sm_payload sub)))) (canonicalize (JDict (sm_payload sub))) ''SAFE''
      = ((e, name, rec, ins), db1)" by (metis surj_pair)
  note U = upsert_ok [OF ok up]
  have run: "runtime_ok db" "runtime_ok db1" using ok U by (simp_all add: tables_ok_def)
  have n: "next_id db \<le> next_id db1" using upsert_frame(2) [OF run(1) up] by (simp add: same_legacy_def)
  from run(1) up t have "tables_ok db' \<and> next_id db \<le> next_id db'"
  proof (cases rule: track_contract_cases)
    case (drift pid prior ds k)
    have "next_id db1 \<le> next_id db'" using handle_drift_spec(2) [OF run(2) drift(5)] by (simp add: same_legacy_def)
    then show ?thesis using handle_drift_ok(1) [OF U drift(5)] n by simp
  qed (use U n in simp_all)
  then show "tables_ok db'" "next_id db \<le> next_id db'" by blast+
qed

text \<open>The legacy path.\<close>

lemma legacy_rows:
  assumes "legacy_dual_write db svc m r fp s = (x, db')"
  shows "set (api_endpoints db) \<subseteq> set (api_endpoints db')"
    and "a \<in> set (api_endpoints db') \<Longrightarrow> a \<in> set (api_endpoints db) \<or> ae_id a = gen_uuid (next_id db)"
    and "v \<in> set (schema_snapshots db') \<Longrightarrow>
      ss_endpoint v \<in> ss_endpoint ` set (schema_snapshots db) \<or> ss_endpoint v \<in> ae_id ` set (api_endpoints db')"
proof -
  obtain e db1 where en: "legacy_ensure_endpoint db svc m r = (e, db1)" by (metis surj_pair)
  obtain ins db2 where reg: "register_snapshot db1 e fp s = (ins, db2)" by (metis surj_pair)
  have e1: "set (api_endpoints db) \<subseteq> set (api_endpoints db1)" "schema_snapshots db1 = schema_snapshots db"
    "e \<in> ae_id ` set (api_endpoints db1)"
    "\<And>a. a \<in> set (api_endpoints db1) \<Longrightarrow> a \<in> set (api_endpoints db) \<or> ae_id a = gen_uuid (next_id db)"
    using en by (auto simp: legacy_ensure_endpoint_def fresh_id_def Let_def split: option.splits dest!: first_row_Some_set)
  have e2: "api_endpoints db2 = api_endpoints db1"
    "\<And>v. v \<in> set (schema_snapshots db2) \<Longrightarrow> v \<in> set (schema_snapshots db) \<or> ss_endpoint v = e"
    using reg e1(2) by (auto simp: register_snapshot_def fresh_id_def Let_def split: if_splits)
  have base: "api_endpoints (set_baseline db2 e fp) = api_endpoints db2"
    "map ss_endpoint (schema_snapshots (set_baseline db2 e fp)) = map ss_endpoint (schema_snapshots db2)"
    by (simp_all add: set_baseline_def map_update_where)
  have "db' = db2 \<or> db' = set_baseline db2 e fp \<or> (\<exists>ds. db' = log_drift_violations db2 e fp ds)"
    using assms by (auto simp: legacy_dual_write_def register_payload_snapshot_def en reg Let_def split: option.splits if_splits)
  then have last: "api_endpoints db' = api_endpoints db2" "map ss_endpoint (schema_snapshots db') = map ss_endpoint (schema_snapshots db2)"
    using base log_drift_frame by auto
  show "set (api_endpoints db) \<subseteq> set (api_endpoints db')" using e1(1) e2(1) last(1) by simp
  show "a \<in> set (api_endpoints db') \<Longrightarrow> a \<in> set (api_endpoints db) \<or> ae_id a = gen_uuid (next_id db)"
    using e1(4) e2(1) last(1) by simp
  show "ss_endpoint v \<in> ss_endpoint ` set (schema_snapshots db) \<or> ss_endpoint v \<in> ae_id ` set (api_endpoints db')"
    if "v \<in> set (schema_snapshots db')"
  proof -
    have "ss_endpoint v \<in> set (map ss_endpoint (schema_snapshots db2))" unfolding last(2) [symmetric] using that by simp
    then obtain w where "w \<in> set (schema_snapshots db2)" "ss_endpoint v = ss_endpoint w" by auto
    then show ?thesis using e2 e1(3) last(1) by auto
  qed
qed

lemma only_legacy_fields:
  assumes "only_legacy db db'"
  shows "outbox db' = outbox db" "now db' = now db" "dlq db' = dlq db" "subscriptions db' = subscriptions db"
    "endpoints db' = endpoints db" "versions db' = versions db"
proof -
  have part: "legacy_part_of db db' = db" using assms by (simp add: only_legacy_def)
  show "outbox db' = outbox db" "now db' = now db" "dlq db' = dlq db" "subscriptions db' = subscriptions db"
    "endpoints db' = endpoints db" "versions db' = versions db"
    using arg_cong [OF part, of outbox] arg_cong [OF part, of now] arg_cong [OF part, of dlq] arg_cong [OF part, of versions]
      arg_cong [OF part, of subscriptions] arg_cong [OF part, of endpoints] by (simp_all add: legacy_part_of_def)
qed

lemma legacy_write_ok:
  assumes ok: "tables_ok db" and w: "legacy_dual_write db svc m r fp s = (x, db')"
  shows "tables_ok db'"
proof -
  have old: "runtime_ok db" "worker_ok db" "legacy_ok db" "apart db" "subscriptions_ok db"
    "\<And>r. r \<in> set (outbox db) \<Longrightarrow> accounted db r" using ok by (simp_all add: tables_ok_def)
  note W = only_legacy_write [OF w] and R = legacy_rows [OF w]
  have n: "next_id db \<le> next_id db'" using W by (simp add: only_legacy_def)
  note same = only_legacy_fields [OF W]
  obtain e ins sev k where x: "x = (e, ins, sev, k)" by (cases x)
  have leg: "legacy_ok db'" using legacy_write_spec [OF old(3) w [unfolded x]] by blast
  have "re_id d \<noteq> gen_uuid (next_id db)" if "d \<in> set (endpoints db)" for d
    using that old(1) issued_fresh unfolding runtime_ok_def registry_ok_def endpoints_ok_def by metis
  then have "ae_id a \<noteq> re_id d" if "a \<in> set (api_endpoints db')" "d \<in> set (endpoints db)" for a d
    using R(2) [OF that(1)] old(4) that(2) unfolding apart_def by fastforce
  moreover have "ss_endpoint v \<in> ae_id ` set (api_endpoints db')" if "v \<in> set (schema_snapshots db')" for v
    using R(3) [OF that] image_mono [OF R(1), of ae_id] old(4) unfolding apart_def by auto
  ultimately have "apart db'" unfolding apart_def same by blast
  moreover have "letters_kept db db'" by (simp add: letters_kept_def same)
  then have "\<forall>r \<in> set (outbox db'). accounted db' r" using old(6) accounted_kept by (simp add: same)
  moreover have "subscriptions_ok db'" using old(5) n issued_mono unfolding subscriptions_ok_def same by blast
  ultimately show ?thesis
    using leg only_legacy_ok(1) [OF W old(1)] worker_ok_same [OF old(2) same(1)] by (simp add: tables_ok_def same)
qed

text \<open>The outcomes of a request: rolled back, without the legacy path, or with it.\<close>

lemma track_payload_cases:
  assumes "track_payload env db sub st = (res, db', st')"
    and "track_contract env db (sub\<lparr>sm_method := py_upper (sm_method sub)\<rparr>)
      (if startswith (py_lower (sm_namespace sub)) ''k6'' then None else st) = (r, d, s)"
  obtains "db' = db\<lparr>next_id := next_id d\<rparr>" | "db' = d"
    | fp n x where "legacy_dual_write d (sm_service sub) (py_upper (sm_method sub)) (sm_route sub) fp n = (x, db')"
  using assms by (cases r; cases "structural_string (JDict (sm_payload sub))"; cases "fingerprint_schema (te_sha256 env) (JDict (sm_payload sub))")
    (auto simp: track_payload_def Let_def simp del: normalize_types.simps split: if_splits prod.splits)

lemma track_payload_ok:
  assumes ok: "tables_ok db" and t: "track_payload env db sub st = (res, db', st')"
  shows "tables_ok db'"
proof -
  obtain r d s where c: "track_contract env db (sub\<lparr>sm_method := py_upper (sm_method sub)\<rparr>)
    (if startswith (py_lower (sm_namespace sub)) ''k6'' then None else st) = (r, d, s)" by (metis surj_pair)
  note T = track_contract_ok [OF ok c]
  from t c show ?thesis
    by (rule track_payload_cases) (use T tables_ok_ids [OF ok T(2)] legacy_write_ok [OF T(1)] in simp_all)
qed

section \<open>The document store\<close>

lemma store_put: "store_ok st \<Longrightarrow> field_keys_ok f \<Longrightarrow> store_ok (map_option (\<lambda>st. snd (mem_store_document st c k f t)) st)"
  using mem.put_ok by (cases st) (simp_all add: store_ok_def)

lemma stored_fields_ok:
  "field_keys_ok (schema_diff_fields e n ns svc m r p fp o1 o2 c ds src)"
  "field_keys_ok (validation_error_fields src path errs body md)"
  by (simp_all add: field_keys_ok_def schema_diff_fields_def validation_error_fields_def)

lemmas stores = store_payload_snapshot_def store_schema_diff_def store_validation_error_def store_replay_artifact_def

lemma track_store_ok:
  assumes "store_ok st" "track_payload env db sub st = (res, db', st')"
  shows "store_ok st'"
proof -
  have contract: "store_ok s'" if "store_ok s" "track_contract env d q s = (r, d', s')" for d q s r d' s'
    using that by (auto simp: track_contract_def report_drift_def Let_def stores store_put payload_snapshot_fields_ok
        stored_fields_ok simp del: canonicalize.simps split: prod.splits option.splits sum.splits)
  let ?bench = "startswith (py_lower (sm_namespace sub)) ''k6''" and ?sub = "sub\<lparr>sm_method := py_upper (sm_method sub)\<rparr>"
  obtain r d s where c: "track_contract env db ?sub (if ?bench then None else st) = (r, d, s)" by (metis surj_pair)
  have "st' = (if ?bench then st else s)"
    using assms(2) by (cases r; cases "structural_string (JDict (sm_payload sub))"; cases "fingerprint_schema (te_sha256 env) (JDict (sm_payload sub))")
      (auto simp: track_payload_def c Let_def simp del: normalize_types.simps split: if_splits prod.splits)
  then show ?thesis using contract [OF _ c] assms(1) by (simp split: if_splits)
qed

lemma replay_store_ok:
  "store_ok st \<Longrightarrow> api_replay_webhook_dlq post db i st = (res, db', st') \<Longrightarrow> store_ok st'"
  "store_ok st \<Longrightarrow> api_replay_drift_event pub name db i st = (res, db', st') \<Longrightarrow> store_ok st'"
  by (auto simp: api_replay_webhook_dlq_def replay_dlq_entry_def api_replay_drift_event_def replay_event_dlq_def Let_def
      stores store_put replay_artifact_fields_ok split: prod.splits option.splits sum.splits if_splits)

section \<open>Every step keeps the invariant\<close>

lemma guard_step_ok:
  assumes "guard_ok s"
  shows "guard_ok (guard_apply op s)"
proof -
  obtain db st m where s: "s = (db, st, m)" by (cases s)
  have ok: "tables_ok db" "store_ok st" using assms by (simp_all add: s guard_ok_def)
  show ?thesis
  proof (cases op)
    case (Track env sub)
    obtain res db' st' where t: "track_payload env db sub st = (res, db', st')" by (metis prod_cases3)
    show ?thesis using track_payload_ok [OF ok(1) t] track_store_ok [OF ok(2) t] by (simp add: s Track t guard_ok_def)
  next
    case (CreateSubscription q)
    show ?thesis
      using ok create_ok [OF ok(1)] by (simp add: s CreateSubscription guard_ok_def split: sum.split prod.split)
  next
    case (PatchSubscription i q)
    show ?thesis
      using ok patch_ok [OF ok(1)] by (simp add: s PatchSubscription guard_ok_def split: sum.split prod.split)
  next
    case (ReplayDelivery post i)
    obtain res db' st' where r: "api_replay_webhook_dlq post db i st = (res, db', st')" by (metis prod_cases3)
    show ?thesis using replay_delivery_ok [OF ok(1) r] replay_store_ok(1) [OF ok(2) r] by (simp add: s ReplayDelivery r guard_ok_def)
  next
    case (ReplayEvent pub name i)
    obtain res db' st' where r: "api_replay_drift_event pub name db i st = (res, db', st')" by (metis prod_cases3)
    show ?thesis using replay_event_ok [OF ok(1) r] replay_store_ok(2) [OF ok(2) r] by (simp add: s ReplayEvent r guard_ok_def)
  next
    case (WorkerTurn post json_loads t)
    show ?thesis using worker_turn_ok [OF ok(1)] ok(2) by (simp add: s WorkerTurn guard_ok_def)
  next
    case (ReviewContract env q)
    show ?thesis using review_ok [OF assms] by (simp add: s ReviewContract)
  next
    case (RejectRequest path http_method errors body)
    show ?thesis
      using ok by (simp add: s RejectRequest guard_ok_def request_validation_handler_def stores store_put stored_fields_ok)
  next
    case (Wait d)
    show ?thesis using wait_ok [OF ok(1)] ok(2) by (simp add: s Wait guard_ok_def)
  qed
qed

lemma guard_reachable_ok: "guard_reachable s \<Longrightarrow> guard_ok s"
  by (induction rule: guard_reachable.induct) (simp_all add: fresh_guard_ok guard_step_ok)

end
