(* ===== verification/Guard_Facts.thy ===== *)
theory Guard_Facts
  imports Guard_System Benchmarks
begin

text \<open>
  What holds in every reachable state of the runtime guard: its tables are well formed, no
  notification is lost, the worker settles every row, what was recorded stays recorded, and what the
  load benchmark can read of it.
\<close>

section \<open>What is recorded stays\<close>

text \<open>The history of an endpoint, the rows of the outbox and the keys of the dead letters only grow.\<close>

definition recorded :: "rdb \<Rightarrow> rdb \<Rightarrow> bool" where
  "recorded db db' \<longleftrightarrow> (\<forall>e. prefix (history db e) (history db' e)) \<and> prefix (outbox_ids db) (outbox_ids db')
     \<and> (\<forall>k. row_at dlq_key k (dlq db) \<noteq> None \<longrightarrow> row_at dlq_key k (dlq db') \<noteq> None)"

lemma recorded_trans:
  assumes "recorded a b" "recorded b c" shows "recorded a c"
  unfolding recorded_def
proof (intro conjI allI impI)
  show "prefix (history a e) (history c e)" for e
    by (rule prefix_order.trans [of _ "history b e"]) (use assms in \<open>simp_all add: recorded_def\<close>)
  show "prefix (outbox_ids a) (outbox_ids c)"
    by (rule prefix_order.trans [of _ "outbox_ids b"]) (use assms in \<open>simp_all add: recorded_def\<close>)
  show "row_at dlq_key k (dlq c) \<noteq> None" if "row_at dlq_key k (dlq a) \<noteq> None" for k
    using assms that unfolding recorded_def by metis
qed

lemma recorded_same:
  assumes "versions db' = versions db" "outbox_ids db' = outbox_ids db" "letters_kept db db'"
  shows "recorded db db'"
  using assms by (simp add: recorded_def letters_kept_def history_def)

lemma recorded_fields:
  assumes "versions db' = versions db" "outbox db' = outbox db" "dlq db' = dlq db"
  shows "recorded db db'"
  using assms by (simp add: recorded_def history_def)

lemma upsert_recorded:
  assumes "runtime_ok db" and up: "upsert_schema_version db ns svc m r fp s c = ((e, name, rec, ins), db')"
  shows "recorded db db'"
proof -
  have reg: "registry_ok db" using assms(1) by (simp add: runtime_ok_def)
  note F = upsert_frame [OF assms(1) up]
  have "prefix (history db f) (history db' f)" for f
    using reg up
  proof (cases rule: upsert_cases)
    case (found d)
    then show ?thesis using ensure_ok(2) [OF reg found(1)] by (simp add: history_def)
  next
    case (inserted d)
    have "rows_of (versions db') f = (if f = e then extend_rows (rows_of (versions db) e) rec else rows_of (versions db) f)"
      by (rule upsert_inserted_rows [OF reg inserted(1,3-5)])
    then show ?thesis by (simp add: history_def history_extend)
  qed
  then show ?thesis by (simp add: recorded_def F(3,9))
qed


lemma drift_recorded:
  assumes ok: "tables_ok db" and h: "handle_drift env db e name ns prior new_rec c ds = (k, db')"
  shows "recorded db db'"
proof -
  have "runtime_ok db" using ok by (simp add: tables_ok_def)
  note H = handle_drift_spec [OF this h]
  let ?f = "\<lambda>v. v\<lparr>sv_class := c\<rparr>"
  have "rows_of (versions db') f = update_where (\<lambda>v. sv_id v = sv_id new_rec) ?f (rows_of (versions db) f)" for f
    unfolding H(3) by (rule rows_of_update) simp
  then have "history db' f = history db f" for f
    by (simp add: history_def) (rule map_update_where, simp)
  moreover obtain rows where "outbox db' = outbox db @ rows" using H(5) by blast
  ultimately show ?thesis
    using handle_drift_ok(2) [OF ok h] by (simp add: recorded_def letters_kept_def)
qed

lemma track_recorded:
  assumes ok: "tables_ok db" and t: "track_contract env db sub st = (res, db', st')"
  shows "recorded db db'"
proof -
  obtain e name rec ins db1 where up: "upsert_schema_version db (sm_namespace sub) (sm_service sub) (sm_method sub) (sm_route sub)
        (fingerprint (te_sha256 env) (canonicalize (JDict (sm_payload sub)))) (canonicalize (JDict (sm_payload sub))) ''SAFE''
      = ((e, name, rec, ins), db1)" by (metis surj_pair)
  have run: "runtime_ok db" using ok by (simp add: tables_ok_def)
  note U = upsert_ok [OF ok up] and R = upsert_recorded [OF run up]
  from run up t show ?thesis
  proof (cases rule: track_contract_cases)
    case (drift pid prior ds k)
    show ?thesis by (rule recorded_trans [OF R drift_recorded [OF U drift(5)]])
  qed (use R in simp_all)
qed

lemma step_recorded:
  assumes "guard_ok s"
  shows "recorded (fst s) (fst (guard_apply op s))"
proof -
  obtain db st m where s: "s = (db, st, m)" by (cases s)
  have ok: "tables_ok db" using assms by (simp add: s guard_ok_def)
  have same: "recorded db db" by (rule recorded_fields) simp_all
  show ?thesis
  proof (cases op)
    case (Track env sub)
    obtain res db' st' where t: "track_payload env db sub st = (res, db', st')" by (metis prod_cases3)
    obtain r d u where c: "track_contract env db (sub\<lparr>sm_method := py_upper (sm_method sub)\<rparr>)
      (if startswith (py_lower (sm_namespace sub)) ''k6'' then None else st) = (r, d, u)" by (metis surj_pair)
    note T = track_recorded [OF ok c]
    from t c have "recorded db db'"
    proof (rule track_payload_cases)
      fix fp n x assume "legacy_dual_write d (sm_service sub) (py_upper (sm_method sub)) (sm_route sub) fp n = (x, db')"
      then have "recorded d db'"
        using only_legacy_fields [OF only_legacy_write] by (intro recorded_fields) simp_all
      then show ?thesis by (rule recorded_trans [OF T])
    qed (use T in \<open>simp_all add: recorded_fields\<close>)
    then show ?thesis by (simp add: s Track t)
  next
    case (CreateSubscription q)
    have "recorded db db'" if "api_create db q = Inr (x, db')" for x db'
      using that by (intro recorded_fields) (auto simp: api_create_def create_subscription_def fresh_id_def Let_def split: if_splits)
    then show ?thesis using same by (simp add: s CreateSubscription split: sum.split prod.split)
  next
    case (PatchSubscription i q)
    have "recorded db db'" if "api_patch db i q = Inr (x, db')" for x db'
      using that by (intro recorded_fields) (auto simp: api_patch_def update_subscription_def Let_def split: if_splits option.splits prod.splits)
    then show ?thesis using same by (simp add: s PatchSubscription split: sum.split prod.split)
  next
    case (ReplayDelivery post i)
    obtain res db' st' where r: "api_replay_webhook_dlq post db i st = (res, db', st')" by (metis prod_cases3)
    show ?thesis using replay_delivery_kept [OF r] by (simp add: s ReplayDelivery r recorded_same)
  next
    case (ReplayEvent pub name i)
    obtain res db' st' where r: "api_replay_drift_event pub name db i st = (res, db', st')" by (metis prod_cases3)
    show ?thesis using replay_event_rest [OF r] by (simp add: s ReplayEvent r recorded_fields same_rest_def)
  next
    case (WorkerTurn post json_loads t)
    show ?thesis using turn_kept [OF ok] by (simp add: s WorkerTurn recorded_same)
  next
    case (ReviewContract env q)
    show ?thesis using review_tables by (simp add: s ReviewContract recorded_fields)
  next
    case (RejectRequest path http_method errors body)
    show ?thesis using same by (simp add: s RejectRequest)
  next
    case (Wait d)
    show ?thesis by (simp add: s Wait recorded_fields)
  qed
qed

lemma run_recorded: "guard_ok s \<Longrightarrow> recorded (fst s) (fst (run_guard ops s))"
proof (induction ops arbitrary: s)
  case Nil
  then show ?case by (simp add: run_guard_def recorded_fields)
next
  case (Cons op ops)
  have "recorded (fst (guard_apply op s)) (fst (run_guard ops (guard_apply op s)))"
    by (rule Cons.IH [OF guard_step_ok [OF Cons.prems]])
  then show ?case using recorded_trans [OF step_recorded [OF Cons.prems]] by (simp add: run_guard_def)
qed

lemma turn_gauge:
  assumes "tables_ok db"
  shows "outbox_pending_gauge (turn post json_loads t db) = int (pending_count (turn post json_loads t db))"
proof -
  obtain res db1 where p: "poll_once post json_loads 50 db = (res, db1)"
    and t: "turn post json_loads t db = db1\<lparr>now := now db1 + worker_sleep t res\<rparr>" by (rule turn_parts)
  have old: "worker_ok db" "distinct (outbox_ids db)" using assms by (simp_all add: tables_ok_def runtime_ok_def outbox_issued_def)
  have "outbox_pending_gauge db1 = int (pending_count db1)"
    using poll_work(3) [OF old(1) p] poll_rows [OF old(2) p] by blast
  then show ?thesis by (simp add: t pending_count_def)
qed

lemma run_keeps_tables:
  "tables_ok db \<Longrightarrow> tables_ok (run_outbox_worker post json_loads t n db)
    \<and> outbox_ids (run_outbox_worker post json_loads t n db) = outbox_ids db"
proof (induction n arbitrary: db)
  case (Suc n)
  from Suc.IH [OF worker_turn_ok [OF Suc.prems]] turn_kept(2) [OF Suc.prems] show ?case unfolding run_turn by metis
qed simp

section \<open>A run\<close>

text \<open>An endpoint is seen, a consumer subscribes to it, and the endpoint loses its only field; the
  deliveries are left to the worker.\<close>

definition demo_call :: "string \<Rightarrow> json pydict \<Rightarrow> guard_op" where
  "demo_call digest p = Track (demo_env\<lparr>te_sha256 := (\<lambda>s. digest), te_inline := Some ''false''\<rparr>)
     ((demo_submission p)\<lparr>sm_namespace := ''k6''\<rparr>)"

definition demo_subscribed :: rdb where
  "demo_subscribed = (empty_rdb 0)\<lparr>next_id := 3,
     endpoints := [\<lparr>re_id = gen_uuid 0, re_namespace = ''k6'', re_service = ''s'', re_method = ''GET'', re_route = ''/x'',
       re_name = ''s GET /x''\<rparr>],
     versions := [\<lparr>sv_id = gen_uuid 1, sv_endpoint = gen_uuid 0, sv_version = 1, sv_fingerprint = ''old'',
       sv_schema = canonicalize (JDict [(''a'', JInt 1)]), sv_class = ''SAFE'', sv_previous = None, sv_current = True\<rparr>],
     subscriptions := [(demo_sub True)\<lparr>sub_id := gen_uuid 2, sub_endpoint := gen_uuid 0\<rparr>]\<rparr>"

definition demo_ops :: "guard_op list" where
  "demo_ops = [demo_call ''old'' [(''a'', JInt 1)], CreateSubscription (create_defaults ''c'' (gen_uuid 0) ''u'')]"

lemma demo_names: "py_upper ''GET'' = ''GET''" "startswith (py_lower ''k6'') ''k6''"
  by code_simp+

lemma demo_subscribed_run: "run_guard demo_ops (fresh_guard 0 False) = (demo_subscribed, None, no_metrics)"
proof -
  have s1: "guard_apply (demo_call ''old'' [(''a'', JInt 1)]) (fresh_guard 0 False)
    = (demo_subscribed\<lparr>next_id := 2, subscriptions := []\<rparr>, None, no_metrics)"
    using demo_names by (simp add: demo_call_def demo_submission_def demo_env_def fresh_guard_def track_payload_def
        track_contract_def Let_def empty_rdb_def upsert_schema_version_def ensure_endpoint_def fresh_id_def find_version_def
        get_current_schema_def write_version_def next_row_def prior_id_def fingerprint_def demo_subscribed_def sort_desc_def
        del: canonicalize.simps)
  show ?thesis unfolding demo_ops_def run_guard_def foldl.simps s1
    by (simp add: api_create_def create_subscription_def create_defaults_def demo_subscribed_def fresh_id_def
        demo_sub_def Let_def empty_rdb_def)
qed

lemma unpublished_row: "event_dlq (publish_fire_and_forget (\<lambda>n e. Some msg) name db e) \<noteq> []"
proof -
  have three: "[1..3::int] = [1, 2, 3]" by code_simp
  have "publish_with_retry (\<lambda>n e. Some msg) e 3 = (Some msg, 3, [50, 100])"
    by (simp add: publish_with_retry_def three)
  then show ?thesis
    by (auto simp: publish_fire_and_forget_def record_event_rows upsert_row_def update_where_def)
qed

lemma demo_drifted:
  obtains db r e where "guard_reachable (db, None, no_metrics)" "r \<in> set (outbox db)" "ob_status r = PENDING" "ob_sub r = gen_uuid 2"
    "e \<in> set (event_dlq db)"
proof -
  have reach: "guard_reachable (demo_subscribed, None, no_metrics)"
    using run_reachable [OF guard_reachable.start, of demo_ops 0 False] unfolding demo_subscribed_run .
  then have ok: "runtime_ok demo_subscribed" using guard_reachable_ok by (fastforce simp: guard_ok_def tables_ok_def)
  let ?env = "demo_env\<lparr>te_sha256 := (\<lambda>s. ''new''), te_inline := Some ''false''\<rparr>"
  let ?sub = "(demo_submission [])\<lparr>sm_namespace := ''k6''\<rparr>" and ?db = demo_subscribed
  have upper: "?sub\<lparr>sm_method := py_upper (sm_method ?sub)\<rparr> = ?sub" using demo_names(1) by (simp add: demo_submission_def)
  have en: "ensure_endpoint ?db (sm_namespace ?sub) (sm_service ?sub) (sm_method ?sub) (sm_route ?sub) = ((gen_uuid 0, ''s GET /x''), ?db)"
    by (simp add: ensure_endpoint_def demo_subscribed_def demo_submission_def reg_key_def Let_def)
  have cur: "get_current_schema (versions ?db) (gen_uuid 0) = Some (hd (versions demo_subscribed))"
    by (simp add: get_current_schema_def demo_subscribed_def sort_desc_def)
  have new: "find_version (versions ?db) (gen_uuid 0) (fingerprint (te_sha256 ?env) (canonicalize (JDict (sm_payload ?sub)))) = None"
    by (simp add: find_version_def demo_subscribed_def fingerprint_def)
  have diff: "diff_and_classify (sv_schema (hd (versions ?db))) (canonicalize (JDict (sm_payload ?sub))) = Inr [demo_lost]"
    using demo_drift(4) by (simp add: demo_subscribed_def demo_tracked_def demo_submission_def del: canonicalize.simps)
  obtain res d s where t: "track_contract ?env ?db ?sub None = (res, d, s)" by (metis prod_cases3)
  obtain db1 row prior k fp where up: "upsert_schema_version ?db (sm_namespace ?sub) (sm_service ?sub) (sm_method ?sub) (sm_route ?sub) fp
        (canonicalize (JDict (sm_payload ?sub))) ''SAFE'' = ((gen_uuid 0, ''s GET /x'', row, True), db1)"
    and drift: "handle_drift ?env db1 (gen_uuid 0) ''s GET /x'' (sm_namespace ?sub) prior row
        (compat_name (summarize_classification [demo_lost])) (map diff_json [demo_lost]) = (k, d)"
    and res: "\<exists>r. res = Inr r"
    using track_drift [OF ok en cur new diff t] by metis
  note F = upsert_frame [OF ok up]
  note H = handle_drift_spec [OF F(1) drift]
  have wait: "\<not> inline_delivery ?env" by (simp add: inline_delivery_def py_lower_def char_lower_def)
  have sel: "select_affected_subscriptions db1 (gen_uuid 0) (sv_version row) (compat_name (summarize_classification [demo_lost]))
      = subscriptions ?db"
    unfolding demo_drift(5) select_affected_subscriptions_def F(4)
    by (simp add: affected_by_def threshold_rank_def severity_rank_def demo_subscribed_def demo_sub_def)
  have "\<exists>x e. d = publish_fire_and_forget (te_publisher ?env) (te_publisher_name ?env) x e"
    using drift by (auto simp: handle_drift_def Let_def split: prod.splits)
  moreover have "te_publisher ?env = (\<lambda>n e. Some ''down'')" by (simp add: demo_env_def)
  ultimately have "event_dlq d \<noteq> []" using unpublished_row by metis
  then obtain e where e: "e \<in> set (event_dlq d)" by (cases "event_dlq d") auto
  obtain ev rows where rows: "outbox d = outbox ?db @ rows"
    "map (\<lambda>r. (ob_sub r, ob_endpoint r, ob_payload r)) rows = map (\<lambda>s. (sub_id s, gen_uuid 0, drift_payload ev (gen_uuid 0)
        (compat_name (summarize_classification [demo_lost])) (sv_version row) (map diff_json [demo_lost]))) (subscriptions ?db)"
    "list_all (\<lambda>r. ob_status r = PENDING) rows"
    using H(5) wait unfolding sel F(3) by (auto simp: list_all_iff)
  have "map ob_sub rows = map sub_id (subscriptions ?db)"
    using arg_cong [OF rows(2), of "map fst"] by (simp add: comp_def)
  then obtain r where r: "rows = [r]" "ob_sub r = gen_uuid 2" by (auto simp: demo_subscribed_def)
  have "guard_apply (demo_call ''new'' []) (?db, None, no_metrics) = (d, None, no_metrics)"
  proof -
    have "startswith (py_lower (sm_namespace ?sub)) ''k6''" using demo_names(2) by simp
    then have "track_payload ?env ?db ?sub None = (Inr (JDict (projr res)), d, None)"
      using t res unfolding track_payload_def upper Let_def by auto
    then show ?thesis by (simp add: demo_call_def)
  qed
  then have "guard_reachable (d, None, no_metrics)" using guard_reachable.step [OF reach] by metis
  then show thesis by (rule that) (use r rows e in simp_all)
qed

section \<open>Properties\<close>

text \<open>C7: The invariant of the whole runtime guard. Whatever requests, subscriptions, patches, replays,
  reviews, rejected bodies and worker polls come in any order, and whatever consumers, publishers and
  model providers answer, every reachable state has: version chains and unique keys in the registry,
  outbox rows with unique identifiers and bounded attempts, dead letter queues with one row per key
  and gauges that match them, well-formed legacy tables that share no endpoint identifier with the
  registry, and subscriptions of registered endpoints only; and no document was ever replaced.\<close>

theorem guard_invariant:
  assumes "guard_reachable (db, st, m)"
  shows "registry_ok db \<and> outbox_ok db \<and> dlq_ok db \<and> event_dlq_ok db \<and> legacy_ok db \<and> store_ok st
    \<and> (\<forall>s \<in> set (subscriptions db). sub_endpoint s \<in> re_id ` set (endpoints db))
    \<and> (\<forall>a \<in> set (api_endpoints db). ae_id a \<notin> re_id ` set (endpoints db))"
proof -
  have "tables_ok db" "store_ok st" using guard_reachable_ok [OF assms] by (simp_all add: guard_ok_def)
  then show ?thesis
    unfolding tables_ok_def runtime_ok_def worker_ok_def subscriptions_ok_def apart_def by blast
qed

lemma guard_invariant_witness:
  "registry_ok demo_subscribed \<and> dlq_ok demo_subscribed \<and> gen_uuid 0 \<in> re_id ` set (endpoints demo_subscribed)"
proof -
  have "guard_reachable (demo_subscribed, None, no_metrics)"
    using run_reachable [OF guard_reachable.start, of demo_ops 0 False] unfolding demo_subscribed_run .
  from guard_invariant [OF this] show ?thesis by (simp add: demo_subscribed_def)
qed

text \<open>C11: No notification is lost. In every reachable state each row of the outbox belongs to an
  existing subscription, and it waits with attempts left, was delivered, or failed and the dead letter
  queue holds its event for the consumer; none is stuck in between. This covers the deliveries made
  inline by a request, the worker's polls, patches of the subscription and replays in any order.\<close>

theorem no_notification_is_lost:
  assumes "guard_reachable (db, st, m)" and "r \<in> set (outbox db)"
  shows "\<exists>sub. get_subscription db (ob_sub r) = Some sub
    \<and> (case ob_status r of PENDING \<Rightarrow> ob_attempts r < ob_max r | DELIVERED \<Rightarrow> True | DELIVERING \<Rightarrow> False
       | FAILED \<Rightarrow> has_letter db (ob_payload r) (sub_consumer sub))"
proof -
  have "tables_ok db" using guard_reachable_ok [OF assms(1)] by (simp add: guard_ok_def)
  then have "accounted db r" "row_bounded r"
    using assms(2) by (simp_all add: tables_ok_def worker_ok_def outbox_ok_def list_all_iff)
  then show ?thesis unfolding accounted_def row_bounded_def by (auto split: outbox_status.splits)
qed

lemma no_notification_is_lost_witness:
  "\<exists>db r sub. guard_reachable (db, None, no_metrics) \<and> r \<in> set (outbox db) \<and> ob_attempts r < ob_max r
    \<and> get_subscription db (gen_uuid 2) = Some sub"
proof -
  obtain db r where d: "guard_reachable (db, None, no_metrics)" "r \<in> set (outbox db)" "ob_status r = PENDING" "ob_sub r = gen_uuid 2"
    by (rule demo_drifted)
  from no_notification_is_lost [OF d(1,2)] d(3,4) obtain sub where
    "get_subscription db (gen_uuid 2) = Some sub" "ob_attempts r < ob_max r" by auto
  with d(1,2) show ?thesis by blast
qed

text \<open>C12: The worker settles everything, from any state the guard can reach. However the consumers
  answer, once it has polled often enough for the attempts that are left, every row of the outbox is
  delivered or is a dead letter of its consumer, no row was added or dropped, and the gauge of pending
  rows reads zero.\<close>

theorem worker_settles_every_row:
  assumes "guard_reachable (db, st, m)" and "0 < t" and "work db * polls_per_attempt t \<le> n"
  shows "let db' = run_outbox_worker post json_loads t (Suc n) db in
    outbox_ids db' = outbox_ids db \<and> outbox_pending_gauge db' = 0
    \<and> (\<forall>r \<in> set (outbox db'). \<exists>sub. get_subscription db (ob_sub r) = Some sub
        \<and> (ob_status r = DELIVERED \<or> ob_status r = FAILED \<and> has_letter db' (ob_payload r) (sub_consumer sub)))"
proof -
  let ?run = "\<lambda>k. run_outbox_worker post json_loads t k db"
  have ok: "tables_ok db" using guard_reachable_ok [OF assms(1)] by (simp add: guard_ok_def)
  then have w: "worker_ok db" by (simp add: tables_ok_def)
  have all: "tables_ok (?run k) \<and> outbox_ids (?run k) = outbox_ids db" for k
    using run_keeps_tables [OF ok] by blast
  obtain d where d: "Suc n = work db * polls_per_attempt t + d" using assms(3) by (metis le_Suc_eq le_add_diff_inverse)
  have "work (?run (Suc n)) \<le> work (?run (work db * polls_per_attempt t))"
    unfolding d run_add by (rule run_work(2) [OF run_work(1) [OF w]])
  then have zero: "work (?run (Suc n)) = 0" using work_runs_out [OF w assms(2)] by simp
  have oo: "outbox_ok (?run (Suc n))" using run_work(1) [OF w] unfolding worker_ok_def by blast
  have idle: "ob_status r \<noteq> PENDING" if "r \<in> set (outbox (?run (Suc n)))" for r
    using pending_work [OF oo that] zero by linarith
  have "?run (Suc n) = turn post json_loads t (?run n)"
    using run_add [of post json_loads t n 1 db] by (simp add: run_turn del: run_outbox_worker.simps(2))
  then have gauge: "outbox_pending_gauge (?run (Suc n)) = int (pending_count (?run (Suc n)))"
    using turn_gauge all by metis
  have "pending_count (?run (Suc n)) = 0" using idle by (simp add: pending_count_def)
  moreover have "\<exists>sub. get_subscription db (ob_sub r) = Some sub
      \<and> (ob_status r = DELIVERED \<or> ob_status r = FAILED \<and> has_letter (?run (Suc n)) (ob_payload r) (sub_consumer sub))"
    if r: "r \<in> set (outbox (?run (Suc n)))" for r
  proof -
    have "accounted (?run (Suc n)) r" using all r unfolding tables_ok_def by blast
    then show ?thesis using idle [OF r] unfolding accounted_def kept_subscription [OF run_kept [OF w]] by blast
  qed
  ultimately show ?thesis using all gauge unfolding Let_def by (simp del: run_outbox_worker.simps)
qed

lemma worker_settles_every_row_witness:
  "\<exists>db n r. guard_reachable (db, None, no_metrics)
    \<and> r \<in> set (outbox (run_outbox_worker (\<lambda>n u p. Response 500) (\<lambda>s. Inr JNull) 15000000 n db)) \<and> ob_status r \<in> {DELIVERED, FAILED}"
proof -
  obtain db r where d: "guard_reachable (db, None, no_metrics)" "r \<in> set (outbox db)" by (rule demo_drifted)
  let ?post = "\<lambda>(n :: nat) (u :: string) (p :: json). Response 500"
  let ?run = "run_outbox_worker ?post (\<lambda>s. Inr JNull) 15000000 (Suc (work db * polls_per_attempt 15000000)) db"
  have W: "outbox_ids ?run = outbox_ids db \<and> (\<forall>r \<in> set (outbox ?run). ob_status r \<in> {DELIVERED, FAILED})"
    using worker_settles_every_row [OF d(1), of 15000000 _ ?post "\<lambda>s. Inr JNull", OF _ order_refl] unfolding Let_def by fastforce
  then have "outbox ?run \<noteq> []" using d(2) by (metis empty_iff empty_set list.simps(8) map_is_Nil_conv)
  then obtain r' where "r' \<in> set (outbox ?run)" by (cases "outbox ?run") auto
  with W d(1) show ?thesis by blast
qed

text \<open>C5: What the guard has recorded stays. Over any further run, of any operations, the version
  history of every endpoint is only extended, the rows of the outbox stay in their order, and no dead
  letter disappears, not even by a replay that succeeds.\<close>

theorem guard_is_append_only:
  assumes "guard_reachable s"
  shows "(\<forall>e. prefix (history (fst s) e) (history (fst (run_guard ops s)) e))
    \<and> prefix (outbox_ids (fst s)) (outbox_ids (fst (run_guard ops s)))
    \<and> (\<forall>k. row_at dlq_key k (dlq (fst s)) \<noteq> None \<longrightarrow> row_at dlq_key k (dlq (fst (run_guard ops s))) \<noteq> None)"
  using run_recorded [OF guard_reachable_ok [OF assms], of ops] by (simp add: recorded_def)

lemma guard_is_append_only_witness:
  "prefix [(''old'', canonicalize (JDict [(''a'', JInt 1)]))]
     (history (fst (run_guard [demo_call ''new'' []] (demo_subscribed, None, no_metrics))) (gen_uuid 0))"
proof -
  have reach: "guard_reachable (demo_subscribed, None, no_metrics)"
    using run_reachable [OF guard_reachable.start, of demo_ops 0 False] unfolding demo_subscribed_run .
  have "history demo_subscribed (gen_uuid 0) = [(''old'', canonicalize (JDict [(''a'', JInt 1)]))]"
    by (simp add: history_def demo_subscribed_def rows_of_def del: canonicalize.simps)
  then show ?thesis using guard_is_append_only [OF reach, of "[demo_call ''new'' []]"] by (metis fst_conv)
qed

text \<open>C38: The load benchmark always reads zero snapshots. It counts the rows of the legacy snapshot
  table by the identifier of the registry endpoint, and in no reachable state does a snapshot carry such
  an identifier, however many snapshots the endpoint has.\<close>

theorem benchmark_reads_no_snapshots:
  assumes "guard_reachable (db, st, m)"
  shows "map_of (load_state db ns svc mth r) ''snapshot_count'' = Some (JInt 0)"
proof (cases "first_row (rev (filter (\<lambda>e. reg_key e = (ns, svc, mth, r)) (endpoints db)))")
  case None
  then show ?thesis by (simp add: load_state_def no_state_def ordered_keys_def)
next
  case (Some e)
  then have "e \<in> set (endpoints db)" by (auto dest!: first_row_Some_set)
  moreover have "apart db" using guard_reachable_ok [OF assms] by (simp add: guard_ok_def tables_ok_def)
  ultimately have "ss_endpoint s \<noteq> re_id e" if "s \<in> set (schema_snapshots db)" for s
    using that unfolding apart_def by fastforce
  then have "filter (\<lambda>s. ss_endpoint s = re_id e) (schema_snapshots db) = []" by (simp add: filter_empty_conv)
  then show ?thesis using Some by (simp add: load_state_def benchmark_state_def Let_def)
qed

lemma benchmark_reads_no_snapshots_witness:
  "map_of (load_state demo_subscribed ''k6'' ''s'' ''GET'' ''/x'') ''snapshot_count'' = Some (JInt 0)"
  by (rule benchmark_reads_no_snapshots, rule run_reachable [OF guard_reachable.start, of demo_ops 0 False, unfolded demo_subscribed_run])

end
