(* ===== verification/Guard_Crash.thy ===== *)
theory Guard_Crash
  imports Guard_Facts
begin

text \<open>
  The worker interrupted in the middle of a batch. Stopping the service cancels the task of the worker
  (\<open>lifespan\<close> in \<^verbatim>\<open>app/main.py\<close>), which ends at its next \<open>await\<close>. The worker spends its time in the \<open>await\<close> of the answer of a consumer:
  there the items before are committed, and so is the status DELIVERING of the item at hand, but
  nothing of its delivery.
\<close>

section \<open>An interrupted poll\<close>

definition interrupted_poll :: "http_post \<Rightarrow> (string \<Rightarrow> py_error + json) \<Rightarrow> nat \<Rightarrow> rdb \<Rightarrow> rdb" where
  "interrupted_poll post json_loads k db =
     (let items = fetch_due db 50
      in case process_items post json_loads (take k items) 0 db of
           (Some err, _, db) \<Rightarrow> db
         | (None, _, db) \<Rightarrow>
             (case drop k items of
                [] \<Rightarrow> db
              | item # rest \<Rightarrow> set_outbox (ob_id item) (\<lambda>r. r\<lparr>ob_status := DELIVERING\<rparr>) db))"

section \<open>What later steps do to such a row\<close>

text \<open>The rows that no step touches any more, and the part of the invariant that is left.\<close>

definition rows_stay :: "rdb \<Rightarrow> rdb \<Rightarrow> bool" where
  "rows_stay db db' \<longleftrightarrow> runtime_ok db'
     \<and> (\<forall>i r. outbox_row_at db i = Some r \<longrightarrow> ob_status r = DELIVERING \<longrightarrow> outbox_row_at db' i = Some r)"

lemma rows_stay_trans: "rows_stay a b \<Longrightarrow> rows_stay b c \<Longrightarrow> rows_stay a c"
  unfolding rows_stay_def by blast

lemma rows_stay_append:
  assumes "runtime_ok db'" "outbox db' = outbox db @ rows"
  shows "rows_stay db db'"
  using assms by (auto simp: rows_stay_def outbox_row_at_def row_at_def first_row_append)

lemma rows_stay_same: "runtime_ok db' \<Longrightarrow> outbox db' = outbox db \<Longrightarrow> rows_stay db db'"
  using rows_stay_append [of db' db "[]"] by simp

lemma runtime_ok_rest:
  assumes "runtime_ok db" "same_rest db db'" "outbox_ids db' = outbox_ids db" "dlq_ok db'" "event_dlq_ok db'"
  shows "runtime_ok db'"
proof -
  have n: "next_id db \<le> next_id db'" using assms(2) by (simp add: same_rest_def)
  have "\<forall>i \<in> set (outbox_ids db). issued (next_id db) i" "distinct (outbox_ids db)"
    using assms(1) by (simp_all add: runtime_ok_def outbox_issued_def)
  then have "\<forall>i \<in> set (outbox_ids db'). issued (next_id db') i" "distinct (outbox_ids db')"
    unfolding assms(3) using issued_mono [OF _ n] by blast+
  then have "outbox_issued db'" by (simp add: outbox_issued_def)
  then show ?thesis using same_rest_parts(1) [OF assms(2)] assms(1,4,5) by (simp add: runtime_ok_def)
qed

lemma track_rows_stay:
  assumes ok: "runtime_ok db" and t: "track_contract env db sub st = (res, db', st')"
  shows "rows_stay db db' \<and> next_id db \<le> next_id db'"
proof -
  obtain e name rec ins db1 where up: "upsert_schema_version db (sm_namespace sub) (sm_service sub) (sm_method sub) (sm_route sub)
        (fingerprint (te_sha256 env) (canonicalize (JDict (sm_payload sub)))) (canonicalize (JDict (sm_payload sub))) ''SAFE''
      = ((e, name, rec, ins), db1)" by (metis surj_pair)
  note U = upsert_frame [OF ok up]
  have n: "next_id db \<le> next_id db1" using U(2) by (simp add: same_legacy_def)
  from ok up t show ?thesis
  proof (cases rule: track_contract_cases)
    case (drift pid prior ds k)
    note H = handle_drift_spec [OF U(1) drift(5)]
    obtain rows where "outbox db' = outbox db @ rows" using H(5) U(3) by auto
    then show ?thesis using rows_stay_append [OF H(1)] H(2) n by (auto simp: same_legacy_def)
  qed (use U n rows_stay_same in auto)
qed

lemma turn_rows_stay:
  assumes ok: "runtime_ok db"
  shows "rows_stay db (turn post json_loads t db)"
proof -
  obtain res db1 where p: "poll_once post json_loads 50 db = (res, db1)"
    and t: "turn post json_loads t db = db1\<lparr>now := now db1 + worker_sleep t res\<rparr>"
    and rest: "same_rest db db1" "event_dlq db1 = event_dlq db" "event_dlq_size db1 = event_dlq_size db" by (rule turn_parts)
  have d: "distinct (outbox_ids db)" "dlq_ok db" "event_dlq_ok db" using ok by (simp_all add: runtime_ok_def outbox_issued_def)
  note R = poll_rows [OF d(1) p]
  have n: "next_id db \<le> next_id db1" using rest(1) by (simp add: same_rest_def)
  have "runtime_ok db1"
    using R d(2) by (intro runtime_ok_rest [OF ok rest(1)] event_dlq_ok_mono [OF d(3) rest(2,3) n]) blast+
  then have r: "runtime_ok (turn post json_loads t db)" by (rule runtime_ok_frame) (simp_all add: t)
  have "outbox_row_at (turn post json_loads t db) i = Some r" if "outbox_row_at db i = Some r" "ob_status r = DELIVERING" for i r
  proof -
    have "i \<notin> ob_id ` set (fetch_due db 50)"
    proof
      assume "i \<in> ob_id ` set (fetch_due db 50)"
      then obtain it where "it \<in> set (fetch_due db 50)" "i = ob_id it" by blast
      with fetch_due_rows(2) [OF d(1)] that(1) have "due db r" by force
      then show False using that(2) by (simp add: due_def)
    qed
    then have "outbox_row_at db1 i = Some r" using R that(1) by metis
    then show ?thesis by (simp add: t outbox_row_at_def)
  qed
  then show ?thesis using r unfolding rows_stay_def by blast
qed

lemma step_rows_stay:
  assumes "runtime_ok (fst s)"
  shows "rows_stay (fst s) (fst (guard_apply op s))"
proof -
  obtain db st m where s: "s = (db, st, m)" by (cases s)
  have ok: "runtime_ok db" "dlq_ok db" "event_dlq_ok db" using assms by (simp_all add: s runtime_ok_def)
  have same: "rows_stay db db" by (rule rows_stay_same [OF ok(1)]) simp
  have frame: "rows_stay db db'" if "next_id db \<le> next_id db'" "endpoints db' = endpoints db" "versions db' = versions db"
    "outbox db' = outbox db" "dlq db' = dlq db" "dlq_size db' = dlq_size db" "event_dlq db' = event_dlq db"
    "event_dlq_size db' = event_dlq_size db" for db'
    by (rule rows_stay_same [OF runtime_ok_frame [OF ok(1) that(1-8)] that(4)])
  show ?thesis
  proof (cases op)
    case (Track env sub)
    obtain res db' st' where t: "track_payload env db sub st = (res, db', st')" by (metis prod_cases3)
    obtain r d u where c: "track_contract env db (sub\<lparr>sm_method := py_upper (sm_method sub)\<rparr>)
      (if startswith (py_lower (sm_namespace sub)) ''k6'' then None else st) = (r, d, u)" by (metis surj_pair)
    note T = track_rows_stay [OF ok(1) c]
    from t c have "rows_stay db db'"
    proof (rule track_payload_cases)
      fix fp n x assume w: "legacy_dual_write d (sm_service sub) (py_upper (sm_method sub)) (sm_route sub) fp n = (x, db')"
      have "runtime_ok db'" using only_legacy_ok(1) [OF only_legacy_write [OF w]] T by (simp add: rows_stay_def)
      then have "rows_stay d db'" using only_legacy_fields(1) [OF only_legacy_write [OF w]] by (rule rows_stay_same)
      then show ?thesis using rows_stay_trans T by blast
    qed (use T frame in simp_all)
    then show ?thesis by (simp add: s Track t)
  next
    case (CreateSubscription q)
    have "rows_stay db db'" if "api_create db q = Inr (x, db')" for x db'
      by (rule frame) (use that in \<open>auto simp: api_create_def create_subscription_def fresh_id_def Let_def split: if_splits\<close>)
    then show ?thesis using same by (simp add: s CreateSubscription split: sum.split prod.split)
  next
    case (PatchSubscription i q)
    have "rows_stay db db'" if "api_patch db i q = Inr (x, db')" for x db'
      by (rule frame) (use that in \<open>auto simp: api_patch_def update_subscription_def Let_def split: if_splits option.splits prod.splits\<close>)
    then show ?thesis using same by (simp add: s PatchSubscription split: sum.split prod.split)
  next
    case (ReplayDelivery post i)
    obtain res db' st' where r: "api_replay_webhook_dlq post db i st = (res, db', st')" by (metis prod_cases3)
    then have "rows_stay db db'"
    proof (rule replay_delivery_cases)
      fix sent ev e sub p assume d: "deliver_with_retry post db ev e sub p 1 False = (sent, db')"
      note D = deliver_same_rest [OF d]
      have n: "next_id db \<le> next_id db'" using D(1) by (simp add: same_rest_def)
      have "runtime_ok db'"
        by (rule runtime_ok_rest [OF ok(1) D(1)]) (use D(2) deliver_frame [OF d] ok(2) event_dlq_ok_mono [OF ok(3) D(4,5) n] in simp_all)
      then show ?thesis using D(2) by (rule rows_stay_same)
    qed (use same in simp)
    then show ?thesis by (simp add: s ReplayDelivery r)
  next
    case (ReplayEvent pub name i)
    obtain res db' st' where r: "api_replay_drift_event pub name db i st = (res, db', st')" by (metis prod_cases3)
    note R = replay_event_rest [OF r]
    obtain x where "replay_event_dlq pub name db i st = (x, db', st')"
      using r by (auto simp: api_replay_drift_event_def split: prod.splits)
    from replay_keeps_ok [OF ok(3) this] have "runtime_ok db'"
      by (intro runtime_ok_rest [OF ok(1) R(1)]) (use R ok(2) in \<open>simp_all add: dlq_ok_def\<close>)
    then show ?thesis using R(2) by (simp add: s ReplayEvent r rows_stay_same)
  next
    case (WorkerTurn post json_loads t)
    show ?thesis using turn_rows_stay [OF ok(1)] by (simp add: s WorkerTurn)
  next
    case (ReviewContract env q)
    have "\<exists>n. next_id db \<le> n \<and> fst (guard_apply op s) = db\<lparr>next_id := n\<rparr>"
      unfolding ReviewContract s guard_apply.simps
      by (auto simp: api_contract_review_def run_review_def persist_node_def fresh_id_def Let_def
          split: sum.splits prod.splits py_error.splits intro: exI [of _ "next_id db"] exI [of _ "Suc (next_id db)"])
    then show ?thesis using frame by (auto simp: s)
  next
    case (RejectRequest path http_method errors body)
    show ?thesis using same by (simp add: s RejectRequest)
  next
    case (Wait d)
    show ?thesis by (simp add: s Wait frame)
  qed
qed

lemma run_rows_stay: "runtime_ok (fst s) \<Longrightarrow> rows_stay (fst s) (fst (run_guard ops s))"
proof (induction ops arbitrary: s)
  case Nil
  then show ?case by (simp add: run_guard_def rows_stay_same)
next
  case (Cons op ops)
  note one = step_rows_stay [OF Cons.prems, of op]
  then have "rows_stay (fst (guard_apply op s)) (fst (run_guard ops (guard_apply op s)))"
    by (intro Cons.IH) (simp add: rows_stay_def)
  then show ?case using rows_stay_trans [OF one] by (simp add: run_guard_def)
qed

section \<open>Properties\<close>

text \<open>C13: Stopping the service can lose notifications for good. Take any reachable state and interrupt the
  worker while it waits for the answer to the \<open>k\<close>-th item of its batch, after the items before went through without an exception. From then on, whatever the
  service does after its restart, in any order and for as long as it runs, the row of this item
  stays as it is: marked as being delivered, with no attempt counted, and never due for a poll again.\<close>

theorem interrupted_row_is_stranded:
  assumes "guard_reachable (db, st, m)" and "k < length (fetch_due db 50)"
    and "fst (process_items post json_loads (take k (fetch_due db 50)) 0 db) = None"
  shows "\<exists>r. outbox_row_at (fst (run_guard ops (interrupted_poll post json_loads k db, st, m))) (ob_id (fetch_due db 50 ! k)) = Some r
    \<and> ob_status r = DELIVERING \<and> ob_attempts r = ob_attempts (fetch_due db 50 ! k)
    \<and> \<not> due (fst (run_guard ops (interrupted_poll post json_loads k db, st, m))) r"
proof -
  let ?items = "fetch_due db 50" and ?it = "fetch_due db 50 ! k" and ?db' = "interrupted_poll post json_loads k db"
  have ok: "runtime_ok db" using guard_reachable_ok [OF assms(1)] by (simp add: guard_ok_def tables_ok_def)
  then have d: "distinct (outbox_ids db)" "dlq_ok db" "event_dlq_ok db" by (simp_all add: runtime_ok_def outbox_issued_def)
  note F = fetch_due_rows [OF d(1), where b = 50]
  obtain n db1 where p: "process_items post json_loads (take k ?items) 0 db = (None, n, db1)"
    using assms(3) by (metis fst_conv surj_pair)
  have db': "?db' = set_outbox (ob_id ?it) (\<lambda>r. r\<lparr>ob_status := DELIVERING\<rparr>) db1"
    using assms(2) by (simp add: interrupted_poll_def p Cons_nth_drop_Suc [symmetric])
  have ids: "distinct (map ob_id (take k ?items))" using F(1) by (simp add: take_map [symmetric])
  note P = process_items_rows [OF ids _ p] and R = process_items_rest [OF p]
  have rows: "outbox_row_at db (ob_id it) = Some it" if "it \<in> set (take k ?items)" for it
    using F(2) in_set_takeD that by metis
  note P = P [OF rows]
  have "ob_id ?it \<notin> ob_id ` set (take k ?items)"
  proof
    assume "ob_id ?it \<in> ob_id ` set (take k ?items)"
    then obtain j where j: "j < k" "map ob_id ?items ! j = map ob_id ?items ! k"
      using assms(2) by (auto simp: in_set_conv_nth)
    then show False using nth_eq_iff_index_eq [OF F(1), of j k] assms(2) by simp
  qed
  then have "outbox_row_at db1 (ob_id ?it) = Some ?it" using P F(2) [of ?it] assms(2) by (metis nth_mem)
  then have row: "outbox_row_at ?db' (ob_id ?it) = Some (?it\<lparr>ob_status := DELIVERING, ob_updated := now db1\<rparr>)"
    unfolding db' by (simp add: row_at_own)
  have n: "next_id db \<le> next_id db1" using R by (simp add: same_rest_def)
  have ok1: "runtime_ok db1"
    using P d(2) R by (intro runtime_ok_rest [OF ok] event_dlq_ok_mono [OF d(3) _ _ n]) blast+
  have "runtime_ok ?db'" unfolding db'
    by (rule runtime_ok_rest [OF ok1])
      (use ok1 in \<open>simp_all add: same_rest_def set_outbox_def runtime_ok_def map_update_where dlq_ok_def event_dlq_ok_def\<close>)
  then have "rows_stay ?db' (fst (run_guard ops (?db', st, m)))" using run_rows_stay [of "(?db', st, m)"] by simp
  with row show ?thesis unfolding rows_stay_def by (auto simp: due_def)
qed

lemma interrupted_row_is_stranded_witness:
  "\<exists>db r. guard_reachable (db, None, no_metrics) \<and> fetch_due db 50 \<noteq> []
     \<and> outbox_row_at (fst (run_guard [Wait 5, WorkerTurn (\<lambda>n url p. Response 200) (\<lambda>s. Inr JNull) 1]
         (interrupted_poll (\<lambda>n url p. Response 200) (\<lambda>s. Inr JNull) 0 db, None, no_metrics))) (ob_id (hd (fetch_due db 50))) = Some r
     \<and> ob_status r = DELIVERING"
proof -
  obtain db r where d: "guard_reachable (db, None, no_metrics)" "r \<in> set (outbox db)" "ob_status r = PENDING"
    by (rule demo_drifted)
  let ?db = "db\<lparr>now := now db + ob_next r\<rparr>"
  have reach: "guard_reachable (?db, None, no_metrics)"
    using guard_reachable.step [OF d(1), of "Wait (ob_next r)"] by simp
  have "due ?db r" "r \<in> set (outbox ?db)" using d(2,3) by (simp_all add: due_def)
  then have "r \<in> set (sort_key ob_created (filter (due ?db) (outbox ?db)))" by simp
  then have "fetch_due ?db 50 \<noteq> []" unfolding fetch_due_def by (metis empty_iff list.set(1) take_eq_Nil zero_neq_numeral)
  then have len: "0 < length (fetch_due ?db 50)" by simp
  let ?ops = "[Wait 5, WorkerTurn (\<lambda>n url p. Response 200) (\<lambda>s. Inr JNull) 1]"
  have "\<exists>r. outbox_row_at (fst (run_guard ?ops (interrupted_poll (\<lambda>n url p. Response 200) (\<lambda>s. Inr JNull) 0 ?db, None, no_metrics)))
      (ob_id (hd (fetch_due ?db 50))) = Some r \<and> ob_status r = DELIVERING"
    using interrupted_row_is_stranded [OF reach len, of "\<lambda>n url p. Response 200" "\<lambda>s. Inr JNull" ?ops] len
    unfolding take_0 process_items.simps(1) by (auto simp: hd_conv_nth)
  then show ?thesis using reach len unfolding length_greater_0_conv by blast
qed

end
