(* ===== verification/Guard_Routes.thy ===== *)
theory Guard_Routes
  imports Guard_Facts
begin

text \<open>
  The reading routes of the runtime guard: \<^verbatim>\<open>app/api/reliability.py\<close>, the history of
  \<^verbatim>\<open>app/api/ai.py\<close>, and how FastAPI answers them. A limit is the integer of the query string, if
  there is one; outside its bounds the handler of \<^verbatim>\<open>app/main.py\<close> for invalid requests answers, with
  the errors that the framework reports (a parameter).
\<close>

section \<open>Handlers\<close>

text \<open>\<open>Query(default, ge=1, le=most)\<close>: the limit, or \<open>None\<close> when the request is invalid.\<close>

definition query_limit :: "int \<Rightarrow> int \<Rightarrow> int option \<Rightarrow> nat option" where
  "query_limit dflt most raw =
     (let limit = (case raw of None \<Rightarrow> dflt | Some n \<Rightarrow> n)
      in if 1 \<le> limit \<and> limit \<le> most then Some (nat limit) else None)"

definition webhook_dlq :: "rdb \<Rightarrow> int option \<Rightarrow> json list option" where
  "webhook_dlq db raw = map_option (list_dlq_entries db) (query_limit 50 200 raw)"

definition drift_event_dlq :: "rdb \<Rightarrow> int option \<Rightarrow> json list option" where
  "drift_event_dlq db raw = map_option (list_event_dlq db) (query_limit 50 200 raw)"

definition webhook_delivery_attempts :: "rdb \<Rightarrow> int option \<Rightarrow> json list option" where
  "webhook_delivery_attempts db raw = map_option (list_delivery_attempts db) (query_limit 100 500 raw)"

definition payload_snapshots :: "mem_store option \<Rightarrow> int option \<Rightarrow> json list option" where
  "payload_snapshots store raw =
     map_option (\<lambda>limit. case store of None \<Rightarrow> [] | Some st \<Rightarrow> list_payload_snapshots st limit) (query_limit 50 200 raw)"

definition schema_diffs :: "mem_store option \<Rightarrow> int option \<Rightarrow> json list option" where
  "schema_diffs store raw =
     map_option (\<lambda>limit. case store of None \<Rightarrow> [] | Some st \<Rightarrow> list_schema_diffs st limit) (query_limit 50 200 raw)"

definition validation_errors :: "mem_store option \<Rightarrow> int option \<Rightarrow> json list option" where
  "validation_errors store raw =
     map_option (\<lambda>limit. case store of None \<Rightarrow> [] | Some st \<Rightarrow> list_validation_errors st limit) (query_limit 50 200 raw)"

definition replay_artifacts :: "mem_store option \<Rightarrow> int option \<Rightarrow> json list option" where
  "replay_artifacts store raw =
     map_option (\<lambda>limit. case store of None \<Rightarrow> [] | Some st \<Rightarrow> list_replay_artifacts st limit) (query_limit 50 200 raw)"

definition contract_review_history :: "mem_store option \<Rightarrow> string option \<Rightarrow> int option \<Rightarrow> json list option" where
  "contract_review_history store endpoint_id raw =
     map_option (review_history store endpoint_id) (query_limit 20 100 raw)"

section \<open>Requests\<close>

datatype listing =
    WebhookDlq | DriftEventDlq | DeliveryAttempts | PayloadSnapshots | SchemaDiffs | ValidationErrors | ReplayArtifacts
  | ReviewHistory "string option"

fun listed :: "listing \<Rightarrow> rdb \<Rightarrow> mem_store option \<Rightarrow> int option \<Rightarrow> json list option" where
  "listed WebhookDlq db st raw = webhook_dlq db raw"
| "listed DriftEventDlq db st raw = drift_event_dlq db raw"
| "listed DeliveryAttempts db st raw = webhook_delivery_attempts db raw"
| "listed PayloadSnapshots db st raw = payload_snapshots st raw"
| "listed SchemaDiffs db st raw = schema_diffs st raw"
| "listed ValidationErrors db st raw = validation_errors st raw"
| "listed ReplayArtifacts db st raw = replay_artifacts st raw"
| "listed (ReviewHistory e) db st raw = contract_review_history st e raw"

fun route_path :: "listing \<Rightarrow> string" where
  "route_path WebhookDlq = ''/api/v1/webhook-dlq''"
| "route_path DriftEventDlq = ''/api/v1/drift-event-dlq''"
| "route_path DeliveryAttempts = ''/api/v1/webhook-delivery-attempts''"
| "route_path PayloadSnapshots = ''/api/v1/documents/payload-snapshots''"
| "route_path SchemaDiffs = ''/api/v1/documents/schema-diffs''"
| "route_path ValidationErrors = ''/api/v1/documents/validation-errors''"
| "route_path ReplayArtifacts = ''/api/v1/documents/replay-artifacts''"
| "route_path (ReviewHistory e) = ''/api/v1/ai/contract-reviews''"

fun most_listed :: "listing \<Rightarrow> int" where
  "most_listed DeliveryAttempts = 500"
| "most_listed (ReviewHistory e) = 100"
| "most_listed q = 200"

text \<open>A GET request of a listing: the status, the body, and the state after it.\<close>

definition get_listing :: "listing \<Rightarrow> int option \<Rightarrow> json \<Rightarrow> review_state \<Rightarrow> (int \<times> json) \<times> review_state" where
  "get_listing q raw errors s =
     (case s of (db, st, m) \<Rightarrow>
        (case listed q db st raw of
           Some entries \<Rightarrow> ((200, JList entries), s)
         | None \<Rightarrow>
             (let (answer, st') = request_validation_handler st (now db) (route_path q) ''GET'' errors (Some [])
              in (answer, db, st', m))))"

section \<open>What is listed\<close>

text \<open>The rows or documents a listing shows, newest first, before the limit.\<close>

definition stored_docs :: "mem_store option \<Rightarrow> string \<Rightarrow> json list" where
  "stored_docs st c = (case st of None \<Rightarrow> [] | Some st \<Rightarrow> sort_desc created_of (mem_docs st c))"

fun all_listed :: "listing \<Rightarrow> rdb \<Rightarrow> mem_store option \<Rightarrow> json list" where
  "all_listed WebhookDlq db st = map dlq_entry (sort_desc dl_last (dlq db))"
| "all_listed DriftEventDlq db st = map event_entry (sort_desc ed_last (event_dlq db))"
| "all_listed DeliveryAttempts db st = map attempt_entry (sort_desc da_at (attempts db))"
| "all_listed PayloadSnapshots db st = stored_docs st ''payload_snapshots''"
| "all_listed SchemaDiffs db st = stored_docs st ''schema_diffs''"
| "all_listed ValidationErrors db st = stored_docs st ''validation_errors''"
| "all_listed ReplayArtifacts db st = stored_docs st ''replay_artifacts''"
| "all_listed (ReviewHistory e) db st = stored_docs st ''contract_reviews''"

fun default_limit :: "listing \<Rightarrow> int" where
  "default_limit DeliveryAttempts = 100"
| "default_limit (ReviewHistory e) = 20"
| "default_limit q = 50"

definition asked_limit :: "listing \<Rightarrow> int option \<Rightarrow> int" where
  "asked_limit q raw = (case raw of None \<Rightarrow> default_limit q | Some n \<Rightarrow> n)"

lemma mem_listed: "mem_list st c n = take n (sort_desc created_of (mem_docs st c))"
  by (simp add: mem_list_def mem_docs_def)

lemma reviews_listed:
  "list_contract_reviews st n None = take n (sort_desc created_of (mem_docs st ''contract_reviews''))"
  "length (list_contract_reviews st n e) \<le> n"
  "set (list_contract_reviews st n e) \<subseteq> set (mem_docs st ''contract_reviews'')"
proof -
  have sub: "set (take k (filter P (take j (sort_desc created_of ds)))) \<subseteq> set ds" for k P j and ds :: "json list"
    by (auto dest!: in_set_takeD)
  show "set (list_contract_reviews st n e) \<subseteq> set (mem_docs st ''contract_reviews'')"
    using sub by (auto simp: list_contract_reviews_def mem_listed Let_def split: option.splits dest!: in_set_takeD)
qed (simp_all add: list_contract_reviews_def mem_listed Let_def split: option.split)

lemma listed_entries:
  "listed q db st raw = (if 1 \<le> asked_limit q raw \<and> asked_limit q raw \<le> most_listed q
     then Some (case q of ReviewHistory e \<Rightarrow> review_history st e (nat (asked_limit q raw))
       | _ \<Rightarrow> take (nat (asked_limit q raw)) (all_listed q db st)) else None)"
  by (cases q; cases st)
    (simp_all add: webhook_dlq_def drift_event_dlq_def webhook_delivery_attempts_def payload_snapshots_def schema_diffs_def
      validation_errors_def replay_artifacts_def contract_review_history_def query_limit_def asked_limit_def Let_def
      list_dlq_entries_def list_event_dlq_def list_delivery_attempts_def list_payload_snapshots_def list_schema_diffs_def
      list_validation_errors_def list_replay_artifacts_def stored_docs_def mem_listed take_map split: option.split)

lemma history_listed:
  "length (review_history st e n) \<le> n" "set (review_history st e n) \<subseteq> set (stored_docs st ''contract_reviews'')"
  using reviews_listed(2) subsetD [OF reviews_listed(3)] by (auto simp: review_history_def stored_docs_def split: option.splits)

section \<open>Properties\<close>



text \<open>The listing of dead drift events and its detail route agree: in every reachable state, each
  entry that a listing shows, whatever the limit, is what the route of its identifier returns.\<close>

theorem listed_event_is_found:
  assumes "guard_reachable (db, st, m)" and "drift_event_dlq db raw = Some entries" and "entry \<in> set entries"
    and "jget entry ''id'' = Some (JStr i)"
  shows "api_drift_event_entry db i = Inr entry"
proof -
  obtain n where n: "entries = list_event_dlq db n" using assms(2) by (auto simp: drift_event_dlq_def)
  have "entry \<in> event_entry ` set (sort_desc ed_last (event_dlq db))"
    using assms(3) in_set_takeD unfolding n list_event_dlq_def by fastforce
  then obtain r where r: "r \<in> set (event_dlq db)" "entry = event_entry r" by auto
  have "ed_id r = i" using assms(4) unfolding r(2) by (simp add: event_entry_def)
  moreover have "distinct (map ed_id (event_dlq db))"
    using guard_reachable_ok [OF assms(1)] by (simp add: guard_ok_def tables_ok_def runtime_ok_def event_dlq_ok_def)
  ultimately have "get_event_row db i = Some r" unfolding get_event_row_def using row_at_Some r(1) by metis
  then show ?thesis using r(2) by (simp add: api_drift_event_entry_def)
qed

lemma listed_event_is_found_witness:
  "\<exists>db i entry. guard_reachable (db, None, no_metrics) \<and> api_drift_event_entry db i = Inr entry"
proof -
  obtain db r where d: "guard_reachable (db, None, no_metrics)" "r \<in> set (event_dlq db)" by (rule demo_drifted) blast
  obtain x rest where x: "sort_desc ed_last (event_dlq db) = x # rest" using d(2)
    by (cases "sort_desc ed_last (event_dlq db)") auto
  have "drift_event_dlq db (Some 1) = Some [event_entry x]" by (simp add: drift_event_dlq_def query_limit_def list_event_dlq_def x)
  moreover have "jget (event_entry x) ''id'' = Some (JStr (ed_id x))" by (simp add: event_entry_def)
  ultimately have "api_drift_event_entry db (ed_id x) = Inr (event_entry x)"
    using listed_event_is_found [OF d(1), of "Some 1" "[event_entry x]" "event_entry x"] by simp
  with d(1) show ?thesis by blast
qed

end
