(* ===== verification/Monitor.thy ===== *)
theory Monitor
  imports Schema_Changes Keyed_Table
begin

text \<open>
  The scheduled monitor, \<^verbatim>\<open>backend/app\<close>: its tables (\<^verbatim>\<open>models.py\<close>), \<^verbatim>\<open>core/fetcher.py\<close>,
  \<^verbatim>\<open>core/registry_loader.py\<close> and \<^verbatim>\<open>workers/monitor_runner.py\<close>. Parameters are the answers of the observed
  servers, the parsed registry file, the environment, the clocks, the digest, and how the database
  driver stores a Python \<open>None\<close> in a JSON column (\<open>mv_stores_null\<close>: as the JSON value null, which is
  what SQLAlchemy does by default, or as SQL NULL). The endpoint tasks of a run touch rows of their own
  endpoint only; they are run one after the other.
\<close>

section \<open>Tables\<close>

record monitor_endpoint =
  me_id :: string
  me_name :: string
  me_provider :: string
  me_url :: string
  me_method :: string
  me_headers :: json
  me_active :: bool
  me_created :: nat
  me_updated :: nat

record monitor_run =
  mr_id :: string
  mr_started :: nat
  mr_finished :: "nat option"
  mr_status :: string
  mr_checked :: nat
  mr_snapshots :: nat
  mr_diffs :: nat
  mr_error :: "string option"

text \<open>A nullable JSON column is \<open>None\<close> for SQL NULL.\<close>

record monitor_snapshot =
  sp_id :: string
  sp_endpoint :: string
  sp_run :: string
  sp_hash :: string
  sp_status :: int
  sp_time_ms :: nat
  sp_size :: nat
  sp_schema :: "json option"
  sp_raw :: "json option"
  sp_error :: "string option"
  sp_created :: nat

record diff_row =
  df_id :: string
  df_endpoint :: string
  df_old :: string
  df_new :: string
  df_severity :: string
  df_type :: string
  df_path :: string
  df_old_type :: "string option"
  df_new_type :: "string option"
  df_old_value :: "json option"
  df_new_value :: "json option"
  df_message :: string
  df_created :: nat

record changelog_row =
  cl_id :: string
  cl_endpoint :: string
  cl_snapshot :: string
  cl_diff_ids :: "string list"
  cl_hash :: string
  cl_text :: string
  cl_model :: "string option"
  cl_created :: nat

record mdb =
  md_next :: nat
  md_endpoints :: "monitor_endpoint list"
  md_runs :: "monitor_run list"
  md_snaps :: "monitor_snapshot list"
  md_diffs :: "diff_row list"
  md_logs :: "changelog_row list"

definition row_id :: "nat \<Rightarrow> string" where
  "row_id n = ''row-'' @ show_nat n"

text \<open>What a request brings from outside. \<open>func.now()\<close> is the start of the transaction.\<close>

datatype http_answer =
    Answer int string nat "json option"
  | Timed_Out
  | Request_Failed string string

record monitor_env =
  mv_now :: nat
  mv_finished :: nat
  mv_stores_null :: bool
  mv_sha256 :: "string \<Rightarrow> string"
  mv_float_text :: "string \<Rightarrow> string"
  mv_max_bytes :: nat
  mv_keep :: nat
  mv_timeout :: int
  mv_registry :: "py_error + json"
  mv_environ :: "string \<Rightarrow> string option"
  mv_answer :: "monitor_endpoint \<Rightarrow> http_answer \<times> nat"

section \<open>Fetching\<close>

record fetch_result =
  fr_status :: int
  fr_time_ms :: nat
  fr_size :: nat
  fr_body :: "json option"
  fr_error :: "string option"

definition failed_fetch :: "int \<Rightarrow> nat \<Rightarrow> nat \<Rightarrow> string \<Rightarrow> fetch_result" where
  "failed_fetch status ms bytes e =
     \<lparr>fr_status = status, fr_time_ms = ms, fr_size = bytes, fr_body = None, fr_error = Some e\<rparr>"

text \<open>The body is \<open>None\<close> where it does not parse; a parsed \<open>null\<close> is the Python value \<open>None\<close> too.\<close>

definition fetch_endpoint :: "int \<Rightarrow> http_answer \<times> nat \<Rightarrow> fetch_result" where
  "fetch_endpoint timeout_sec answer =
     (case answer of
        (Answer status content_type bytes body, elapsed_ms) \<Rightarrow>
          (let is_json_ct = (py_in ''json'' content_type \<or> py_in ''javascript'' content_type)
           in case body of
                None \<Rightarrow>
                  if \<not> is_json_ct \<and> status < 300
                  then failed_fetch status elapsed_ms bytes
                         (''response is not valid JSON (content-type: '' @ content_type @ '')'')
                  else failed_fetch status elapsed_ms bytes (''JSON decode error (status '' @ show_int status @ '')'')
              | Some j \<Rightarrow>
                  if status \<ge> 400 then failed_fetch status elapsed_ms bytes (''HTTP '' @ show_int status)
                  else \<lparr>fr_status = status, fr_time_ms = elapsed_ms, fr_size = bytes, fr_body = Some j, fr_error = None\<rparr>)
      | (Timed_Out, elapsed_ms) \<Rightarrow>
          failed_fetch 0 elapsed_ms 0 (''timeout after '' @ show_int timeout_sec @ ''s'')
      | (Request_Failed cls text, elapsed_ms) \<Rightarrow>
          failed_fetch 0 elapsed_ms 0 (''request error: '' @ cls @ '': '' @ text))"

definition py_body :: "fetch_result \<Rightarrow> json" where
  "py_body r = (case fr_body r of None \<Rightarrow> JNull | Some j \<Rightarrow> j)"

definition fetch_ok :: "fetch_result \<Rightarrow> bool" where
  "fetch_ok r \<longleftrightarrow> fr_error r = None \<and> py_body r \<noteq> JNull"

section \<open>The registry file\<close>

definition word_char :: "char \<Rightarrow> bool" where
  "word_char c \<longleftrightarrow> (let n = (of_char c :: nat) in
     48 \<le> n \<and> n \<le> 57 \<or> 65 \<le> n \<and> n \<le> 90 \<or> 97 \<le> n \<and> n \<le> 122 \<or> n = 95)"

text \<open>\<open>os.path.expandvars\<close>: \<open>$name\<close> and \<open>${name}\<close>; what an unset variable names stays as it is.\<close>

definition var_text :: "(string \<Rightarrow> string option) \<Rightarrow> string \<Rightarrow> string \<Rightarrow> string" where
  "var_text env name written = (case env name of None \<Rightarrow> written | Some v \<Rightarrow> v)"

function expandvars :: "(string \<Rightarrow> string option) \<Rightarrow> string \<Rightarrow> string" where
  "expandvars env s =
     (case s of
        [] \<Rightarrow> []
      | c # cs \<Rightarrow>
          (let braced = takeWhile (\<lambda>d. d \<noteq> CHR ''}'') (tl cs);
               name = takeWhile word_char cs
           in if c = CHR ''$'' \<and> take 1 cs = ''{'' \<and> CHR ''}'' \<in> set cs
              then var_text env braced (''${'' @ braced @ ''}'') @ expandvars env (drop (length braced + 2) cs)
              else if c = CHR ''$'' \<and> name \<noteq> []
              then var_text env name (''$'' @ name) @ expandvars env (drop (length name) cs)
              else c # expandvars env cs))"
  by pat_completeness auto
termination by (relation "measure (length \<circ> snd)") auto

declare expandvars.simps [simp del]

fun expand_env :: "(string \<Rightarrow> string option) \<Rightarrow> json \<Rightarrow> json" where
  "expand_env env (JStr s) = JStr (expandvars env s)"
| "expand_env env (JDict d) = JDict (map_vals (expand_env env) d)"
| "expand_env env j = j"

text \<open>\<open>data.get('apis', [])\<close> and the loop over it.\<close>

definition load_yaml :: "monitor_env \<Rightarrow> py_error + json list" where
  "load_yaml env =
     bind_err (mv_registry env) (\<lambda>data.
       if \<not> is_dict data then Inl (TypeError ''object has no attribute get'')
       else case jget_or data ''apis'' (JList []) of
              JList entries \<Rightarrow> Inr entries
            | j \<Rightarrow> if j = JDict [] \<or> j = JStr [] then Inr [] else Inl (TypeError ''not a list of entries''))"

text \<open>\<open>entry[k]\<close> for a text column: anything else than a string is refused by the database.\<close>

definition need_text :: "json \<Rightarrow> string \<Rightarrow> py_error + string" where
  "need_text entry k =
     (if \<not> is_dict entry then Inl (TypeError ''string indices must be integers'')
      else case jget entry k of
             None \<Rightarrow> Inl (KeyError k)
           | Some (JStr s) \<Rightarrow> Inr s
           | Some _ \<Rightarrow> Inl (TypeError ''expected str''))"

definition entry_method :: "json \<Rightarrow> py_error + string" where
  "entry_method entry =
     (let m = jget_or entry ''method'' JNull in
      if \<not> truthy m then Inr ''GET''
      else case m of JStr s \<Rightarrow> Inr (py_upper s) | _ \<Rightarrow> Inl (TypeError ''object has no attribute upper''))"

definition entry_active :: "json \<Rightarrow> py_error + bool" where
  "entry_active entry =
     (case jget_or entry ''is_active'' (JBool True) of
        JBool b \<Rightarrow> Inr b | _ \<Rightarrow> Inl (TypeError ''expected bool''))"

definition entry_headers :: "monitor_env \<Rightarrow> json \<Rightarrow> json" where
  "entry_headers env entry =
     (let h = jget_or entry ''headers'' JNull
      in expand_env (mv_environ env) (if truthy h then h else JDict []))"

text \<open>
  One entry: the row of that name in the table as it was read gets the new values (its \<open>updated_at\<close>
  moves when something changed), or a row is added. \<open>existing\<close> is not extended by the loop.
\<close>

definition set_endpoint ::
  "nat \<Rightarrow> string \<Rightarrow> string \<Rightarrow> string \<Rightarrow> json \<Rightarrow> bool \<Rightarrow> monitor_endpoint \<Rightarrow> monitor_endpoint" where
  "set_endpoint t provider url meth headers active ep =
     (let ep' = ep\<lparr>me_provider := provider, me_url := url, me_method := meth, me_headers := headers, me_active := active\<rparr>
      in if ep' = ep then ep else ep'\<lparr>me_updated := t\<rparr>)"

definition store_entry ::
  "monitor_env \<Rightarrow> string option \<Rightarrow> string \<Rightarrow> string \<Rightarrow> string \<Rightarrow> string \<Rightarrow> json \<Rightarrow> bool \<Rightarrow> mdb \<Rightarrow> string \<times> mdb" where
  "store_entry env found name provider url meth headers active db =
     (case found of
        Some i \<Rightarrow> (i, db\<lparr>md_endpoints := update_where (\<lambda>r. me_id r = i)
          (set_endpoint (mv_now env) provider url meth headers active) (md_endpoints db)\<rparr>)
      | None \<Rightarrow>
          (let i = row_id (md_next db)
           in (i, db\<lparr>md_next := Suc (md_next db),
                md_endpoints := md_endpoints db @ [\<lparr>me_id = i, me_name = name, me_provider = provider, me_url = url,
                  me_method = meth, me_headers = headers, me_active = active,
                  me_created = mv_now env, me_updated = mv_now env\<rparr>]\<rparr>)))"

definition upsert_entry ::
  "monitor_env \<Rightarrow> (string \<rightharpoonup> string) \<Rightarrow> json \<Rightarrow> mdb \<Rightarrow> py_error + string \<times> mdb" where
  "upsert_entry env existing entry db =
     bind_err (need_text entry ''name'') (\<lambda>name.
     bind_err (need_text entry ''provider'') (\<lambda>provider.
     bind_err (need_text entry ''url'') (\<lambda>url.
     bind_err (entry_method entry) (\<lambda>meth.
     bind_err (entry_active entry) (\<lambda>active.
       Inr (store_entry env (existing name) name provider url meth (entry_headers env entry) active db))))))"

fun upsert_entries ::
  "monitor_env \<Rightarrow> (string \<rightharpoonup> string) \<Rightarrow> json list \<Rightarrow> mdb \<Rightarrow> py_error + string list \<times> mdb" where
  "upsert_entries env existing [] db = Inr ([], db)"
| "upsert_entries env existing (entry # es) db =
     bind_err (upsert_entry env existing entry db) (\<lambda>(i, db).
     bind_err (upsert_entries env existing es db) (\<lambda>(is, db). Inr (i # is, db)))"

definition endpoint_rows :: "mdb \<Rightarrow> string list \<Rightarrow> monitor_endpoint list" where
  "endpoint_rows db ids = concat (map (\<lambda>i. case row_at me_id i (md_endpoints db) of None \<Rightarrow> [] | Some r \<Rightarrow> [r]) ids)"

definition upsert_endpoints :: "monitor_env \<Rightarrow> mdb \<Rightarrow> py_error + monitor_endpoint list \<times> mdb" where
  "upsert_endpoints env db =
     bind_err (load_yaml env) (\<lambda>entries.
     bind_err (upsert_entries env (map_of (map (\<lambda>r. (me_name r, me_id r)) (md_endpoints db))) entries db) (\<lambda>(ids, db).
       if distinct (map me_name (md_endpoints db))
       then Inr (filter me_active (endpoint_rows db ids), db)
       else Inl (IntegrityError ''api_endpoints_name_key'')))"

section \<open>One endpoint\<close>

record endpoint_result =
  er_endpoint :: string
  er_name :: string
  er_created :: bool
  er_diffs :: nat
  er_error :: "string option"

definition stored_none :: "monitor_env \<Rightarrow> json option" where
  "stored_none env = (if mv_stores_null env then Some JNull else None)"

definition stored :: "monitor_env \<Rightarrow> json option \<Rightarrow> json option" where
  "stored env v = (case v of None \<Rightarrow> stored_none env | Some j \<Rightarrow> Some j)"

definition error_prefix :: string where
  "error_prefix = ''FETCH_ERROR:''"

definition new_snapshot ::
  "monitor_env \<Rightarrow> string \<Rightarrow> string \<Rightarrow> monitor_endpoint \<Rightarrow> fetch_result \<Rightarrow> string \<Rightarrow> json option \<Rightarrow> json option \<Rightarrow> monitor_snapshot" where
  "new_snapshot env i run_id ep fetch hash schema raw =
     \<lparr>sp_id = i, sp_endpoint = me_id ep, sp_run = run_id, sp_hash = hash, sp_status = fr_status fetch,
      sp_time_ms = fr_time_ms fetch, sp_size = fr_size fetch, sp_schema = stored env schema,
      sp_raw = stored env raw, sp_error = fr_error fetch, sp_created = mv_now env\<rparr>"

definition add_snapshot :: "(string \<Rightarrow> monitor_snapshot) \<Rightarrow> mdb \<Rightarrow> string \<times> mdb" where
  "add_snapshot f db =
     (let i = row_id (md_next db)
      in (i, db\<lparr>md_next := Suc (md_next db), md_snaps := md_snaps db @ [f i]\<rparr>))"

definition get_prior_snapshot :: "mdb \<Rightarrow> string \<Rightarrow> string \<Rightarrow> monitor_snapshot option" where
  "get_prior_snapshot db endpoint_id current_id =
     first_row (sort_desc sp_created (filter
       (\<lambda>s. sp_endpoint s = endpoint_id \<and> sp_id s \<noteq> current_id \<and> sp_schema s \<noteq> None) (md_snaps db)))"

definition read_schema :: "json option \<Rightarrow> py_error + schema_node list" where
  "read_schema schema =
     (let j = (case schema of None \<Rightarrow> JNull | Some j \<Rightarrow> j)
      in if \<not> truthy j then Inr []
         else case j of JList ns \<Rightarrow> map_err node_of_json ns | _ \<Rightarrow> Inl validation_error)"

definition new_diff_row :: "monitor_env \<Rightarrow> string \<Rightarrow> string \<Rightarrow> string \<Rightarrow> string \<Rightarrow> change \<Rightarrow> diff_row" where
  "new_diff_row env i endpoint_id old_id new_id d =
     \<lparr>df_id = i, df_endpoint = endpoint_id, df_old = old_id, df_new = new_id, df_severity = ch_severity d,
      df_type = ch_type d, df_path = ch_path d, df_old_type = ch_old_type d, df_new_type = ch_new_type d,
      df_old_value = stored env (ch_old_value d), df_new_value = stored env (ch_new_value d),
      df_message = ch_message d, df_created = mv_now env\<rparr>"

fun add_diffs :: "monitor_env \<Rightarrow> string \<Rightarrow> string \<Rightarrow> string \<Rightarrow> change list \<Rightarrow> mdb \<Rightarrow> mdb" where
  "add_diffs env endpoint_id old_id new_id [] db = db"
| "add_diffs env endpoint_id old_id new_id (d # ds) db =
     add_diffs env endpoint_id old_id new_id ds
       (db\<lparr>md_next := Suc (md_next db),
          md_diffs := md_diffs db @ [new_diff_row env (row_id (md_next db)) endpoint_id old_id new_id d]\<rparr>)"

definition err_text :: "string option \<Rightarrow> string" where
  "err_text e = (case e of None \<Rightarrow> ''None'' | Some t \<Rightarrow> t)"

definition process_endpoint ::
  "monitor_env \<Rightarrow> string \<Rightarrow> monitor_endpoint \<Rightarrow> mdb \<Rightarrow> (py_error + endpoint_result) \<times> mdb" where
  "process_endpoint env run_id ep db =
     (let fetch = fetch_endpoint (mv_timeout env) (mv_answer env ep);
          result = \<lparr>er_endpoint = me_id ep, er_name = me_name ep, er_created = True, er_diffs = 0, er_error = None\<rparr>
      in if \<not> fetch_ok fetch
         then (let (i, db) = add_snapshot (\<lambda>i. new_snapshot env i run_id ep fetch
                 (error_prefix @ err_text (fr_error fetch)) None None) db
               in (Inr (result\<lparr>er_error := fr_error fetch\<rparr>), db))
         else
           (let normalized_body = normalize (mv_float_text env) (mv_max_bytes env) None (py_body fetch);
                nodes = infer_schema normalized_body;
                schema_hash = stable_schema_hash (mv_sha256 env) nodes;
                (i, db) = add_snapshot (\<lambda>i. new_snapshot env i run_id ep fetch schema_hash
                  (Some (JList (map node_json nodes))) (Some normalized_body)) db
            in case get_prior_snapshot db (me_id ep) i of
                 None \<Rightarrow> (Inr result, db)
               | Some prior \<Rightarrow>
                   if sp_hash prior \<noteq> schema_hash \<and> \<not> startswith (sp_hash prior) error_prefix
                   then (case bind_err (read_schema (sp_schema prior)) (\<lambda>old_nodes. diff_schemas old_nodes nodes) of
                           Inl e \<Rightarrow> (Inl e, db)
                         | Inr changes \<Rightarrow>
                             (Inr (result\<lparr>er_diffs := length changes\<rparr>), add_diffs env (me_id ep) (sp_id prior) i changes db))
                   else (Inr result, db)))"

section \<open>The advisory lock\<close>

text \<open>\<^verbatim>\<open>core/locking.py\<close>: the key of a label is the first eight bytes of its digest as a signed integer; the lock is
  tried, not waited for, and released on every exit when it was acquired.\<close>

definition advisory_key :: "(string \<Rightarrow> nat list) \<Rightarrow> string \<Rightarrow> int" where
  "advisory_key sha256_bytes name =
     (let n = foldl (\<lambda>a b. a * 256 + int b) 0 (take 8 (sha256_bytes name))
      in if n \<ge> 2 ^ 63 then n - 2 ^ 64 else n)"

definition advisory_lock :: "int \<Rightarrow> int set \<Rightarrow> (bool \<Rightarrow> 'r) \<Rightarrow> 'r \<times> int set" where
  "advisory_lock key held body =
     (let acquired = key \<notin> held;
          held = (if acquired then insert key held else held);
          r = body acquired
      in (r, if acquired then held - {key} else held))"

lemma advisory_lock_released: "snd (advisory_lock key held body) = held"
  by (auto simp: advisory_lock_def Let_def)

lemma advisory_key_bounds:
  assumes "\<forall>b \<in> set (sha256_bytes name). b < 256"
  shows "- (2 ^ 63) \<le> advisory_key sha256_bytes name \<and> advisory_key sha256_bytes name < 2 ^ 63"
proof -
  have "0 \<le> foldl (\<lambda>a b. a * 256 + int b) 0 bs \<and> foldl (\<lambda>a b. a * 256 + int b) 0 bs < 256 ^ length bs"
    if "\<forall>b \<in> set bs. b < 256" for bs :: "nat list"
    using that
  proof (induction bs rule: rev_induct)
    case (snoc b bs)
    then have "foldl (\<lambda>a b. a * 256 + int b) 0 bs + 1 \<le> 256 ^ length bs" "int b < 256" by auto
    then show ?case using snoc by auto
  qed simp
  moreover have "\<forall>b \<in> set (take 8 (sha256_bytes name)). b < 256" using assms by (auto dest: in_set_takeD)
  moreover have "(256 :: int) ^ length (take 8 (sha256_bytes name)) \<le> 256 ^ 8" by (intro power_increasing) simp_all
  ultimately show ?thesis by (fastforce simp: advisory_key_def Let_def)
qed

section \<open>A run\<close>

text \<open>\<open>asyncio.gather(.., return_exceptions=True)\<close>.\<close>

fun process_all ::
  "monitor_env \<Rightarrow> string \<Rightarrow> monitor_endpoint list \<Rightarrow> mdb \<Rightarrow> (py_error + endpoint_result) list \<times> mdb" where
  "process_all env run_id [] db = ([], db)"
| "process_all env run_id (ep # eps) db =
     (let (r, db) = process_endpoint env run_id ep db; (rs, db) = process_all env run_id eps db in (r # rs, db))"

definition keep_ids :: "nat \<Rightarrow> mdb \<Rightarrow> string \<Rightarrow> string list" where
  "keep_ids keep db ep_id = map sp_id (take keep (sort_desc sp_created (filter (\<lambda>s. sp_endpoint s = ep_id) (md_snaps db))))"

definition sweep_endpoint :: "monitor_env \<Rightarrow> string \<Rightarrow> mdb \<Rightarrow> mdb" where
  "sweep_endpoint env ep_id db =
     (let ids = keep_ids (mv_keep env) db ep_id
      in if ids = [] then db
         else db\<lparr>md_snaps := update_where
           (\<lambda>s. sp_endpoint s = ep_id \<and> sp_id s \<notin> set ids \<and> sp_raw s \<noteq> None)
           (\<lambda>s. s\<lparr>sp_raw := stored_none env\<rparr>) (md_snaps db)\<rparr>)"

definition retention_sweep :: "monitor_env \<Rightarrow> mdb \<Rightarrow> mdb" where
  "retention_sweep env db = fold (sweep_endpoint env) (map me_id (md_endpoints db)) db"

definition new_run :: "monitor_env \<Rightarrow> string \<Rightarrow> monitor_run" where
  "new_run env i = \<lparr>mr_id = i, mr_started = mv_now env, mr_finished = None, mr_status = ''running'', mr_checked = 0,
     mr_snapshots = 0, mr_diffs = 0, mr_error = None\<rparr>"

fun oks :: "('e + 'a) list \<Rightarrow> 'a list" where
  "oks [] = []"
| "oks (Inl e # rs) = oks rs"
| "oks (Inr x # rs) = x # oks rs"

text \<open>\<open>any(r.error for r in ok_results)\<close>: an empty text does not count.\<close>

definition has_error :: "endpoint_result \<Rightarrow> bool" where
  "has_error r \<longleftrightarrow> er_error r \<noteq> None \<and> er_error r \<noteq> Some []"

definition run_status :: "(py_error + endpoint_result) list \<Rightarrow> string" where
  "run_status results =
     (if length (oks results) \<noteq> length results \<or> list_ex has_error (oks results)
      then ''partial_failure'' else ''success'')"

definition finish_run :: "monitor_env \<Rightarrow> nat \<Rightarrow> (py_error + endpoint_result) list \<Rightarrow> monitor_run \<Rightarrow> monitor_run" where
  "finish_run env checked results r =
     r\<lparr>mr_finished := Some (mv_finished env), mr_status := run_status results, mr_checked := checked,
       mr_snapshots := length (filter er_created (oks results)), mr_diffs := sum_list (map er_diffs (oks results))\<rparr>"

fun error_text :: "py_error \<Rightarrow> string" where
  "error_text (TypeError s) = s"
| "error_text (ValueError s) = s"
| "error_text (KeyError s) = [CHR 0x27] @ s @ [CHR 0x27]"
| "error_text (RuntimeError s) = s"
| "error_text (IntegrityError s) = s"
| "error_text (HTTPException c s) = s"

definition fail_run :: "monitor_env \<Rightarrow> py_error \<Rightarrow> monitor_run \<Rightarrow> monitor_run" where
  "fail_run env e r =
     r\<lparr>mr_finished := Some (mv_finished env), mr_status := ''failed'', mr_error := Some (error_text e)\<rparr>"

datatype monitor_failure = Already_Running "string option" | Run_Failed py_error

definition in_flight :: "mdb \<Rightarrow> monitor_run option" where
  "in_flight db = first_row (sort_desc mr_started (filter (\<lambda>r. mr_status r = ''running'') (md_runs db)))"

text \<open>
  \<open>run_monitor\<close>: the run row is flushed, not committed, before the endpoints are processed. On an
  exception the session rolls back to the committed tables before the row is updated.
\<close>

definition run_monitor :: "monitor_env \<Rightarrow> bool \<Rightarrow> mdb \<Rightarrow> (monitor_failure + string) \<times> mdb" where
  "run_monitor env got_lock db =
     (if \<not> got_lock then (Inl (Already_Running (map_option mr_id (in_flight db))), db)
      else
        (let run_id = row_id (md_next db);
             started = db\<lparr>md_next := Suc (md_next db), md_runs := md_runs db @ [new_run env run_id]\<rparr>
         in case upsert_endpoints env started of
              Inl e \<Rightarrow>
                (Inl (Run_Failed e),
                 db\<lparr>md_runs := update_where (\<lambda>r. mr_id r = run_id) (fail_run env e) (md_runs db)\<rparr>)
            | Inr (eps, s) \<Rightarrow>
                (let (results, s) = process_all env run_id eps s;
                     s = retention_sweep env s
                 in (Inr run_id, s\<lparr>md_runs := update_where (\<lambda>r. mr_id r = run_id)
                      (finish_run env (length eps) results) (md_runs s)\<rparr>))))"

end
