(* ===== verification/Changelog.thy ===== *)
theory Changelog
  imports Monitor
begin

text \<open>
  \<^verbatim>\<open>backend/app/core/changelog.py\<close> and the routes of \<^verbatim>\<open>backend/app/api\<close> with \<^verbatim>\<open>deps.py\<close>: the changelog
  of a snapshot, from the model or from the template, and what the routes read. A route gets a
  session that is closed without a commit (\<^verbatim>\<open>database.get_session\<close>); only a run commits its own. The
  model's answer is a parameter, an exception of the call is \<open>Inl\<close>.
\<close>

section \<open>Core\<close>

record changelog_env =
  ce_now :: nat
  ce_sha256 :: "string \<Rightarrow> string"
  ce_api_key :: "string option"
  ce_model :: string
  ce_message :: "string \<Rightarrow> string \<Rightarrow> py_error + string option"

definition hash_diff_set :: "(string \<Rightarrow> string) \<Rightarrow> diff_row list \<Rightarrow> string" where
  "hash_diff_set sha256 rows = sha256 (json_dumps False '','' '':'' (JList (map JStr (sort (map df_id rows)))))"

text \<open>A JSON null in a column reads as \<open>None\<close>.\<close>

definition read_value :: "json option \<Rightarrow> json option" where
  "read_value v = (if v = Some JNull then None else v)"

definition core_diff :: "diff_row \<Rightarrow> change" where
  "core_diff d =
     \<lparr>ch_severity = df_severity d, ch_type = df_type d, ch_path = df_path d, ch_old_type = df_old_type d,
      ch_new_type = df_new_type d, ch_old_value = read_value (df_old_value d),
      ch_new_value = read_value (df_new_value d), ch_message = df_message d\<rparr>"

definition diffs_to_core :: "diff_row list \<Rightarrow> change list" where
  "diffs_to_core rows = map core_diff rows"

definition section_title :: "string \<Rightarrow> string" where
  "section_title sev =
     (if sev = ''breaking'' then ''Breaking'' else if sev = ''risky'' then ''Risky'' else ''Safe'')"

definition change_line :: "change \<Rightarrow> string" where
  "change_line d = ''- `'' @ ch_path d @ ''` '' @ em_dash @ '' '' @ ch_message d"

definition severity_section :: "change list \<Rightarrow> string \<Rightarrow> string list" where
  "severity_section ds sev =
     (let rows = filter (\<lambda>d. ch_severity d = sev) ds
      in if rows = [] then []
         else (''## '' @ section_title sev @ '' ('' @ show_nat (length rows) @ '')'') # map change_line rows)"

definition template_changelog :: "change list \<Rightarrow> string" where
  "template_changelog ds = py_join nl (concat (map (severity_section ds) [''breaking'', ''risky'', ''safe'']))"

definition backtick :: char where
  "backtick = CHR ''`''"

text \<open>\<open>re.findall(r"`([^`]+)`", text)\<close>: from a mark on, a run of other characters up to the next mark.\<close>

function backquoted :: "string \<Rightarrow> string list" where
  "backquoted s =
     (let rest = dropWhile (\<lambda>c. c \<noteq> backtick) s;
          run = takeWhile (\<lambda>c. c \<noteq> backtick) (tl rest)
      in if rest = [] then []
         else if run = [] then backquoted (tl rest)
         else if length run + 1 < length rest then run # backquoted (drop (length run + 2) rest)
         else [])"
  by pat_completeness auto
termination
proof (relation "measure length", goal_cases)
  case (2 s rest run)
  have "length rest \<le> length s" by (simp add: 2 length_dropWhile_le)
  with 2(3) show ?case by (cases rest) simp_all
next
  case (3 s rest run)
  have "length rest \<le> length s" by (simp add: 3 length_dropWhile_le)
  with 3(3) show ?case by (cases rest) simp_all
qed simp

declare backquoted.simps [simp del]

definition path_like :: "string \<Rightarrow> bool" where
  "path_like s \<longleftrightarrow> py_in ''.'' s \<or> py_in ''['' s"

definition validate_llm_output :: "string \<Rightarrow> change list \<Rightarrow> bool" where
  "validate_llm_output text ds \<longleftrightarrow>
     text \<noteq> [] \<and> py_len text \<le> 4000 \<and> py_in ''##'' text
     \<and> list_all (\<lambda>fp. path_like fp \<longrightarrow> fp \<in> set (map ch_path ds)) (backquoted text)"

definition system_prompt :: string where
  "system_prompt =
     ''You are a changelog generator. You will receive a JSON list of API schema diffs ''
     @ ''that have ALREADY been classified by severity. Convert them into a developer-readable ''
     @ ''markdown changelog.'' @ nl @ nl
     @ ''Rules (strict):'' @ nl
     @ ''- Do NOT change severity classifications.'' @ nl
     @ ''- Do NOT invent fields, paths, causes, fixes, or migration advice.'' @ nl
     @ ''- Do NOT speculate about why the change occurred.'' @ nl
     @ ''- ONLY describe what changed, using the paths and types in the input.'' @ nl
     @ ''- Group by severity: ## Breaking, ## Risky, ## Safe.'' @ nl
     @ ''- Use backtick-quoted paths exactly as they appear in the input.'' @ nl
     @ ''- Output markdown only. No preamble, no postscript.''"

definition call_anthropic :: "changelog_env \<Rightarrow> string \<Rightarrow> string option" where
  "call_anthropic env diffs_json =
     (case ce_message env system_prompt (''Diffs:'' @ nl @ diffs_json) of Inl e \<Rightarrow> None | Inr text \<Rightarrow> text)"

definition change_json :: "change \<Rightarrow> json" where
  "change_json d = JDict
     [(''severity'', JStr (ch_severity d)), (''change_type'', JStr (ch_type d)), (''path'', JStr (ch_path d)),
      (''old_type'', opt_value JStr (ch_old_type d)), (''new_type'', opt_value JStr (ch_new_type d)),
      (''old_value'', opt_value id (ch_old_value d)), (''new_value'', opt_value id (ch_new_value d)),
      (''message'', JStr (ch_message d))]"

text \<open>The text of a changelog, and the model that wrote it.\<close>

definition changelog_text :: "changelog_env \<Rightarrow> change list \<Rightarrow> string \<times> string option" where
  "changelog_text env ds =
     (case ce_api_key env of
        Some k \<Rightarrow>
          if k = [] then (template_changelog ds, None)
          else (case call_anthropic env (json_indent 0 (JList (map change_json ds))) of
                  Some t \<Rightarrow> if validate_llm_output t ds then (t, Some (ce_model env)) else (template_changelog ds, None)
                | None \<Rightarrow> (template_changelog ds, None))
      | None \<Rightarrow> (template_changelog ds, None))"

definition generate_changelog :: "changelog_env \<Rightarrow> monitor_snapshot \<Rightarrow> diff_row list \<Rightarrow> mdb \<Rightarrow> changelog_row \<times> mdb" where
  "generate_changelog env snapshot rows db =
     (let h = hash_diff_set (ce_sha256 env) rows
      in case first_row (filter (\<lambda>c. cl_snapshot c = sp_id snapshot \<and> cl_hash c = h) (md_logs db)) of
           Some cached \<Rightarrow> (cached, db)
         | None \<Rightarrow>
             (let (text, model_name) = changelog_text env (diffs_to_core rows);
                  row = \<lparr>cl_id = row_id (md_next db), cl_endpoint = sp_endpoint snapshot, cl_snapshot = sp_id snapshot,
                    cl_diff_ids = map df_id rows, cl_hash = h, cl_text = text, cl_model = model_name,
                    cl_created = ce_now env\<rparr>
              in (row, db\<lparr>md_next := Suc (md_next db), md_logs := md_logs db @ [row]\<rparr>)))"

section \<open>Routes\<close>

text \<open>The session of a route: what it flushed is given up when the route returns.\<close>

definition with_session :: "(mdb \<Rightarrow> 'r \<times> mdb) \<Rightarrow> mdb \<Rightarrow> 'r \<times> mdb" where
  "with_session handler db = (fst (handler db), db)"

definition require_admin :: "string \<Rightarrow> string option \<Rightarrow> py_error + unit" where
  "require_admin expected header =
     (let provided = (case header of None \<Rightarrow> [] | Some s \<Rightarrow> s)
      in if expected = [] \<or> provided \<noteq> expected then Inl (HTTPException 401 ''Invalid or missing admin secret'')
         else Inr ())"

definition generate_route :: "changelog_env \<Rightarrow> string \<Rightarrow> mdb \<Rightarrow> (py_error + changelog_row) \<times> mdb" where
  "generate_route env snapshot_id db =
     (case row_at sp_id snapshot_id (md_snaps db) of
        None \<Rightarrow> (Inl (HTTPException 404 ''snapshot not found''), db)
      | Some snapshot \<Rightarrow>
          if \<not> truthy (case sp_schema snapshot of None \<Rightarrow> JNull | Some j \<Rightarrow> j)
          then (Inl (HTTPException 422 ''snapshot has no schema (fetch failed)''), db)
          else
            (let rows = filter (\<lambda>d. df_new d = sp_id snapshot) (md_diffs db)
             in if rows = [] then (Inl (HTTPException 422 ''no diffs found for snapshot''), db)
                else (let (c, db) = generate_changelog env snapshot rows db in (Inr c, db))))"

definition api_generate_changelog ::
  "changelog_env \<Rightarrow> string \<Rightarrow> string option \<Rightarrow> string \<Rightarrow> mdb \<Rightarrow> (py_error + changelog_row) \<times> mdb" where
  "api_generate_changelog env secret header snapshot_id db =
     (case require_admin secret header of
        Inl e \<Rightarrow> (Inl e, db)
      | Inr _ \<Rightarrow> with_session (generate_route env snapshot_id) db)"

definition api_get_changelog :: "mdb \<Rightarrow> string \<Rightarrow> py_error + changelog_row" where
  "api_get_changelog db i =
     (case row_at cl_id i (md_logs db) of None \<Rightarrow> Inl (HTTPException 404 ''changelog not found'') | Some c \<Rightarrow> Inr c)"

definition list_changelogs_for_endpoint :: "mdb \<Rightarrow> string \<Rightarrow> nat \<Rightarrow> changelog_row list" where
  "list_changelogs_for_endpoint db e limit =
     take limit (sort_desc cl_created (filter (\<lambda>c. cl_endpoint c = e) (md_logs db)))"

definition by_severity :: "string option \<Rightarrow> diff_row list \<Rightarrow> diff_row list" where
  "by_severity severity rows =
     (case severity of None \<Rightarrow> rows | Some s \<Rightarrow> if s = [] then rows else filter (\<lambda>d. df_severity d = s) rows)"

definition list_diffs_for_endpoint :: "mdb \<Rightarrow> string \<Rightarrow> nat \<Rightarrow> string option \<Rightarrow> diff_row list" where
  "list_diffs_for_endpoint db e limit severity =
     take limit (sort_desc df_created (by_severity severity (filter (\<lambda>d. df_endpoint d = e) (md_diffs db))))"

definition list_recent_diffs :: "mdb \<Rightarrow> nat \<Rightarrow> string option \<Rightarrow> diff_row list" where
  "list_recent_diffs db limit severity = take limit (sort_desc df_created (by_severity severity (md_diffs db)))"

text \<open>\<open>EndpointOut\<close>: the row with the hash and the time of its latest snapshot.\<close>

definition latest_snapshot :: "mdb \<Rightarrow> string \<Rightarrow> monitor_snapshot option" where
  "latest_snapshot db e = first_row (sort_desc sp_created (filter (\<lambda>s. sp_endpoint s = e) (md_snaps db)))"

definition endpoint_out :: "mdb \<Rightarrow> monitor_endpoint \<Rightarrow> monitor_endpoint \<times> string option \<times> nat option" where
  "endpoint_out db ep =
     (ep, map_option sp_hash (latest_snapshot db (me_id ep)), map_option sp_created (latest_snapshot db (me_id ep)))"

definition list_endpoints :: "mdb \<Rightarrow> (monitor_endpoint \<times> string option \<times> nat option) list" where
  "list_endpoints db = map (endpoint_out db) (sort_key me_name (md_endpoints db))"

definition get_endpoint :: "mdb \<Rightarrow> string \<Rightarrow> py_error + monitor_endpoint \<times> string option \<times> nat option" where
  "get_endpoint db e =
     (case row_at me_id e (md_endpoints db) of
        None \<Rightarrow> Inl (HTTPException 404 ''endpoint not found'') | Some ep \<Rightarrow> Inr (endpoint_out db ep))"

definition list_snapshots :: "mdb \<Rightarrow> string \<Rightarrow> nat \<Rightarrow> monitor_snapshot list" where
  "list_snapshots db e limit = take limit (sort_desc sp_created (filter (\<lambda>s. sp_endpoint s = e) (md_snaps db)))"

definition list_monitor_runs :: "mdb \<Rightarrow> nat \<Rightarrow> monitor_run list" where
  "list_monitor_runs db limit = take limit (sort_desc mr_started (md_runs db))"

text \<open>\<open>run_monitor\<close> commits its own session; its failures become responses.\<close>

datatype trigger_response = Started string | Refused py_error | Conflict "string option" | Failed py_error

definition trigger_monitor ::
  "monitor_env \<Rightarrow> string \<Rightarrow> string option \<Rightarrow> bool \<Rightarrow> mdb \<Rightarrow> trigger_response \<times> mdb" where
  "trigger_monitor env secret header got_lock db =
     (case require_admin secret header of
        Inl e \<Rightarrow> (Refused e, db)
      | Inr _ \<Rightarrow>
          (case run_monitor env got_lock db of
             (Inr i, db) \<Rightarrow> (Started i, db)
           | (Inl (Already_Running r), db) \<Rightarrow> (Conflict r, db)
           | (Inl (Run_Failed e), db) \<Rightarrow> (Failed e, db)))"

end
