(* ===== verification/Monitor_Facts.thy ===== *)
theory Monitor_Facts
  imports Monitor Change_Facts
begin

text \<open>
  What a run of the monitor leaves behind: its tables stay well formed, its counters agree with the rows
  it adds, the drift it reports is the drift between the two schemas, and how a failed fetch and a
  failed run are recorded.
\<close>

section \<open>The comparison the monitor relies on\<close>

text \<open>
  The runner stores a schema as JSON, reads it back in a later run and compares it with the schema
  of the new body; it relies on the two round trips and on the comparison being total.
\<close>

locale schema_compare =
  fixes infer :: "json \<Rightarrow> 'n list"
    and store :: "'n \<Rightarrow> json"
    and load :: "json \<Rightarrow> py_error + 'n"
    and compare :: "'n list \<Rightarrow> 'n list \<Rightarrow> py_error + change list"
    and kind :: "'n list \<Rightarrow> 'n list \<Rightarrow> string \<Rightarrow> string option"
  assumes load_store: "map_err load (map store (infer body)) = Inr (infer body)"
    and compared: "\<exists>ds. compare (infer a) (infer b) = Inr ds \<and> distinct (map ch_path ds)
      \<and> (\<forall>p k. (\<exists>d \<in> set ds. ch_path d = p \<and> ch_type d = k) \<longleftrightarrow> kind (infer a) (infer b) p = Some k)
      \<and> (\<forall>d \<in> set ds. map_of severity_table (ch_type d) = Some (ch_severity d))"
begin

lemma stored_compare:
  obtains ds where "bind_err (map_err load (map store (infer a))) (\<lambda>old. compare old (infer b)) = Inr ds"
    "distinct (map ch_path ds)"
    "\<And>p k. (\<exists>d \<in> set ds. ch_path d = p \<and> ch_type d = k) \<longleftrightarrow> kind (infer a) (infer b) p = Some k"
    "\<And>d. d \<in> set ds \<Longrightarrow> map_of severity_table (ch_type d) = Some (ch_severity d)"
  using compared [of a b] by (auto simp: load_store)

end

interpretation sc: schema_compare infer_schema node_json node_of_json diff_schemas change_kind
  by unfold_locales (rule stored_schema, rule diff_spec [OF infer_sorted(2) infer_sorted(2)])

section \<open>Row ids\<close>

lemma row_id_inject [simp]: "row_id m = row_id n \<longleftrightarrow> m = n"
  by (simp add: row_id_def)

definition ids_below :: "nat \<Rightarrow> string list \<Rightarrow> bool" where
  "ids_below n xs \<longleftrightarrow> distinct xs \<and> (\<forall>x \<in> set xs. \<exists>m < n. x = row_id m)"

lemma fresh_row: "i \<notin> set (map f xs) \<Longrightarrow> x \<in> set xs \<Longrightarrow> f x \<noteq> i"
  by auto

lemma ids_below_add: "ids_below n xs \<Longrightarrow> n \<le> m \<Longrightarrow> m < k \<Longrightarrow> ids_below k (xs @ [row_id m])"
  by (fastforce simp: ids_below_def)

lemma ids_below_mono: "ids_below n xs \<Longrightarrow> n \<le> m \<Longrightarrow> ids_below m xs"
  by (fastforce simp: ids_below_def)

lemma ids_below_fresh: "ids_below n xs \<Longrightarrow> n \<le> m \<Longrightarrow> row_id m \<notin> set xs"
  by (fastforce simp: ids_below_def)

definition monitor_wf :: "mdb \<Rightarrow> bool" where
  "monitor_wf db \<longleftrightarrow> ids_below (md_next db) (map me_id (md_endpoints db))
     \<and> ids_below (md_next db) (map mr_id (md_runs db)) \<and> ids_below (md_next db) (map sp_id (md_snaps db))
     \<and> distinct (map me_name (md_endpoints db))"

section \<open>One endpoint\<close>

lemma add_diffs_eq:
  "add_diffs env e old new ds db = db\<lparr>md_next := md_next db + length ds,
     md_diffs := md_diffs db @ map (\<lambda>(i, d). new_diff_row env (row_id i) e old new d) (enumerate (md_next db) ds)\<rparr>"
  by (induction ds arbitrary: db) simp_all

lemma process_effect:
  assumes "process_endpoint env run_id ep db = (r, db')"
  obtains s rows where "md_snaps db' = md_snaps db @ [s]" "sp_id s = row_id (md_next db)" "sp_endpoint s = me_id ep"
    "sp_run s = run_id" "md_diffs db' = md_diffs db @ rows" "md_endpoints db' = md_endpoints db"
    "md_runs db' = md_runs db" "md_next db < md_next db'"
    "case r of Inl e \<Rightarrow> rows = [] | Inr x \<Rightarrow> er_diffs x = length rows \<and> er_created x"
proof -
  have "\<exists>s rows. md_snaps db' = md_snaps db @ [s] \<and> sp_id s = row_id (md_next db) \<and> sp_endpoint s = me_id ep
      \<and> sp_run s = run_id \<and> md_diffs db' = md_diffs db @ rows \<and> md_endpoints db' = md_endpoints db
      \<and> md_runs db' = md_runs db \<and> md_next db < md_next db'
      \<and> (case r of Inl e \<Rightarrow> rows = [] | Inr x \<Rightarrow> er_diffs x = length rows \<and> er_created x)"
    using assms
    by (auto simp: process_endpoint_def Let_def add_snapshot_def new_snapshot_def add_diffs_eq
        split: if_splits option.splits sum.splits)
  then show thesis using that by blast
qed

lemma process_wf:
  assumes "process_endpoint env run_id ep db = (r, db')" and "monitor_wf db"
  shows "monitor_wf db'"
  using assms(1)
proof (rule process_effect)
  fix s rows
  assume e: "md_snaps db' = md_snaps db @ [s]" "sp_id s = row_id (md_next db)" "md_endpoints db' = md_endpoints db"
    "md_runs db' = md_runs db" "md_next db < md_next db'"
  have "ids_below (md_next db') (map sp_id (md_snaps db) @ [row_id (md_next db)])"
    using assms(2) e(5) by (intro ids_below_add [of "md_next db"]) (simp_all add: monitor_wf_def)
  then show ?thesis using assms(2) e ids_below_mono [of "md_next db" _ "md_next db'"] by (simp add: monitor_wf_def)
qed

lemma process_all_effect:
  assumes "process_all env run_id eps db = (rs, db')" and "monitor_wf db"
  shows "monitor_wf db' \<and> length rs = length eps \<and> md_endpoints db' = md_endpoints db \<and> md_runs db' = md_runs db
    \<and> (\<exists>snaps rows. md_snaps db' = md_snaps db @ snaps \<and> map sp_endpoint snaps = map me_id eps
         \<and> (\<forall>s \<in> set snaps. sp_run s = run_id) \<and> md_diffs db' = md_diffs db @ rows
         \<and> length rows = sum_list (map er_diffs (oks rs)) \<and> (\<forall>x \<in> set (oks rs). er_created x))"
  using assms
proof (induction eps arbitrary: db rs)
  case (Cons ep eps)
  obtain r db1 where 1: "process_endpoint env run_id ep db = (r, db1)" by fastforce
  obtain rs' where 2: "process_all env run_id eps db1 = (rs', db')" "rs = r # rs'"
    using Cons.prems(1) 1 by (auto split: prod.splits)
  note IH = Cons.IH [OF 2(1) process_wf [OF 1 Cons.prems(2)]]
  show ?case
    by (rule process_effect [OF 1]) (use IH in \<open>auto simp: 2(2) split: sum.splits\<close>)
qed simp

section \<open>The registry\<close>

text \<open>What the loop over the entries keeps, and that every entry names a row of the table.\<close>

definition grown :: "mdb \<Rightarrow> mdb \<Rightarrow> bool" where
  "grown db db' \<longleftrightarrow> ids_below (md_next db') (map me_id (md_endpoints db')) \<and> md_next db \<le> md_next db'
     \<and> me_id ` set (md_endpoints db) \<subseteq> me_id ` set (md_endpoints db')
     \<and> md_runs db' = md_runs db \<and> md_snaps db' = md_snaps db \<and> md_diffs db' = md_diffs db \<and> md_logs db' = md_logs db"

lemma set_endpoint_id [simp]: "me_id (set_endpoint t a b c d e r) = me_id r"
  by (simp add: set_endpoint_def Let_def)

lemma upsert_entry_grown:
  assumes "upsert_entry env existing entry db = Inr (i, db')"
    and "ids_below (md_next db) (map me_id (md_endpoints db))"
    and "ran existing \<subseteq> me_id ` set (md_endpoints db)"
  shows "grown db db' \<and> i \<in> me_id ` set (md_endpoints db')"
proof -
  obtain name p u m h a where e: "store_entry env (existing name) name p u m h a db = (i, db')"
    using assms(1) by (auto simp: upsert_entry_def bind_err_eq_Inr)
  show ?thesis
  proof (cases "existing name")
    case None
    have "ids_below (Suc (md_next db)) (map me_id (md_endpoints db) @ [row_id (md_next db)])"
      using assms(2) by (rule ids_below_add) simp_all
    then show ?thesis using e by (auto simp: None grown_def store_entry_def Let_def)
  next
    case (Some j)
    then have j: "j \<in> me_id ` set (md_endpoints db)" using assms(3) by (auto simp: ran_def)
    have ids: "map me_id (update_where q (set_endpoint t b c d f g) rows) = map me_id rows" for q t b c d f g rows
      by (rule map_update_where) simp
    then have "me_id ` set (update_where q (set_endpoint t b c d f g) rows) = me_id ` set rows" for q t b c d f g rows
      by (metis set_map)
    then show ?thesis using e j assms(2) by (auto simp: Some grown_def ids store_entry_def)
  qed
qed

lemma grown_trans: "grown a b \<Longrightarrow> grown b c \<Longrightarrow> grown a c"
  by (auto simp: grown_def)

lemma upsert_entries_grown:
  assumes "upsert_entries env existing es db = Inr (is, db')"
    and "ids_below (md_next db) (map me_id (md_endpoints db))"
    and "ran existing \<subseteq> me_id ` set (md_endpoints db)"
  shows "grown db db' \<and> set is \<subseteq> me_id ` set (md_endpoints db') \<and> length is = length es"
  using assms
proof (induction es arbitrary: db "is")
  case Nil
  then show ?case by (simp add: grown_def)
next
  case (Cons entry es)
  from Cons.prems(1) obtain i db1 js where 1: "upsert_entry env existing entry db = Inr (i, db1)"
    "upsert_entries env existing es db1 = Inr (js, db')" "is = i # js"
    by (auto simp: bind_err_eq_Inr)
  have g: "grown db db1" "i \<in> me_id ` set (md_endpoints db1)"
    using upsert_entry_grown [OF 1(1) Cons.prems(2,3)] by simp_all
  then have "ids_below (md_next db1) (map me_id (md_endpoints db1))" "ran existing \<subseteq> me_id ` set (md_endpoints db1)"
    using Cons.prems(3) by (auto simp: grown_def)
  from Cons.IH [OF 1(2) this] g show ?case using grown_trans [OF g(1)] by (auto simp: 1(3) grown_def)
qed

lemma upsert_endpoints_wf:
  assumes "upsert_endpoints env db = Inr (eps, db')" and "monitor_wf db"
  shows "monitor_wf db' \<and> md_runs db' = md_runs db \<and> md_snaps db' = md_snaps db \<and> md_diffs db' = md_diffs db
    \<and> set eps \<subseteq> set (md_endpoints db') \<and> md_next db \<le> md_next db' \<and> md_logs db' = md_logs db
    \<and> me_id ` set (md_endpoints db) \<subseteq> me_id ` set (md_endpoints db')"
proof -
  let ?ex = "map_of (map (\<lambda>r. (me_name r, me_id r)) (md_endpoints db))"
  obtain es "is" where e: "upsert_entries env ?ex es db = Inr (is, db')" "distinct (map me_name (md_endpoints db'))"
    "eps = filter me_active (endpoint_rows db' is)"
    using assms(1) by (auto simp: upsert_endpoints_def bind_err_eq_Inr split: if_splits)
  have "ran ?ex \<subseteq> me_id ` set (md_endpoints db)" by (auto simp: ran_def dest!: map_of_SomeD)
  then have "grown db db'" using upsert_entries_grown [OF e(1)] assms(2) by (simp add: monitor_wf_def)
  moreover have "set eps \<subseteq> set (md_endpoints db')"
    by (auto simp: e(3) endpoint_rows_def split: option.splits dest!: row_at_SomeD [OF sym])
  ultimately show ?thesis using assms(2) e(2) ids_below_mono by (auto simp: monitor_wf_def grown_def)
qed

section \<open>The sweep\<close>

definition has_raw :: "monitor_snapshot \<Rightarrow> bool" where
  "has_raw s \<longleftrightarrow> sp_raw s \<noteq> None \<and> sp_raw s \<noteq> Some JNull"

definition raws_of :: "mdb \<Rightarrow> string \<Rightarrow> monitor_snapshot list" where
  "raws_of db e = filter (\<lambda>s. sp_endpoint s = e \<and> has_raw s) (md_snaps db)"

lemma filter_update_where:
  "(\<And>r. q r \<Longrightarrow> \<not> P r \<and> \<not> P (f r)) \<Longrightarrow> filter P (update_where q f rows) = filter P rows"
  by (induction rows) (auto simp: update_where_def)

lemma sweep_frame [simp]:
  "md_next (sweep_endpoint env e db) = md_next db" "md_endpoints (sweep_endpoint env e db) = md_endpoints db"
  "md_runs (sweep_endpoint env e db) = md_runs db" "md_diffs (sweep_endpoint env e db) = md_diffs db"
  "map sp_id (md_snaps (sweep_endpoint env e db)) = map sp_id (md_snaps db)"
  "length (md_snaps (sweep_endpoint env e db)) = length (md_snaps db)"
  by (simp_all add: sweep_endpoint_def Let_def map_update_where)

lemma stored_none_raw [simp]: "\<not> has_raw (s\<lparr>sp_raw := stored_none env\<rparr>)"
  by (simp add: has_raw_def stored_none_def)

lemma has_rawD: "has_raw s \<Longrightarrow> sp_raw s \<noteq> None"
  by (simp add: has_raw_def)

lemma sweep_bound:
  assumes "0 < mv_keep env" and "distinct (map sp_id (md_snaps db))"
  shows "length (raws_of (sweep_endpoint env e db) e) \<le> mv_keep env"
proof (cases "keep_ids (mv_keep env) db e = []")
  case True
  then have "filter (\<lambda>s. sp_endpoint s = e) (md_snaps db) = []" using assms(1) by (simp add: keep_ids_def)
  then have "raws_of db e = []" by (auto simp: raws_of_def filter_empty_conv)
  with True show ?thesis by (simp add: sweep_endpoint_def)
next
  case False
  let ?ids = "keep_ids (mv_keep env) db e" and ?rs = "raws_of (sweep_endpoint env e db) e"
  have "sp_id s \<in> set ?ids" if s: "s \<in> set ?rs" for s
  proof -
    let ?q = "\<lambda>s. sp_endpoint s = e \<and> sp_id s \<notin> set ?ids \<and> sp_raw s \<noteq> None"
    have "s \<in> set (update_where ?q (\<lambda>s. s\<lparr>sp_raw := stored_none env\<rparr>) (md_snaps db))"
      and raw: "sp_endpoint s = e" "has_raw s"
      using s False by (simp_all add: raws_of_def sweep_endpoint_def Let_def)
    then obtain r where r: "s = (if ?q r then r\<lparr>sp_raw := stored_none env\<rparr> else r)"
      unfolding in_update_where by blast
    have "\<not> ?q r"
    proof (rule notI)
      assume "?q r"
      then have "s = r\<lparr>sp_raw := stored_none env\<rparr>" by (rule trans [OF r if_P])
      then have "\<not> has_raw s" by (simp only: stored_none_raw not_False_eq_True)
      with raw(2) show False by (rule notE [rotated])
    qed
    then have "s = r" by (rule trans [OF r if_not_P])
    with \<open>\<not> ?q r\<close> raw has_rawD show ?thesis by blast
  qed
  then have "sp_id ` set ?rs \<subseteq> set ?ids" by blast
  then have "card (sp_id ` set ?rs) \<le> card (set ?ids)" by (rule card_mono [rotated]) simp
  moreover have "distinct (map sp_id (md_snaps (sweep_endpoint env e db)))" using assms(2) by simp
  then have "distinct (map sp_id ?rs)" unfolding raws_of_def by (rule distinct_map_filter)
  then have "length ?rs = card (sp_id ` set ?rs)" using distinct_card [of "map sp_id ?rs"] by simp
  ultimately have "length ?rs \<le> card (set ?ids)" by simp
  also have "\<dots> \<le> length ?ids" by (rule card_length)
  also have "\<dots> \<le> mv_keep env" by (simp add: keep_ids_def)
  finally show ?thesis .
qed

lemma sweep_other: "e' \<noteq> e \<Longrightarrow> raws_of (sweep_endpoint env e' db) e = raws_of db e"
  unfolding raws_of_def sweep_endpoint_def Let_def by (auto intro: filter_update_where)

lemma sweeps_bound:
  assumes "0 < mv_keep env" and "distinct (map sp_id (md_snaps db))"
    and "e \<in> set es \<or> length (raws_of db e) \<le> mv_keep env"
  shows "length (raws_of (fold (sweep_endpoint env) es db) e) \<le> mv_keep env"
  using assms
proof (induction es arbitrary: db)
  case (Cons e' es)
  have "e \<in> set es \<or> length (raws_of (sweep_endpoint env e' db) e) \<le> mv_keep env"
  proof (cases "e' = e")
    case True
    then show ?thesis using sweep_bound [OF Cons.prems(1,2)] by simp
  next
    case False
    then show ?thesis using Cons.prems(3) by (auto simp: sweep_other)
  qed
  then show ?case using Cons.IH [of "sweep_endpoint env e' db"] Cons.prems(1,2) by simp
qed simp

lemma sweeps_frame [simp]:
  "md_next (retention_sweep env db) = md_next db" "md_endpoints (retention_sweep env db) = md_endpoints db"
  "md_runs (retention_sweep env db) = md_runs db" "md_diffs (retention_sweep env db) = md_diffs db"
  "map sp_id (md_snaps (retention_sweep env db)) = map sp_id (md_snaps db)"
  "length (md_snaps (retention_sweep env db)) = length (md_snaps db)"
proof -
  have *: "md_next (fold (sweep_endpoint env) es db) = md_next db
      \<and> md_endpoints (fold (sweep_endpoint env) es db) = md_endpoints db
      \<and> md_runs (fold (sweep_endpoint env) es db) = md_runs db
      \<and> md_diffs (fold (sweep_endpoint env) es db) = md_diffs db
      \<and> map sp_id (md_snaps (fold (sweep_endpoint env) es db)) = map sp_id (md_snaps db)
      \<and> length (md_snaps (fold (sweep_endpoint env) es db)) = length (md_snaps db)" for es
    by (induction es arbitrary: db) simp_all
  show "md_next (retention_sweep env db) = md_next db" "md_endpoints (retention_sweep env db) = md_endpoints db"
    "md_runs (retention_sweep env db) = md_runs db" "md_diffs (retention_sweep env db) = md_diffs db"
    "map sp_id (md_snaps (retention_sweep env db)) = map sp_id (md_snaps db)"
    "length (md_snaps (retention_sweep env db)) = length (md_snaps db)"
    using * [of "map me_id (md_endpoints db)"] by (simp_all add: retention_sweep_def)
qed

section \<open>A run\<close>

lemma run_monitor_steps:
  assumes "run_monitor env True db = (Inr i, db')" and "monitor_wf db"
  obtains eps s1 results s2 where "i = row_id (md_next db)"
    "upsert_endpoints env (db\<lparr>md_next := Suc (md_next db), md_runs := md_runs db @ [new_run env i]\<rparr>) = Inr (eps, s1)"
    "monitor_wf s1" "process_all env i eps s1 = (results, s2)" "monitor_wf s2"
    "db' = (retention_sweep env s2)\<lparr>md_runs := md_runs db @ [finish_run env (length eps) results (new_run env i)]\<rparr>"
proof -
  let ?i = "row_id (md_next db)"
  let ?started = "db\<lparr>md_next := Suc (md_next db), md_runs := md_runs db @ [new_run env ?i]\<rparr>"
  have fresh: "?i \<notin> set (map mr_id (md_runs db))" using assms(2)
    by (intro ids_below_fresh [of "md_next db"]) (simp_all add: monitor_wf_def)
  have "ids_below (Suc (md_next db)) (map mr_id (md_runs db) @ [?i])"
    using assms(2) by (intro ids_below_add [of "md_next db"]) (simp_all add: monitor_wf_def)
  then have wf0: "monitor_wf ?started"
    using assms(2) ids_below_mono [of "md_next db" _ "Suc (md_next db)"] by (simp add: monitor_wf_def new_run_def)
  obtain eps s1 where u: "upsert_endpoints env ?started = Inr (eps, s1)"
    using assms(1) by (auto simp: run_monitor_def Let_def split: sum.splits)
  obtain results s2 where p: "process_all env ?i eps s1 = (results, s2)" by fastforce
  have wf1: "monitor_wf s1" "md_runs s1 = md_runs db @ [new_run env ?i]" using upsert_endpoints_wf [OF u wf0] by simp_all
  have wf2: "monitor_wf s2" "md_runs s2 = md_runs db @ [new_run env ?i]"
    using process_all_effect [OF p wf1(1)] wf1(2) by simp_all
  have "mr_id r \<noteq> ?i" if "r \<in> set (md_runs db)" for r using fresh that by (rule fresh_row)
  then have "update_where (\<lambda>r. mr_id r = ?i) f (md_runs db @ [new_run env ?i]) = md_runs db @ [f (new_run env ?i)]" for f
    by (simp add: update_where_def new_run_def map_idI)
  then have "i = ?i \<and> db' = (retention_sweep env s2)\<lparr>md_runs := md_runs db @ [finish_run env (length eps) results (new_run env ?i)]\<rparr>"
    using assms(1) by (auto simp: run_monitor_def Let_def u p wf2(2))
  then show thesis using that u wf1(1) p wf2(1) by blast
qed

section \<open>The snapshot a body is compared with\<close>

definition baseline :: "mdb \<Rightarrow> string \<Rightarrow> monitor_snapshot option" where
  "baseline db e = first_row (sort_desc sp_created (filter (\<lambda>s. sp_endpoint s = e \<and> sp_schema s \<noteq> None) (md_snaps db)))"

lemma prior_is_baseline:
  assumes "monitor_wf db" and "sp_id s = row_id (md_next db)" and "md_snaps db1 = md_snaps db @ [s]"
  shows "get_prior_snapshot db1 e (row_id (md_next db)) = baseline db e"
proof -
  have "row_id (md_next db) \<notin> set (map sp_id (md_snaps db))"
    using assms(1) by (intro ids_below_fresh [of "md_next db"]) (simp_all add: monitor_wf_def)
  then have "filter (\<lambda>s. sp_endpoint s = e \<and> sp_id s \<noteq> row_id (md_next db) \<and> sp_schema s \<noteq> None) (md_snaps db)
      = filter (\<lambda>s. sp_endpoint s = e \<and> sp_schema s \<noteq> None) (md_snaps db)"
    using fresh_row [of "row_id (md_next db)" sp_id "md_snaps db"] by (intro filter_cong refl) blast
  then show ?thesis using assms(2,3) by (simp add: get_prior_snapshot_def baseline_def)
qed

lemma newest_first:
  assumes "\<And>y. y \<in> set xs \<Longrightarrow> f y < f x" shows "first_row (sort_desc f (xs @ [x])) = Some x"
proof -
  have ne: "xs @ [x] \<noteq> []" by simp
  have "hd (sort_desc f (xs @ [x])) = x"
    using hd_sort_desc(1) [OF ne, of f] hd_sort_desc(2) [OF ne, of x f] assms by force
  then show ?thesis by (cases "sort_desc f (xs @ [x])") (simp_all add: first_row_def)
qed

lemma process_failed_fetch:
  assumes "\<not> fetch_ok (fetch_endpoint (mv_timeout env) (mv_answer env ep))"
    and "process_endpoint env run_id ep db = (r, db')"
  obtains s where "md_snaps db' = md_snaps db @ [s]" "sp_id s = row_id (md_next db)" "sp_endpoint s = me_id ep"
    "sp_schema s = stored_none env" "startswith (sp_hash s) error_prefix" "sp_created s = mv_now env"
    "md_diffs db' = md_diffs db"
  using assms by (auto simp: process_endpoint_def Let_def add_snapshot_def new_snapshot_def stored_def)

lemma process_good_fetch:
  assumes "fetch_ok fetch" and "fetch = fetch_endpoint (mv_timeout env) (mv_answer env ep)"
    and "nodes = infer_schema (normalize (mv_float_text env) (mv_max_bytes env) None (py_body fetch))"
    and "monitor_wf db" and "process_endpoint env run_id ep db = (r, db')"
    and "baseline db (me_id ep) = Some prior"
  shows "if sp_hash prior \<noteq> stable_schema_hash (mv_sha256 env) nodes \<and> \<not> startswith (sp_hash prior) error_prefix
    then (\<forall>ds. bind_err (read_schema (sp_schema prior)) (\<lambda>old. diff_schemas old nodes) = Inr ds \<longrightarrow>
       (\<exists>x. r = Inr x \<and> er_diffs x = length ds) \<and>
       (\<exists>n. md_diffs db' = md_diffs db @ map (\<lambda>(i, d). new_diff_row env (row_id i) (me_id ep) (sp_id prior)
         (row_id (md_next db)) d) (enumerate n ds)))
    else (\<exists>x. r = Inr x \<and> er_diffs x = 0) \<and> md_diffs db' = md_diffs db"
proof -
  let ?i = "row_id (md_next db)"
  let ?s = "new_snapshot env ?i run_id ep fetch (stable_schema_hash (mv_sha256 env) nodes)
    (Some (JList (map node_json nodes))) (Some (normalize (mv_float_text env) (mv_max_bytes env) None (py_body fetch)))"
  let ?db = "db\<lparr>md_next := Suc (md_next db), md_snaps := md_snaps db @ [?s]\<rparr>"
  have prior: "get_prior_snapshot ?db (me_id ep) ?i = Some prior"
    using prior_is_baseline [OF assms(4), of ?s ?db] assms(6) by (simp add: new_snapshot_def)
  have "process_endpoint env run_id ep db =
     (let result = \<lparr>er_endpoint = me_id ep, er_name = me_name ep, er_created = True, er_diffs = 0, er_error = None\<rparr>
      in if sp_hash prior \<noteq> stable_schema_hash (mv_sha256 env) nodes \<and> \<not> startswith (sp_hash prior) error_prefix
         then (case bind_err (read_schema (sp_schema prior)) (\<lambda>old_nodes. diff_schemas old_nodes nodes) of
                 Inl e \<Rightarrow> (Inl e, ?db)
               | Inr changes \<Rightarrow>
                   (Inr (result\<lparr>er_diffs := length changes\<rparr>), add_diffs env (me_id ep) (sp_id prior) ?i changes ?db))
         else (Inr result, ?db))"
    using assms(1) prior unfolding process_endpoint_def Let_def add_snapshot_def assms(2,3) by simp
  then show ?thesis
    using assms(5) by (auto simp: Let_def add_diffs_eq)
qed

section \<open>Properties of the monitor\<close>

text \<open>C19: When the latest stored schema of an endpoint is that of an earlier body and the hash of the new body
  differs, the run stores one row for every path that the comparison of the two inferred schemas
  reports, with its kind, severity and the two snapshots, and counts them.\<close>

theorem drift_is_reported:
  assumes "monitor_wf db" and "baseline db (me_id ep) = Some prior"
    and "sp_schema prior = Some (JList (map node_json (infer_schema a)))"
    and "fetch = fetch_endpoint (mv_timeout env) (mv_answer env ep)" and "fetch_ok fetch"
    and "b = normalize (mv_float_text env) (mv_max_bytes env) None (py_body fetch)"
    and "sp_hash prior \<noteq> stable_schema_hash (mv_sha256 env) (infer_schema b)"
    and "\<not> startswith (sp_hash prior) error_prefix"
    and "process_endpoint env run_id ep db = (r, db')"
  shows "\<exists>x rows. r = Inr x \<and> er_diffs x = length rows \<and> md_diffs db' = md_diffs db @ rows \<and> distinct (map df_path rows)
    \<and> (\<forall>p k. (\<exists>d \<in> set rows. df_path d = p \<and> df_type d = k)
          \<longleftrightarrow> change_kind (infer_schema a) (infer_schema b) p = Some k)
    \<and> (\<forall>d \<in> set rows. map_of severity_table (df_type d) = Some (df_severity d)
          \<and> df_endpoint d = me_id ep \<and> df_old d = sp_id prior \<and> df_new d = row_id (md_next db))"
proof -
  obtain ds where ds: "bind_err (map_err node_of_json (map node_json (infer_schema a)))
      (\<lambda>old. diff_schemas old (infer_schema b)) = Inr ds" "distinct (map ch_path ds)"
    "\<And>p k. (\<exists>d \<in> set ds. ch_path d = p \<and> ch_type d = k) \<longleftrightarrow> change_kind (infer_schema a) (infer_schema b) p = Some k"
    "\<And>d. d \<in> set ds \<Longrightarrow> map_of severity_table (ch_type d) = Some (ch_severity d)"
    using sc.stored_compare [of a b] by blast
  have "read_schema (sp_schema prior) = map_err node_of_json (map node_json (infer_schema a))"
    by (simp add: read_schema_def assms(3))
  with ds(1) have "bind_err (read_schema (sp_schema prior)) (\<lambda>old. diff_schemas old (infer_schema b)) = Inr ds" by simp
  then obtain x n where x: "r = Inr x" "er_diffs x = length ds"
    "md_diffs db' = md_diffs db @ map (\<lambda>(i, d). new_diff_row env (row_id i) (me_id ep) (sp_id prior)
         (row_id (md_next db)) d) (enumerate n ds)"
    using process_good_fetch [OF assms(5,4) refl assms(1,9,2)] assms(7,8) unfolding assms(6) by auto
  let ?rows = "map (\<lambda>(i, d). new_diff_row env (row_id i) (me_id ep) (sp_id prior) (row_id (md_next db)) d) (enumerate n ds)"
  have at: "map f ?rows = map g ds" if "\<And>i d. f (new_diff_row env i (me_id ep) (sp_id prior) (row_id (md_next db)) d) = g d"
    for f :: "diff_row \<Rightarrow> 'c" and g using that by (induction ds arbitrary: n) simp_all
  have paths: "map df_path ?rows = map ch_path ds" by (rule at) (simp add: new_diff_row_def)
  have pairs: "map (\<lambda>d. (df_path d, df_type d)) ?rows = map (\<lambda>d. (ch_path d, ch_type d)) ds"
    by (rule at) (simp add: new_diff_row_def)
  have "(\<exists>d \<in> set ?rows. df_path d = p \<and> df_type d = k) \<longleftrightarrow> (\<exists>d \<in> set ds. ch_path d = p \<and> ch_type d = k)" for p k
  proof -
    have "(\<exists>d \<in> set ?rows. df_path d = p \<and> df_type d = k) \<longleftrightarrow> (p, k) \<in> set (map (\<lambda>d. (df_path d, df_type d)) ?rows)" by force
    also have "\<dots> \<longleftrightarrow> (p, k) \<in> set (map (\<lambda>d. (ch_path d, ch_type d)) ds)" by (simp only: pairs)
    finally show ?thesis by force
  qed
  moreover have "map_of severity_table (df_type d) = Some (df_severity d)
      \<and> df_endpoint d = me_id ep \<and> df_old d = sp_id prior \<and> df_new d = row_id (md_next db)" if "d \<in> set ?rows" for d
    using that ds(4) by (auto simp: new_diff_row_def dest: set_enumerateD)
  ultimately show ?thesis
    using x ds(2,3) paths by (intro exI [of _ x] exI [of _ ?rows]) (simp only: length_map length_enumerate, blast)
qed

text \<open>An endpoint whose last body was \<open>{"n": 1}\<close>, and a server that answers with another one.\<close>

definition demo_ep :: monitor_endpoint where
  "demo_ep = \<lparr>me_id = row_id 0, me_name = ''api'', me_provider = ''p'', me_url = ''u'', me_method = ''GET'',
     me_headers = JDict [], me_active = True, me_created = 0, me_updated = 0\<rparr>"

definition monitor_demo :: "http_answer \<Rightarrow> monitor_env" where
  "monitor_demo answer = \<lparr>mv_now = 5, mv_finished = 6, mv_stores_null = True, mv_sha256 = (\<lambda>s. ''h1''), mv_float_text = id,
     mv_max_bytes = 1000, mv_keep = 10, mv_timeout = 10,
     mv_registry = Inr (JDict [(''apis'', JList [JDict [(''name'', JStr ''api''), (''provider'', JStr ''p''), (''url'', JStr ''u'')]])]),
     mv_environ = (\<lambda>v. None), mv_answer = (\<lambda>ep. (answer, 1))\<rparr>"

definition demo_snap :: monitor_snapshot where
  "demo_snap = \<lparr>sp_id = row_id 1, sp_endpoint = row_id 0, sp_run = ''r'', sp_hash = ''h0'', sp_status = 200, sp_time_ms = 1,
     sp_size = 7, sp_schema = Some (JList (map node_json (infer_schema (JDict [(''n'', JInt 1)])))),
     sp_raw = Some (JDict [(''n'', JInt 1)]), sp_error = None, sp_created = 3\<rparr>"

definition demo_mdb :: mdb where
  "demo_mdb = \<lparr>md_next = 2, md_endpoints = [demo_ep], md_runs = [], md_snaps = [demo_snap], md_diffs = [], md_logs = []\<rparr>"

lemma demo_wf: "monitor_wf demo_mdb"
  by (simp add: monitor_wf_def demo_mdb_def demo_ep_def demo_snap_def ids_below_def)

lemma demo_baseline: "baseline demo_mdb (me_id demo_ep) = Some demo_snap"
  by (simp add: baseline_def demo_mdb_def demo_ep_def demo_snap_def sort_desc_def)

definition demo_answer :: http_answer where
  "demo_answer = Answer 200 ''application/json'' 9 (Some (JDict [(''n'', JStr ''x'')]))"

lemma demo_answer_ok: "fetch_ok (fetch_endpoint (mv_timeout (monitor_demo demo_answer)) (mv_answer (monitor_demo demo_answer) demo_ep))"
  by (simp add: monitor_demo_def demo_answer_def fetch_endpoint_def fetch_ok_def py_body_def)

lemma drift_is_reported_witness:
  "\<exists>x db' d. process_endpoint (monitor_demo demo_answer) ''r2'' demo_ep demo_mdb = (Inr x, db')
    \<and> d \<in> set (md_diffs db') \<and> df_path d = ''n'' \<and> df_type d = ''type_changed''"
proof -
  let ?env = "monitor_demo demo_answer" and ?a = "JDict [(''n'', JInt 1)]"
  let ?fetch = "fetch_endpoint (mv_timeout ?env) (mv_answer ?env demo_ep)"
  let ?b = "normalize (mv_float_text ?env) (mv_max_bytes ?env) None (py_body ?fetch)"
  obtain r db' where r: "process_endpoint ?env ''r2'' demo_ep demo_mdb = (r, db')" by fastforce
  have schema: "sp_schema demo_snap = Some (JList (map node_json (infer_schema ?a)))" by (simp add: demo_snap_def)
  have hash: "sp_hash demo_snap \<noteq> stable_schema_hash (mv_sha256 ?env) (infer_schema ?b)"
    by (simp add: demo_snap_def stable_schema_hash_def monitor_demo_def)
  have prefix: "\<not> startswith (sp_hash demo_snap) error_prefix" by (simp add: demo_snap_def error_prefix_def)
  from drift_is_reported [OF demo_wf demo_baseline schema refl demo_answer_ok refl hash prefix r]
  obtain x rows where x: "r = Inr x" "md_diffs db' = md_diffs demo_mdb @ rows"
    "\<forall>p k. (\<exists>d \<in> set rows. df_path d = p \<and> df_type d = k)
      \<longleftrightarrow> change_kind (infer_schema ?a) (infer_schema ?b) p = Some k" by blast
  have "?b = JDict [(''n'', JStr ''x'')]"
    by (simp add: monitor_demo_def demo_answer_def fetch_endpoint_def py_body_def normalize_def Let_def sorted_items_def) code_simp
  moreover have "change_kind (infer_schema ?a) (infer_schema (JDict [(''n'', JStr ''x'')])) ''n'' = Some ''type_changed''"
    by code_simp
  ultimately have "change_kind (infer_schema ?a) (infer_schema ?b) ''n'' = Some ''type_changed''" by (simp only:)
  then have "\<exists>d \<in> set rows. df_path d = ''n'' \<and> df_type d = ''type_changed''" by (rule x(3) [rule_format, THEN iffD2])
  then obtain d where "d \<in> set rows" "df_path d = ''n''" "df_type d = ''type_changed''" by blast
  with x(1,2) r show ?thesis by auto
qed

text \<open>A failed fetch hides drift when the driver stores \<open>None\<close> as a JSON null: the failed snapshot then counts
  as the latest schema, so that the first good body after a failure is compared with nothing.\<close>

theorem failed_fetch_hides_drift:
  assumes "monitor_wf db" and "\<forall>s \<in> set (md_snaps db). sp_created s < mv_now env1"
    and "\<not> fetch_ok (fetch_endpoint (mv_timeout env1) (mv_answer env1 ep))" and "mv_stores_null env1"
    and "fetch_ok (fetch_endpoint (mv_timeout env2) (mv_answer env2 ep))"
    and "process_endpoint env1 run1 ep db = (r1, db1)" and "process_endpoint env2 run2 ep db1 = (r2, db2)"
  shows "\<exists>x. r2 = Inr x \<and> er_diffs x = 0 \<and> md_diffs db2 = md_diffs db"
proof -
  obtain s where s: "md_snaps db1 = md_snaps db @ [s]" "sp_endpoint s = me_id ep" "sp_schema s = stored_none env1"
    "startswith (sp_hash s) error_prefix" "sp_created s = mv_now env1" "md_diffs db1 = md_diffs db"
    using process_failed_fetch [OF assms(3,6)] by metis
  have "baseline db1 (me_id ep) = Some s"
    using newest_first [of "filter (\<lambda>s. sp_endpoint s = me_id ep \<and> sp_schema s \<noteq> None) (md_snaps db)" sp_created s]
      s(1,2,3,5) assms(2,4) by (simp add: baseline_def stored_none_def)
  from process_good_fetch [OF assms(5) refl refl process_wf [OF assms(6,1)] assms(7) this] s(4,6)
  show ?thesis by auto
qed

lemma failed_fetch_hides_drift_witness:
  "\<exists>x db1 db2. process_endpoint (monitor_demo Timed_Out) ''r1'' demo_ep demo_mdb = (Inr x, db1)
    \<and> md_diffs (snd (process_endpoint (monitor_demo demo_answer) ''r2'' demo_ep db1)) = []"
proof -
  obtain r1 db1 where 1: "process_endpoint (monitor_demo Timed_Out) ''r1'' demo_ep demo_mdb = (r1, db1)" by fastforce
  obtain r2 db2 where 2: "process_endpoint (monitor_demo demo_answer) ''r2'' demo_ep db1 = (r2, db2)" by fastforce
  have bad: "\<not> fetch_ok (fetch_endpoint (mv_timeout (monitor_demo Timed_Out)) (mv_answer (monitor_demo Timed_Out) demo_ep))"
    "mv_stores_null (monitor_demo Timed_Out)"
    by (simp_all add: monitor_demo_def fetch_endpoint_def failed_fetch_def fetch_ok_def)
  have old: "\<forall>s \<in> set (md_snaps demo_mdb). sp_created s < mv_now (monitor_demo Timed_Out)"
    by (simp add: demo_mdb_def demo_snap_def monitor_demo_def)
  have "md_diffs db2 = md_diffs demo_mdb"
    using failed_fetch_hides_drift [OF demo_wf old bad demo_answer_ok 1 2] by blast
  moreover have "\<exists>x. r1 = Inr x" using 1 bad(1) by (auto simp: process_endpoint_def Let_def add_snapshot_def)
  ultimately show ?thesis using 1 2 by (auto simp: demo_mdb_def)
qed

lemma run_effect:
  assumes "run_monitor env True db = (Inr i, db')" and "monitor_wf db"
  obtains run where "md_runs db' = md_runs db @ [run]" "mr_id run = i" "mr_finished run = Some (mv_finished env)"
    "mr_status run = ''success'' \<or> mr_status run = ''partial_failure''"
    "length (md_snaps db') = length (md_snaps db) + mr_checked run"
    "length (md_diffs db') = length (md_diffs db) + mr_diffs run"
    "mr_snapshots run \<le> mr_checked run" "mr_status run = ''success'' \<Longrightarrow> mr_snapshots run = mr_checked run"
    "monitor_wf db'"
proof (rule run_monitor_steps [OF assms])
  fix eps :: "monitor_endpoint list" and s1 results s2
  let ?run = "finish_run env (length eps) results (new_run env i)"
  assume i: "i = row_id (md_next db)" and
    u: "upsert_endpoints env (db\<lparr>md_next := Suc (md_next db), md_runs := md_runs db @ [new_run env i]\<rparr>) = Inr (eps, s1)" and
    wf: "monitor_wf s1" and p: "process_all env i eps s1 = (results, s2)" and wf2: "monitor_wf s2" and
    db': "db' = (retention_sweep env s2)\<lparr>md_runs := md_runs db @ [?run]\<rparr>"
  have ids: "ids_below (Suc (md_next db)) (map mr_id (md_runs db) @ [i])"
    unfolding i using assms(2) by (intro ids_below_add [of "md_next db"]) (simp_all add: monitor_wf_def)
  then have "monitor_wf (db\<lparr>md_next := Suc (md_next db), md_runs := md_runs db @ [new_run env i]\<rparr>)"
    using assms(2) ids_below_mono [of "md_next db" _ "Suc (md_next db)"] by (simp add: monitor_wf_def new_run_def)
  from upsert_endpoints_wf [OF u this]
  have s1: "md_snaps s1 = md_snaps db" "md_diffs s1 = md_diffs db" "md_runs s1 = md_runs db @ [new_run env i]"
    "Suc (md_next db) \<le> md_next s1" by simp_all
  obtain snaps rows where s2: "md_snaps s2 = md_snaps db @ snaps" "map sp_endpoint snaps = map me_id eps"
    "md_diffs s2 = md_diffs db @ rows" "length rows = sum_list (map er_diffs (oks results))"
    "\<forall>x \<in> set (oks results). er_created x" "length results = length eps" "md_runs s2 = md_runs db @ [new_run env i]"
    using process_all_effect [OF p wf] s1 by auto
  have n: "length snaps = length eps" using s2(2) by (metis length_map)
  have oks: "length (oks rs) \<le> length rs" for rs :: "(py_error + endpoint_result) list"
    by (induction rs rule: oks.induct) simp_all
  have "filter er_created (oks results) = oks results" using s2(5) by (simp add: filter_id_conv)
  then have run: "mr_snapshots ?run = length (oks results)" "mr_checked ?run = length eps"
    "mr_diffs ?run = sum_list (map er_diffs (oks results))" "mr_status ?run = run_status results"
    "mr_id ?run = i" "mr_finished ?run = Some (mv_finished env)"
    by (simp_all add: finish_run_def new_run_def)
  have wf': "monitor_wf db'" using wf2 s2(7) run(5) by (simp add: db' monitor_wf_def new_run_def)
  show thesis
  proof (rule that [OF _ run(5,6) _ _ _ _ _ wf'])
    show "md_runs db' = md_runs db @ [?run]" by (simp add: db')
    show "mr_status ?run = ''success'' \<or> mr_status ?run = ''partial_failure''" by (simp add: run(4) run_status_def)
    show "length (md_snaps db') = length (md_snaps db) + mr_checked ?run" by (simp add: db' s2(1) run(2) n)
    show "length (md_diffs db') = length (md_diffs db) + mr_diffs ?run" by (simp add: db' s2(3,4) run(3))
    show "mr_snapshots ?run \<le> mr_checked ?run" using oks [of results] s2(6) by (simp add: run(1,2))
    show "mr_snapshots ?run = mr_checked ?run" if "mr_status ?run = ''success''"
      using that s2(6) by (simp add: run(1,2,4) run_status_def split: if_splits)
  qed
qed


lemma monitor_demo_run:
  "\<exists>i db'. run_monitor (monitor_demo Timed_Out) True demo_mdb = (Inr i, db') \<and> length (md_snaps db') = 2 \<and> demo_ep \<in> set (md_endpoints db')"
proof -
  have "let (r, db') = run_monitor (monitor_demo Timed_Out) True demo_mdb
    in (case r of Inr i \<Rightarrow> True | Inl e \<Rightarrow> False) \<and> length (md_snaps db') = 2 \<and> demo_ep \<in> set (md_endpoints db')" by code_simp
  then show ?thesis by (auto split: prod.splits sum.splits)
qed




text \<open>The committed tables after any sequence of runs, also of those that find the lock taken.\<close>

inductive monitor_reachable :: "mdb \<Rightarrow> bool" where
  empty: "monitor_reachable \<lparr>md_next = 0, md_endpoints = [], md_runs = [], md_snaps = [], md_diffs = [], md_logs = []\<rparr>"
| run: "monitor_reachable db \<Longrightarrow> run_monitor env got_lock db = (r, db') \<Longrightarrow> monitor_reachable db'"

lemma failed_run:
  assumes "monitor_wf db"
    and "upsert_endpoints env (db\<lparr>md_next := Suc (md_next db), md_runs := md_runs db @ [new_run env (row_id (md_next db))]\<rparr>) = Inl e"
  shows "run_monitor env True db = (Inl (Run_Failed e), db)"
proof -
  have fresh: "row_id (md_next db) \<notin> set (map mr_id (md_runs db))" using assms(1)
    by (intro ids_below_fresh [of "md_next db"]) (simp_all add: monitor_wf_def)
  have "update_where (\<lambda>r. mr_id r = row_id (md_next db)) (fail_run env e) (md_runs db) = md_runs db"
    by (rule update_where_none) (rule fresh_row [OF fresh])
  then show ?thesis using assms(2) by (simp add: run_monitor_def Let_def)
qed

text \<open>A run whose registry cannot be loaded or stored raises and leaves no trace: the rollback drops the row of
  the run before it is marked as failed, so that no failed run is ever recorded.\<close>

theorem failed_run_leaves_no_trace:
  assumes "monitor_wf db"
    and "upsert_endpoints env (db\<lparr>md_next := Suc (md_next db), md_runs := md_runs db @ [new_run env (row_id (md_next db))]\<rparr>) = Inl e"
  shows "run_monitor env True db = (Inl (Run_Failed e), db)"
  using assms by (rule failed_run)

lemma failed_run_leaves_no_trace_witness:
  "run_monitor (monitor_demo Timed_Out\<lparr>mv_registry := Inr (JDict [(''apis'', JList [JDict []])])\<rparr>) True demo_mdb
    = (Inl (Run_Failed (KeyError ''name'')), demo_mdb)"
  by (rule failed_run_leaves_no_trace [OF demo_wf])
    (simp add: upsert_endpoints_def load_yaml_def jget_or_def upsert_entry_def need_text_def monitor_demo_def)

text \<open>C21: In all committed tables the rows are well formed and every run row is finished as a success or a partial
  failure; a run that finds the lock taken reports no run id, because the running row is not committed.\<close>

theorem committed_runs_are_finished:
  assumes "monitor_reachable db"
  shows "monitor_wf db
    \<and> (\<forall>r \<in> set (md_runs db). mr_finished r \<noteq> None \<and> (mr_status r = ''success'' \<or> mr_status r = ''partial_failure''))
    \<and> run_monitor env False db = (Inl (Already_Running None), db)"
proof -
  have "monitor_wf db
    \<and> (\<forall>r \<in> set (md_runs db). mr_finished r \<noteq> None \<and> (mr_status r = ''success'' \<or> mr_status r = ''partial_failure''))"
    using assms
  proof induction
    case empty
    then show ?case by (simp add: monitor_wf_def ids_below_def)
  next
    case (run db env got_lock r db')
    show ?case
    proof (cases "\<exists>i. got_lock \<and> r = Inr i")
      case True
      then obtain i where "run_monitor env True db = (Inr i, db')" using run.hyps(2) by auto
      then show ?thesis
      proof (rule run_effect [OF _ run.IH [THEN conjunct1]])
        fix row
        assume "md_runs db' = md_runs db @ [row]" "mr_finished row = Some (mv_finished env)"
          "mr_status row = ''success'' \<or> mr_status row = ''partial_failure''" "monitor_wf db'"
        with run.IH show ?thesis by simp
      qed
    next
      case False
      then have "db' = db"
        using run.hyps(2) failed_run [OF run.IH [THEN conjunct1], of env]
        by (auto simp: run_monitor_def Let_def split: if_splits sum.splits prod.splits)
      with run.IH show ?thesis by simp
    qed
  qed
  moreover from this have "filter (\<lambda>r. mr_status r = ''running'') (md_runs db) = []"
    by (auto simp: filter_empty_conv)
  ultimately show ?thesis by (simp add: run_monitor_def in_flight_def)
qed

lemma committed_runs_are_finished_witness:
  "run_monitor (monitor_demo Timed_Out) False (snd (run_monitor (monitor_demo Timed_Out) True
     \<lparr>md_next = 0, md_endpoints = [], md_runs = [], md_snaps = [], md_diffs = [], md_logs = []\<rparr>))
   = (Inl (Already_Running None), snd (run_monitor (monitor_demo Timed_Out) True
     \<lparr>md_next = 0, md_endpoints = [], md_runs = [], md_snaps = [], md_diffs = [], md_logs = []\<rparr>))"
  by (intro committed_runs_are_finished [THEN conjunct2, THEN conjunct2] monitor_reachable.run [OF monitor_reachable.empty])
    (rule surjective_pairing)

end
