(* ===== verification/Changelog_Facts.thy ===== *)
theory Changelog_Facts
  imports Changelog Monitor_Facts
begin

text \<open>
  What a changelog says, and that none is ever kept: the route that generates one gives its session
  up without a commit.
\<close>

section \<open>The text\<close>

lemma template_lists:
  assumes "d \<in> set ds" and "ch_severity d \<in> {''breaking'', ''risky'', ''safe''}"
  shows "py_in (change_line d) (template_changelog ds)"
proof -
  have "change_line d \<in> set (severity_section ds (ch_severity d))"
    using assms(1) by (auto simp: severity_section_def Let_def filter_empty_conv)
  then have "change_line d \<in> set (concat (map (severity_section ds) [''breaking'', ''risky'', ''safe'']))"
    using assms(2) by auto
  then show ?thesis unfolding template_changelog_def by (rule in_join)
qed

lemma changelog_text_sound:
  assumes "changelog_text env ds = (t, model)"
  shows "(model = None \<and> t = template_changelog ds) \<or> (model = Some (ce_model env) \<and> validate_llm_output t ds)"
  using assms by (auto simp: changelog_text_def split: option.splits if_splits)

section \<open>Nothing is kept\<close>

lemma add_diffs_logs: "md_logs (add_diffs env e a b ds db) = md_logs db"
  by (simp add: add_diffs_eq)

lemma process_logs: "md_logs (snd (process_endpoint env run_id ep db)) = md_logs db"
  by (simp add: process_endpoint_def Let_def add_snapshot_def add_diffs_logs split: option.split sum.split)

lemma process_all_logs: "md_logs (snd (process_all env run_id eps db)) = md_logs db"
proof (induction eps arbitrary: db)
  case (Cons ep eps)
  then show ?case using process_logs [of env run_id ep db] by (simp split: prod.split) (metis snd_conv)
qed simp

lemma upsert_logs:
  assumes "upsert_endpoints env db = Inr (eps, db')" shows "md_logs db' = md_logs db"
proof -
  have one: "md_logs d' = md_logs d" if "upsert_entry env ex entry d = Inr (i, d')" for ex entry d i d'
    using that by (auto simp: upsert_entry_def bind_err_eq_Inr store_entry_def Let_def split: option.splits)
  have "md_logs d' = md_logs d" if "upsert_entries env ex es d = Inr (is, d')" for ex es d "is" d'
    using that
  proof (induction es arbitrary: d "is")
    case (Cons e es)
    then show ?case by (auto simp: bind_err_eq_Inr dest: one)
  qed simp
  then show ?thesis using assms by (auto simp: upsert_endpoints_def bind_err_eq_Inr split: if_splits)
qed

lemma sweep_logs: "md_logs (retention_sweep env db) = md_logs db"
proof -
  have "md_logs (fold (sweep_endpoint env) es db) = md_logs db" for es
    by (induction es arbitrary: db) (simp_all add: sweep_endpoint_def Let_def)
  then show ?thesis by (simp add: retention_sweep_def)
qed

lemma run_logs: "md_logs (snd (run_monitor env got_lock db)) = md_logs db"
proof (cases "upsert_endpoints env (db\<lparr>md_next := Suc (md_next db),
    md_runs := md_runs db @ [new_run env (row_id (md_next db))]\<rparr>)")
  case (Inl e)
  then show ?thesis by (simp add: run_monitor_def Let_def)
next
  case (Inr x)
  obtain eps s1 where x: "x = (eps, s1)" by fastforce
  obtain rs s2 where p: "process_all env (row_id (md_next db)) eps s1 = (rs, s2)" by fastforce
  have "md_logs s2 = md_logs db"
    using process_all_logs [of env "row_id (md_next db)" eps s1] upsert_logs [OF Inr [unfolded x]] by (simp add: p)
  then show ?thesis by (simp add: run_monitor_def Let_def Inr x p sweep_logs)
qed

lemma reachable_logs: "monitor_reachable db \<Longrightarrow> md_logs db = []"
proof (induction rule: monitor_reachable.induct)
  case (run db env got_lock r db')
  then show ?case using run_logs [of env got_lock db] by simp
qed simp

section \<open>Properties\<close>


text \<open>A run of the monitor that stores one diff, and the changelog of its snapshot.\<close>

definition log_env :: changelog_env where
  "log_env = \<lparr>ce_now = 7, ce_sha256 = id, ce_api_key = None, ce_model = ''m'', ce_message = (\<lambda>s u. Inr None)\<rparr>"

definition empty_mdb :: mdb where
  "empty_mdb = \<lparr>md_next = 0, md_endpoints = [], md_runs = [], md_snaps = [], md_diffs = [], md_logs = []\<rparr>"

definition answer_of :: "json \<Rightarrow> http_answer" where
  "answer_of body = Answer 200 ''application/json'' 1 (Some body)"

text \<open>Two runs of the monitor with different bodies; the digest separates the two schemas.\<close>

definition two_runs :: mdb where
  "two_runs = (let env = (\<lambda>body t h. (monitor_demo (answer_of body))\<lparr>mv_now := t, mv_sha256 := (\<lambda>s. h)\<rparr>)
     in snd (run_monitor (env (JDict [(''n'', JInt 1)]) 10 ''h2'') True
         (snd (run_monitor (env (JDict []) 5 ''h1'') True empty_mdb))))"

lemma reachable_run: "monitor_reachable db \<Longrightarrow> monitor_reachable (snd (run_monitor env got_lock db))"
  by (erule monitor_reachable.run) (rule surjective_pairing)

lemma two_runs_reachable: "monitor_reachable two_runs"
  unfolding two_runs_def Let_def empty_mdb_def
  by (intro reachable_run monitor_reachable.empty)


text \<open>The changelog of a body that lost all its fields is refused as if the fetch had failed: the schema of an
  empty object is an empty list, which the route takes for a missing schema.\<close>

lemma empty_schema_has_no_changelog:
  assumes "row_at sp_id i (md_snaps db) = Some snap" and "secret \<noteq> []"
    and "sp_schema snap = Some (JList (map node_json (infer_schema (JDict []))))"
  shows "api_generate_changelog env secret (Some secret) i db
    = (Inl (HTTPException 422 ''snapshot has no schema (fetch failed)''), db)"
proof -
  have "infer_schema (JDict []) = []" by (simp add: infer_schema_def)
  then show ?thesis
    using assms by (simp add: api_generate_changelog_def require_admin_def with_session_def generate_route_def)
qed

end
