(* ===== verification/Monitor_Routes.thy ===== *)
theory Monitor_Routes
  imports Changelog_Facts
begin

text \<open>
  The responses of the monitor's routes: the classes of \<^verbatim>\<open>backend/app/schemas.py\<close> and the handlers
  under \<^verbatim>\<open>backend/app/api\<close> that build them from the tables. Validating a row fails where a column
  does not have the type its class declares; the only column that the program does not keep in its
  type is \<open>headers_json\<close>. The text that the framework gives a time is a parameter.
\<close>

section \<open>Response bodies\<close>

definition opt_field :: "('a \<Rightarrow> json) \<Rightarrow> 'a option \<Rightarrow> json" where
  "opt_field f v = (case v of None \<Rightarrow> JNull | Some x \<Rightarrow> f x)"

definition EndpointOut ::
  "(nat \<Rightarrow> string) \<Rightarrow> monitor_endpoint \<times> string option \<times> nat option \<Rightarrow> py_error + json" where
  "EndpointOut time row =
     (case row of (ep, latest_snapshot_hash, latest_checked_at) \<Rightarrow>
        if \<not> is_dict (me_headers ep) then Inl (ValueError ''headers_json: Input should be a valid dictionary'')
        else Inr (JDict
          [(''id'', JStr (me_id ep)), (''name'', JStr (me_name ep)), (''provider'', JStr (me_provider ep)),
           (''url'', JStr (me_url ep)), (''method'', JStr (me_method ep)), (''headers_json'', me_headers ep),
           (''is_active'', JBool (me_active ep)), (''created_at'', JStr (time (me_created ep))),
           (''updated_at'', JStr (time (me_updated ep))),
           (''latest_snapshot_hash'', opt_field JStr latest_snapshot_hash),
           (''latest_checked_at'', opt_field (\<lambda>t. JStr (time t)) latest_checked_at)]))"

definition SnapshotOut :: "(nat \<Rightarrow> string) \<Rightarrow> monitor_snapshot \<Rightarrow> json" where
  "SnapshotOut time s = JDict
     [(''id'', JStr (sp_id s)), (''endpoint_id'', JStr (sp_endpoint s)), (''monitor_run_id'', JStr (sp_run s)),
      (''schema_hash'', JStr (sp_hash s)), (''status_code'', JInt (sp_status s)),
      (''response_time_ms'', JInt (int (sp_time_ms s))), (''response_size_bytes'', JInt (int (sp_size s))),
      (''normalized_schema_json'', opt_field id (sp_schema s)), (''raw_sample_json'', opt_field id (sp_raw s)),
      (''fetch_error'', opt_field JStr (sp_error s)), (''created_at'', JStr (time (sp_created s)))]"

definition DiffOut :: "(nat \<Rightarrow> string) \<Rightarrow> diff_row \<Rightarrow> json" where
  "DiffOut time d = JDict
     [(''id'', JStr (df_id d)), (''endpoint_id'', JStr (df_endpoint d)), (''old_snapshot_id'', JStr (df_old d)),
      (''new_snapshot_id'', JStr (df_new d)), (''severity'', JStr (df_severity d)), (''change_type'', JStr (df_type d)),
      (''path'', JStr (df_path d)), (''old_type'', opt_field JStr (df_old_type d)),
      (''new_type'', opt_field JStr (df_new_type d)), (''old_value_json'', opt_field id (df_old_value d)),
      (''new_value_json'', opt_field id (df_new_value d)), (''message'', JStr (df_message d)),
      (''created_at'', JStr (time (df_created d)))]"

definition ChangelogOut :: "(nat \<Rightarrow> string) \<Rightarrow> changelog_row \<Rightarrow> json" where
  "ChangelogOut time c = JDict
     [(''id'', JStr (cl_id c)), (''endpoint_id'', JStr (cl_endpoint c)), (''snapshot_id'', JStr (cl_snapshot c)),
      (''diff_ids'', JList (map JStr (cl_diff_ids c))), (''diff_set_hash'', JStr (cl_hash c)),
      (''generated_text'', JStr (cl_text c)), (''model_name'', opt_field JStr (cl_model c)),
      (''created_at'', JStr (time (cl_created c)))]"

definition MonitorRunOut :: "(nat \<Rightarrow> string) \<Rightarrow> monitor_run \<Rightarrow> json" where
  "MonitorRunOut time r = JDict
     [(''id'', JStr (mr_id r)), (''started_at'', JStr (time (mr_started r))),
      (''finished_at'', opt_field (\<lambda>t. JStr (time t)) (mr_finished r)), (''status'', JStr (mr_status r)),
      (''endpoints_checked'', JInt (int (mr_checked r))), (''snapshots_created'', JInt (int (mr_snapshots r))),
      (''diffs_detected'', JInt (int (mr_diffs r))), (''error_message'', opt_field JStr (mr_error r))]"

definition MonitorRunResponse :: "string \<Rightarrow> json" where
  "MonitorRunResponse run_id = JDict [(''monitor_run_id'', JStr run_id), (''status'', JStr ''started'')]"

section \<open>Routes\<close>

definition get_endpoints :: "(nat \<Rightarrow> string) \<Rightarrow> mdb \<Rightarrow> py_error + json" where
  "get_endpoints time db = bind_err (map_err (EndpointOut time) (list_endpoints db)) (\<lambda>out. Inr (JList out))"

definition get_one_endpoint :: "(nat \<Rightarrow> string) \<Rightarrow> mdb \<Rightarrow> string \<Rightarrow> py_error + json" where
  "get_one_endpoint time db endpoint_id = bind_err (get_endpoint db endpoint_id) (EndpointOut time)"

text \<open>A limit outside its bounds is refused with 422 before the handler runs.\<close>

definition bounded_list :: "int \<Rightarrow> int \<Rightarrow> int option \<Rightarrow> (nat \<Rightarrow> json list) \<Rightarrow> py_error + json" where
  "bounded_list dflt most raw rows =
     (let limit = (case raw of None \<Rightarrow> dflt | Some n \<Rightarrow> n)
      in if 1 \<le> limit \<and> limit \<le> most then Inr (JList (rows (nat limit)))
         else Inl (HTTPException 422 ''Unprocessable Entity''))"

definition get_snapshots :: "(nat \<Rightarrow> string) \<Rightarrow> mdb \<Rightarrow> string \<Rightarrow> int option \<Rightarrow> py_error + json" where
  "get_snapshots time db endpoint_id raw =
     bounded_list 50 200 raw (\<lambda>limit. map (SnapshotOut time) (list_snapshots db endpoint_id limit))"

definition get_endpoint_diffs ::
  "(nat \<Rightarrow> string) \<Rightarrow> mdb \<Rightarrow> string \<Rightarrow> int option \<Rightarrow> string option \<Rightarrow> py_error + json" where
  "get_endpoint_diffs time db endpoint_id raw severity =
     bounded_list 50 500 raw (\<lambda>limit. map (DiffOut time) (list_diffs_for_endpoint db endpoint_id limit severity))"

definition get_recent_diffs :: "(nat \<Rightarrow> string) \<Rightarrow> mdb \<Rightarrow> int option \<Rightarrow> string option \<Rightarrow> py_error + json" where
  "get_recent_diffs time db raw severity =
     bounded_list 100 500 raw (\<lambda>limit. map (DiffOut time) (list_recent_diffs db limit severity))"

definition get_changelogs :: "(nat \<Rightarrow> string) \<Rightarrow> mdb \<Rightarrow> string \<Rightarrow> int option \<Rightarrow> py_error + json" where
  "get_changelogs time db endpoint_id raw =
     bounded_list 20 100 raw (\<lambda>limit. map (ChangelogOut time) (list_changelogs_for_endpoint db endpoint_id limit))"

definition get_monitor_runs :: "(nat \<Rightarrow> string) \<Rightarrow> mdb \<Rightarrow> int option \<Rightarrow> py_error + json" where
  "get_monitor_runs time db raw =
     bounded_list 20 100 raw (\<lambda>limit. map (MonitorRunOut time) (list_monitor_runs db limit))"

text \<open>\<open>backend/app/api/health.py\<close>: the state of the service is never anything else than ok.\<close>

definition health :: "string \<Rightarrow> bool \<Rightarrow> json" where
  "health version database_answers =
     JDict [(''status'', JStr ''ok''), (''db'', JStr (if database_answers then ''ok'' else ''error'')),
            (''version'', JStr version)]"

section \<open>Headers that are no object\<close>

lemma map_err_ok_iff: "(\<exists>ys. map_err f xs = Inr ys) \<longleftrightarrow> (\<forall>x \<in> set xs. \<exists>y. f x = Inr y)"
proof (induction xs)
  case (Cons x xs)
  then show ?case by (cases "f x"; cases "map_err f xs") auto
qed simp

lemma EndpointOut_ok: "(\<exists>j. EndpointOut time row = Inr j) \<longleftrightarrow> is_dict (me_headers (fst row))"
  by (cases row) (simp add: EndpointOut_def)

lemma endpoints_listed:
  "(\<exists>body. get_endpoints time db = Inr body) \<longleftrightarrow> (\<forall>ep \<in> set (md_endpoints db). is_dict (me_headers ep))"
proof -
  have "(\<exists>body. get_endpoints time db = Inr body) \<longleftrightarrow> (\<exists>out. map_err (EndpointOut time) (list_endpoints db) = Inr out)"
    by (cases "map_err (EndpointOut time) (list_endpoints db)") (simp_all add: get_endpoints_def)
  then show ?thesis
    unfolding map_err_ok_iff EndpointOut_ok by (simp add: list_endpoints_def endpoint_out_def)
qed

lemma expand_env_dict [simp]: "is_dict (expand_env env j) = is_dict j"
  by (cases j) simp_all

lemma set_endpoint_headers: "me_headers (set_endpoint t p u m h a ep) = h"
proof -
  let ?new = "ep\<lparr>me_provider := p, me_url := u, me_method := m, me_headers := h, me_active := a\<rparr>"
  have "me_headers ?new = h" by simp
  then have "?new = ep \<Longrightarrow> me_headers ep = h" by metis
  then show ?thesis by (simp add: set_endpoint_def Let_def)
qed

lemma stored_headers:
  assumes "store_entry env found name p u m h a db = (i, db')"
    and "\<And>j. found = Some j \<Longrightarrow> j \<in> me_id ` set (md_endpoints db)"
  shows "\<exists>ep \<in> set (md_endpoints db'). me_headers ep = h"
proof (cases found)
  case None
  then show ?thesis using assms(1) by (auto simp: store_entry_def Let_def)
next
  case (Some j)
  from assms(2) [OF this] obtain ep where ep: "ep \<in> set (md_endpoints db)" "me_id ep = j" by auto
  have "set_endpoint (mv_now env) p u m h a ep \<in> set (md_endpoints db')"
    using assms(1) ep by (auto simp: Some store_entry_def in_update_where)
  then show ?thesis using set_endpoint_headers by blast
qed

section \<open>Properties\<close>

text \<open>C40: One entry of the registry file can hide every endpoint. The monitor stores the headers of an entry
  as they are in the file; when they are a list or a text, the run still succeeds, but from then on the
  listing of all endpoints fails, for every endpoint, because a response needs an object. The listing
  works exactly when the headers of all stored endpoints are objects.\<close>

theorem headers_hide_all_endpoints:
  assumes "monitor_wf db" and "load_yaml env = Inr [entry]" and "jget entry ''headers'' = Some h" and "truthy h"
    and "run_monitor env True db = (Inr i, db')"
  shows "((\<exists>body. get_endpoints time db' = Inr body) \<longleftrightarrow> (\<forall>ep \<in> set (md_endpoints db'). is_dict (me_headers ep)))
    \<and> (\<not> is_dict h \<longrightarrow> (\<exists>e. get_endpoints time db' = Inl e))"
proof -
  obtain eps s1 results s2 where i: "i = row_id (md_next db)"
    and u: "upsert_endpoints env (db\<lparr>md_next := Suc (md_next db), md_runs := md_runs db @ [new_run env i]\<rparr>) = Inr (eps, s1)"
    and wf: "monitor_wf s1" and p: "process_all env i eps s1 = (results, s2)"
    and db': "db' = (retention_sweep env s2)\<lparr>md_runs := md_runs db @ [finish_run env (length eps) results (new_run env i)]\<rparr>"
    using run_monitor_steps [OF assms(5,1)] by metis
  have same: "md_endpoints db' = md_endpoints s1" using process_all_effect [OF p wf] by (simp add: db')
  let ?ex = "map_of (map (\<lambda>r. (me_name r, me_id r)) (md_endpoints db))"
  have "entry_headers env entry = expand_env (mv_environ env) h" using assms(3,4) by (simp add: entry_headers_def jget_or_def)
  then obtain name pr url meth act k where st: "store_entry env (?ex name) name pr url meth (expand_env (mv_environ env) h) act
      (db\<lparr>md_next := Suc (md_next db), md_runs := md_runs db @ [new_run env i]\<rparr>) = (k, s1)"
    using u assms(2) by (auto simp: upsert_endpoints_def upsert_entry_def bind_err_eq_Inr split: if_splits)
  have "j \<in> me_id ` set (md_endpoints db)" if "?ex name = Some j" for j using that by (auto dest!: map_of_SomeD)
  then obtain ep where ep: "ep \<in> set (md_endpoints db')" "me_headers ep = expand_env (mv_environ env) h"
    using stored_headers [OF st] unfolding same by auto
  have "\<not> is_dict h \<longrightarrow> (\<exists>e. get_endpoints time db' = Inl e)"
  proof
    assume "\<not> is_dict h"
    then have "\<not> (\<exists>body. get_endpoints time db' = Inr body)" unfolding endpoints_listed using ep expand_env_dict by metis
    then show "\<exists>e. get_endpoints time db' = Inl e" by (cases "get_endpoints time db'") auto
  qed
  then show ?thesis using endpoints_listed by blast
qed

text \<open>A run over an entry whose headers are a list of pairs, with an endpoint that answers.\<close>

definition demo_headers :: monitor_env where
  "demo_headers = (monitor_demo demo_answer)\<lparr>mv_registry := Inr (JDict [(''apis'', JList [JDict
     [(''name'', JStr ''b''), (''provider'', JStr ''p''), (''url'', JStr ''u''),
      (''headers'', JList [JList [JStr ''X-Key'', JStr ''k'']])]])])\<rparr>"

lemma headers_hide_all_endpoints_witness:
  "\<exists>i db' e. run_monitor demo_headers True demo_mdb = (Inr i, db') \<and> length (md_endpoints db') = 2
    \<and> get_endpoints (\<lambda>t. ''t'') db' = Inl e"
proof -
  have "let (r, db') = run_monitor demo_headers True demo_mdb
    in (case r of Inr i \<Rightarrow> True | Inl e \<Rightarrow> False) \<and> length (md_endpoints db') = 2" by code_simp
  then obtain i db' where run: "run_monitor demo_headers True demo_mdb = (Inr i, db')" "length (md_endpoints db') = 2"
    by (auto split: prod.splits sum.splits)
  let ?h = "JList [JList [JStr ''X-Key'', JStr ''k'']]"
  let ?entry = "JDict [(''name'', JStr ''b''), (''provider'', JStr ''p''), (''url'', JStr ''u''), (''headers'', ?h)]"
  have "load_yaml demo_headers = Inr [?entry]" by (simp add: load_yaml_def demo_headers_def jget_or_def)
  moreover have "jget ?entry ''headers'' = Some ?h" "truthy ?h" "\<not> is_dict ?h" by simp_all
  ultimately obtain e where "get_endpoints (\<lambda>t. ''t'') db' = Inl e"
    using headers_hide_all_endpoints [OF demo_wf _ _ _ run(1)] by blast
  with run show ?thesis by blast
qed

end
