(* ===== verification/Monitor_Tables.thy ===== *)
theory Monitor_Tables
  imports Monitor_Facts Migrations
begin

text \<open>
  The tables of the monitor as the database has them: the migration \<^verbatim>\<open>backend/alembic/versions/0001_init.py\<close>
  as a list of statements, the tables that \<^verbatim>\<open>backend/app/models.py\<close> declares, and what the constraints say
  of rows. The statements act on a catalog of tables and indexes the way the database documents them.
\<close>

section \<open>Statements\<close>

datatype column_type = UuidT | TextT | IntegerT | BooleanT | JsonbT | TimestampT

datatype on_delete = Cascade | SetNull

record column =
  co_name :: string
  co_type :: column_type
  co_nullable :: bool
  co_primary :: bool
  co_unique :: bool
  co_default :: "string option"   \<comment> \<open>the default of the server\<close>
  co_ref :: "(string \<times> string \<times> on_delete) option"

record table_def =
  td_name :: string
  td_columns :: "column list"
  td_checks :: "(string \<times> string \<times> string list) list"   \<comment> \<open>name, column, allowed values\<close>
  td_uniques :: "(string \<times> string list) list"

record index_def =
  ix_name :: string
  ix_table :: string
  ix_columns :: "string list"

datatype ddl =
    Create_Extension string
  | Create_Table table_def
  | Create_Index index_def
  | Drop_Index string string
  | Drop_Table string

record catalog =
  cat_extensions :: "string list"
  cat_tables :: "table_def list"
  cat_indexes :: "index_def list"

definition no_tables :: catalog where
  "no_tables = \<lparr>cat_extensions = [], cat_tables = [], cat_indexes = []\<rparr>"

definition find_table :: "catalog \<Rightarrow> string \<Rightarrow> table_def option" where
  "find_table c t = row_at td_name t (cat_tables c)"

definition column_names :: "table_def \<Rightarrow> string list" where
  "column_names t = map co_name (td_columns t)"

text \<open>A foreign key needs a table with that column as its key.\<close>

definition ref_exists :: "catalog \<Rightarrow> column \<Rightarrow> bool" where
  "ref_exists c co = (case co_ref co of
      None \<Rightarrow> True
    | Some (t, k, d) \<Rightarrow> (case find_table c t of
          None \<Rightarrow> False
        | Some td \<Rightarrow> list_ex (\<lambda>x. co_name x = k \<and> (co_primary x \<or> co_unique x)) (td_columns td)))"

definition refers_to :: "string \<Rightarrow> table_def \<Rightarrow> bool" where
  "refers_to t td = list_ex (\<lambda>co. case co_ref co of None \<Rightarrow> False | Some (u, _, _) \<Rightarrow> u = t) (td_columns td)"

definition exec_ddl :: "ddl \<Rightarrow> catalog \<Rightarrow> sql_error + catalog" where
  "exec_ddl d c =
     (case d of
        Create_Extension e \<Rightarrow>
          Inr (if e \<in> set (cat_extensions c) then c else c\<lparr>cat_extensions := cat_extensions c @ [e]\<rparr>)
      | Create_Table td \<Rightarrow>
          if find_table c (td_name td) \<noteq> None then Inl DuplicateTable
          else if \<not> list_all (ref_exists c) (td_columns td) then Inl (OtherSqlError ''UndefinedTable'')
          else Inr (c\<lparr>cat_tables := cat_tables c @ [td]\<rparr>)
      | Create_Index ix \<Rightarrow>
          if ix_name ix \<in> set (map ix_name (cat_indexes c)) then Inl DuplicateTable
          else (case find_table c (ix_table ix) of
              None \<Rightarrow> Inl (OtherSqlError ''UndefinedTable'')
            | Some td \<Rightarrow>
                if list_all (\<lambda>k. k \<in> set (column_names td)) (ix_columns ix)
                then Inr (c\<lparr>cat_indexes := cat_indexes c @ [ix]\<rparr>)
                else Inl (OtherSqlError ''UndefinedColumn''))
      | Drop_Index n t \<Rightarrow>
          if n \<in> set (map ix_name (cat_indexes c))
          then Inr (c\<lparr>cat_indexes := filter (\<lambda>i. ix_name i \<noteq> n) (cat_indexes c)\<rparr>)
          else Inl (OtherSqlError ''UndefinedObject'')
      | Drop_Table t \<Rightarrow>
          if find_table c t = None then Inl (OtherSqlError ''UndefinedTable'')
          else if list_ex (\<lambda>td. td_name td \<noteq> t \<and> refers_to t td) (cat_tables c)
          then Inl (OtherSqlError ''DependentObjectsStillExist'')
          else Inr (c\<lparr>cat_tables := filter (\<lambda>td. td_name td \<noteq> t) (cat_tables c),
                      cat_indexes := filter (\<lambda>i. ix_table i \<noteq> t) (cat_indexes c)\<rparr>))"

fun run_ddl :: "ddl list \<Rightarrow> catalog \<Rightarrow> sql_error + catalog" where
  "run_ddl [] c = Inr c"
| "run_ddl (d # ds) c = bind_err (exec_ddl d c) (run_ddl ds)"

section \<open>The migration\<close>

definition plain_column :: "string \<Rightarrow> column_type \<Rightarrow> column" where
  "plain_column n t = \<lparr>co_name = n, co_type = t, co_nullable = False, co_primary = False, co_unique = False,
     co_default = None, co_ref = None\<rparr>"

definition key_column :: column where
  "key_column = (plain_column ''id'' UuidT)\<lparr>co_primary := True\<rparr>"

definition null_column :: "string \<Rightarrow> column_type \<Rightarrow> column" where
  "null_column n t = (plain_column n t)\<lparr>co_nullable := True\<rparr>"

definition ref_column :: "string \<Rightarrow> string \<Rightarrow> column" where
  "ref_column n t = (plain_column n UuidT)\<lparr>co_ref := Some (t, ''id'', Cascade)\<rparr>"

definition default_column :: "string \<Rightarrow> column_type \<Rightarrow> string \<Rightarrow> column" where
  "default_column n t d = (plain_column n t)\<lparr>co_default := Some d\<rparr>"

definition api_endpoints_table :: table_def where
  "api_endpoints_table = \<lparr>td_name = ''api_endpoints'', td_columns =
     [key_column, (plain_column ''name'' TextT)\<lparr>co_unique := True\<rparr>, plain_column ''provider'' TextT, plain_column ''url'' TextT,
      default_column ''method'' TextT ''GET'', default_column ''headers_json'' JsonbT ''{}'',
      default_column ''is_active'' BooleanT ''true'', default_column ''created_at'' TimestampT ''now()'',
      default_column ''updated_at'' TimestampT ''now()''],
     td_checks = [], td_uniques = []\<rparr>"

definition monitor_runs_table :: table_def where
  "monitor_runs_table = \<lparr>td_name = ''monitor_runs'', td_columns =
     [key_column, default_column ''started_at'' TimestampT ''now()'', null_column ''finished_at'' TimestampT,
      plain_column ''status'' TextT, default_column ''endpoints_checked'' IntegerT ''0'',
      default_column ''snapshots_created'' IntegerT ''0'', default_column ''diffs_detected'' IntegerT ''0'',
      null_column ''error_message'' TextT],
     td_checks = [(''ck_monitor_runs_status'', ''status'', [''running'', ''success'', ''partial_failure'', ''failed''])],
     td_uniques = []\<rparr>"

definition schema_snapshots_table :: table_def where
  "schema_snapshots_table = \<lparr>td_name = ''schema_snapshots'', td_columns =
     [key_column, ref_column ''endpoint_id'' ''api_endpoints'', ref_column ''monitor_run_id'' ''monitor_runs'',
      plain_column ''schema_hash'' TextT, default_column ''status_code'' IntegerT ''0'',
      default_column ''response_time_ms'' IntegerT ''0'', default_column ''response_size_bytes'' IntegerT ''0'',
      null_column ''normalized_schema_json'' JsonbT, null_column ''raw_sample_json'' JsonbT,
      null_column ''fetch_error'' TextT, default_column ''created_at'' TimestampT ''now()''],
     td_checks = [], td_uniques = []\<rparr>"

definition schema_diffs_table :: table_def where
  "schema_diffs_table = \<lparr>td_name = ''schema_diffs'', td_columns =
     [key_column, ref_column ''endpoint_id'' ''api_endpoints'',
      (null_column ''old_snapshot_id'' UuidT)\<lparr>co_ref := Some (''schema_snapshots'', ''id'', SetNull)\<rparr>,
      ref_column ''new_snapshot_id'' ''schema_snapshots'', plain_column ''severity'' TextT, plain_column ''change_type'' TextT,
      plain_column ''path'' TextT, null_column ''old_type'' TextT, null_column ''new_type'' TextT,
      null_column ''old_value_json'' JsonbT, null_column ''new_value_json'' JsonbT, plain_column ''message'' TextT,
      default_column ''created_at'' TimestampT ''now()''],
     td_checks = [(''ck_schema_diffs_severity'', ''severity'', [''breaking'', ''risky'', ''safe''])], td_uniques = []\<rparr>"

definition changelogs_table :: table_def where
  "changelogs_table = \<lparr>td_name = ''changelogs'', td_columns =
     [key_column, ref_column ''endpoint_id'' ''api_endpoints'', ref_column ''snapshot_id'' ''schema_snapshots'',
      plain_column ''diff_ids'' JsonbT, plain_column ''diff_set_hash'' TextT, plain_column ''generated_text'' TextT,
      null_column ''model_name'' TextT, default_column ''created_at'' TimestampT ''now()''],
     td_checks = [], td_uniques = [(''uq_changelog_snapshot_diffset'', [''snapshot_id'', ''diff_set_hash''])]\<rparr>"

definition create_index :: "string \<Rightarrow> string \<Rightarrow> string list \<Rightarrow> ddl" where
  "create_index n t ks = Create_Index \<lparr>ix_name = n, ix_table = t, ix_columns = ks\<rparr>"

definition upgrade :: "ddl list" where
  "upgrade =
    [Create_Extension ''pgcrypto'',
     Create_Table api_endpoints_table,
     create_index ''ix_api_endpoints_is_active'' ''api_endpoints'' [''is_active''],
     Create_Table monitor_runs_table,
     create_index ''ix_monitor_runs_started_at_desc'' ''monitor_runs'' [''started_at''],
     Create_Table schema_snapshots_table,
     create_index ''ix_schema_snapshots_hash'' ''schema_snapshots'' [''schema_hash''],
     create_index ''ix_schema_snapshots_endpoint_created'' ''schema_snapshots'' [''endpoint_id'', ''created_at''],
     Create_Table schema_diffs_table,
     create_index ''ix_schema_diffs_endpoint_created'' ''schema_diffs'' [''endpoint_id'', ''created_at''],
     create_index ''ix_schema_diffs_path'' ''schema_diffs'' [''path''],
     create_index ''ix_schema_diffs_severity'' ''schema_diffs'' [''severity''],
     create_index ''ix_schema_diffs_new_snapshot'' ''schema_diffs'' [''new_snapshot_id''],
     Create_Table changelogs_table,
     create_index ''ix_changelogs_endpoint_created'' ''changelogs'' [''endpoint_id'', ''created_at'']]"

definition downgrade :: "ddl list" where
  "downgrade =
    [Drop_Index ''ix_changelogs_endpoint_created'' ''changelogs'', Drop_Table ''changelogs'',
     Drop_Index ''ix_schema_diffs_new_snapshot'' ''schema_diffs'', Drop_Index ''ix_schema_diffs_severity'' ''schema_diffs'',
     Drop_Index ''ix_schema_diffs_path'' ''schema_diffs'', Drop_Index ''ix_schema_diffs_endpoint_created'' ''schema_diffs'',
     Drop_Table ''schema_diffs'',
     Drop_Index ''ix_schema_snapshots_endpoint_created'' ''schema_snapshots'', Drop_Index ''ix_schema_snapshots_hash'' ''schema_snapshots'',
     Drop_Table ''schema_snapshots'',
     Drop_Index ''ix_monitor_runs_started_at_desc'' ''monitor_runs'', Drop_Table ''monitor_runs'',
     Drop_Index ''ix_api_endpoints_is_active'' ''api_endpoints'', Drop_Table ''api_endpoints'']"

section \<open>The declared tables\<close>

text \<open>\<open>mapped_column(.., default=..)\<close> is a default of the client and none of the server.\<close>

definition no_default :: "column \<Rightarrow> column" where
  "no_default c = c\<lparr>co_default := None\<rparr>"

definition timestamp_now :: "string \<Rightarrow> column" where
  "timestamp_now n = default_column n TimestampT ''now()''"

definition declared_endpoints :: table_def where
  "declared_endpoints = \<lparr>td_name = ''api_endpoints'', td_columns =
     [key_column, (plain_column ''name'' TextT)\<lparr>co_unique := True\<rparr>, plain_column ''provider'' TextT, plain_column ''url'' TextT,
      plain_column ''method'' TextT, plain_column ''headers_json'' JsonbT, plain_column ''is_active'' BooleanT,
      timestamp_now ''created_at'', timestamp_now ''updated_at''],
     td_checks = [], td_uniques = []\<rparr>"

definition declared_runs :: table_def where
  "declared_runs = \<lparr>td_name = ''monitor_runs'', td_columns =
     [key_column, timestamp_now ''started_at'', null_column ''finished_at'' TimestampT, plain_column ''status'' TextT,
      plain_column ''endpoints_checked'' IntegerT, plain_column ''snapshots_created'' IntegerT,
      plain_column ''diffs_detected'' IntegerT, null_column ''error_message'' TextT],
     td_checks = [(''ck_monitor_runs_status'', ''status'', [''running'', ''success'', ''partial_failure'', ''failed''])],
     td_uniques = []\<rparr>"

definition declared_snapshots :: table_def where
  "declared_snapshots = \<lparr>td_name = ''schema_snapshots'', td_columns =
     [key_column, ref_column ''endpoint_id'' ''api_endpoints'', ref_column ''monitor_run_id'' ''monitor_runs'',
      plain_column ''schema_hash'' TextT, plain_column ''status_code'' IntegerT, plain_column ''response_time_ms'' IntegerT,
      plain_column ''response_size_bytes'' IntegerT, null_column ''normalized_schema_json'' JsonbT,
      null_column ''raw_sample_json'' JsonbT, null_column ''fetch_error'' TextT, timestamp_now ''created_at''],
     td_checks = [], td_uniques = []\<rparr>"

definition declared_diffs :: table_def where
  "declared_diffs = \<lparr>td_name = ''schema_diffs'', td_columns =
     [key_column, ref_column ''endpoint_id'' ''api_endpoints'',
      (null_column ''old_snapshot_id'' UuidT)\<lparr>co_ref := Some (''schema_snapshots'', ''id'', SetNull)\<rparr>,
      ref_column ''new_snapshot_id'' ''schema_snapshots'', plain_column ''severity'' TextT, plain_column ''change_type'' TextT,
      plain_column ''path'' TextT, null_column ''old_type'' TextT, null_column ''new_type'' TextT,
      null_column ''old_value_json'' JsonbT, null_column ''new_value_json'' JsonbT, plain_column ''message'' TextT,
      timestamp_now ''created_at''],
     td_checks = [(''ck_schema_diffs_severity'', ''severity'', [''breaking'', ''risky'', ''safe''])], td_uniques = []\<rparr>"

definition declared_changelogs :: table_def where
  "declared_changelogs = \<lparr>td_name = ''changelogs'', td_columns =
     [key_column, ref_column ''endpoint_id'' ''api_endpoints'', ref_column ''snapshot_id'' ''schema_snapshots'',
      plain_column ''diff_ids'' JsonbT, plain_column ''diff_set_hash'' TextT, plain_column ''generated_text'' TextT,
      null_column ''model_name'' TextT, timestamp_now ''created_at''],
     td_checks = [], td_uniques = [(''uq_changelog_snapshot_diffset'', [''snapshot_id'', ''diff_set_hash''])]\<rparr>"

definition declared_tables :: "table_def list" where
  "declared_tables = [declared_endpoints, declared_runs, declared_snapshots, declared_diffs, declared_changelogs]"

definition declared_indexes :: "(string \<times> string \<times> string list) list" where
  "declared_indexes =
    [(''ix_api_endpoints_is_active'', ''api_endpoints'', [''is_active'']),
     (''ix_monitor_runs_started_at_desc'', ''monitor_runs'', [''started_at'']),
     (''ix_schema_snapshots_hash'', ''schema_snapshots'', [''schema_hash'']),
     (''ix_schema_snapshots_endpoint_created'', ''schema_snapshots'', [''endpoint_id'', ''created_at'']),
     (''ix_schema_diffs_endpoint_created'', ''schema_diffs'', [''endpoint_id'', ''created_at'']),
     (''ix_schema_diffs_path'', ''schema_diffs'', [''path'']),
     (''ix_schema_diffs_severity'', ''schema_diffs'', [''severity'']),
     (''ix_schema_diffs_new_snapshot'', ''schema_diffs'', [''new_snapshot_id'']),
     (''ix_changelogs_endpoint_created'', ''changelogs'', [''endpoint_id'', ''created_at''])]"

section \<open>The migration and the declarations\<close>

text \<open>The catalog after the upgrade.\<close>

definition migrated :: catalog where
  "migrated = (case run_ddl upgrade no_tables of Inr c \<Rightarrow> c | Inl e \<Rightarrow> no_tables)"

definition without_defaults :: "table_def \<Rightarrow> table_def" where
  "without_defaults t = t\<lparr>td_columns := map no_default (td_columns t)\<rparr>"

definition server_defaults :: "table_def \<Rightarrow> (string \<times> string \<times> string) list" where
  "server_defaults t = concat (map (\<lambda>c. case co_default c of None \<Rightarrow> [] | Some d \<Rightarrow> [(td_name t, co_name c, d)]) (td_columns t))"

lemma upgrade_runs: "run_ddl upgrade no_tables = Inr migrated"
proof -
  have "case run_ddl upgrade no_tables of Inr c \<Rightarrow> True | Inl e \<Rightarrow> False" by code_simp
  then show ?thesis by (auto simp: migrated_def split: sum.splits)
qed

theorem migration_matches_models:
  "run_ddl upgrade no_tables = Inr migrated
   \<and> map without_defaults (cat_tables migrated) = map without_defaults declared_tables
   \<and> map (\<lambda>i. (ix_name i, ix_table i, ix_columns i)) (cat_indexes migrated) = declared_indexes
   \<and> list_all (\<lambda>d. d \<in> set (concat (map server_defaults (cat_tables migrated)))) (concat (map server_defaults declared_tables))
   \<and> run_ddl downgrade migrated = Inr (no_tables\<lparr>cat_extensions := [''pgcrypto'']\<rparr>)"
  by (intro conjI upgrade_runs) code_simp+

section \<open>What the constraints say of rows\<close>

text \<open>The values of a row; the range of \<open>INTEGER\<close> is left out.\<close>

datatype sql_value = SqlNull | SqlUuid string | SqlText string | SqlInt int | SqlBool bool | SqlJson json | SqlTime nat

type_synonym sql_row = "(string \<times> sql_value) list"

fun has_type :: "column_type \<Rightarrow> sql_value \<Rightarrow> bool" where
  "has_type UuidT (SqlUuid _) = True"
| "has_type TextT (SqlText _) = True"
| "has_type IntegerT (SqlInt _) = True"
| "has_type BooleanT (SqlBool _) = True"
| "has_type JsonbT (SqlJson _) = True"
| "has_type TimestampT (SqlTime _) = True"
| "has_type _ _ = False"

definition value_at :: "sql_row \<Rightarrow> string \<Rightarrow> sql_value" where
  "value_at row k = (case map_of row k of None \<Rightarrow> SqlNull | Some v \<Rightarrow> v)"

definition row_ok :: "table_def \<Rightarrow> sql_row \<Rightarrow> bool" where
  "row_ok td row \<longleftrightarrow> map fst row = column_names td
     \<and> list_all (\<lambda>c. if value_at row (co_name c) = SqlNull then co_nullable c \<and> \<not> co_primary c
          else has_type (co_type c) (value_at row (co_name c))) (td_columns td)
     \<and> list_all (\<lambda>(n, k, vs). value_at row k = SqlNull \<or> value_at row k \<in> SqlText ` set vs) (td_checks td)"

text \<open>Rows with a null in a unique key do not clash.\<close>

definition key_values :: "string list \<Rightarrow> sql_row list \<Rightarrow> sql_value list list" where
  "key_values ks rows = filter (\<lambda>vs. SqlNull \<notin> set vs) (map (\<lambda>row. map (value_at row) ks) rows)"

definition table_ok :: "(string \<Rightarrow> sql_row list) \<Rightarrow> table_def \<Rightarrow> bool" where
  "table_ok rows_of td \<longleftrightarrow>
     (let rows = rows_of (td_name td)
      in list_all (row_ok td) rows
         \<and> list_all (\<lambda>c. co_primary c \<or> co_unique c \<longrightarrow> distinct (key_values [co_name c] rows)) (td_columns td)
         \<and> list_all (\<lambda>(n, ks). distinct (key_values ks rows)) (td_uniques td)
         \<and> list_all (\<lambda>c. case co_ref c of
                None \<Rightarrow> True
              | Some (t, k, d) \<Rightarrow> list_all (\<lambda>row. value_at row (co_name c) = SqlNull
                  \<or> value_at row (co_name c) \<in> (\<lambda>r. value_at r k) ` set (rows_of t)) rows) (td_columns td))"

definition constraints_hold :: "catalog \<Rightarrow> (string \<Rightarrow> sql_row list) \<Rightarrow> bool" where
  "constraints_hold c rows_of \<longleftrightarrow> list_all (table_ok rows_of) (cat_tables c)"

text \<open>The rows of the model in the columns of the classes of \<^verbatim>\<open>models.py\<close>.\<close>

definition opt_sql :: "('a \<Rightarrow> sql_value) \<Rightarrow> 'a option \<Rightarrow> sql_value" where
  "opt_sql f v = (case v of None \<Rightarrow> SqlNull | Some x \<Rightarrow> f x)"

definition endpoint_columns :: "monitor_endpoint \<Rightarrow> sql_row" where
  "endpoint_columns r = [(''id'', SqlUuid (me_id r)), (''name'', SqlText (me_name r)), (''provider'', SqlText (me_provider r)),
     (''url'', SqlText (me_url r)), (''method'', SqlText (me_method r)), (''headers_json'', SqlJson (me_headers r)),
     (''is_active'', SqlBool (me_active r)), (''created_at'', SqlTime (me_created r)), (''updated_at'', SqlTime (me_updated r))]"

definition run_columns :: "monitor_run \<Rightarrow> sql_row" where
  "run_columns r = [(''id'', SqlUuid (mr_id r)), (''started_at'', SqlTime (mr_started r)),
     (''finished_at'', opt_sql SqlTime (mr_finished r)), (''status'', SqlText (mr_status r)),
     (''endpoints_checked'', SqlInt (int (mr_checked r))), (''snapshots_created'', SqlInt (int (mr_snapshots r))),
     (''diffs_detected'', SqlInt (int (mr_diffs r))), (''error_message'', opt_sql SqlText (mr_error r))]"

definition snapshot_columns :: "monitor_snapshot \<Rightarrow> sql_row" where
  "snapshot_columns s = [(''id'', SqlUuid (sp_id s)), (''endpoint_id'', SqlUuid (sp_endpoint s)),
     (''monitor_run_id'', SqlUuid (sp_run s)), (''schema_hash'', SqlText (sp_hash s)), (''status_code'', SqlInt (sp_status s)),
     (''response_time_ms'', SqlInt (int (sp_time_ms s))), (''response_size_bytes'', SqlInt (int (sp_size s))),
     (''normalized_schema_json'', opt_sql SqlJson (sp_schema s)), (''raw_sample_json'', opt_sql SqlJson (sp_raw s)),
     (''fetch_error'', opt_sql SqlText (sp_error s)), (''created_at'', SqlTime (sp_created s))]"

definition diff_columns :: "diff_row \<Rightarrow> sql_row" where
  "diff_columns d = [(''id'', SqlUuid (df_id d)), (''endpoint_id'', SqlUuid (df_endpoint d)),
     (''old_snapshot_id'', SqlUuid (df_old d)), (''new_snapshot_id'', SqlUuid (df_new d)), (''severity'', SqlText (df_severity d)),
     (''change_type'', SqlText (df_type d)), (''path'', SqlText (df_path d)), (''old_type'', opt_sql SqlText (df_old_type d)),
     (''new_type'', opt_sql SqlText (df_new_type d)), (''old_value_json'', opt_sql SqlJson (df_old_value d)),
     (''new_value_json'', opt_sql SqlJson (df_new_value d)), (''message'', SqlText (df_message d)),
     (''created_at'', SqlTime (df_created d))]"

definition changelog_columns :: "changelog_row \<Rightarrow> sql_row" where
  "changelog_columns l = [(''id'', SqlUuid (cl_id l)), (''endpoint_id'', SqlUuid (cl_endpoint l)),
     (''snapshot_id'', SqlUuid (cl_snapshot l)), (''diff_ids'', SqlJson (JList (map JStr (cl_diff_ids l)))),
     (''diff_set_hash'', SqlText (cl_hash l)), (''generated_text'', SqlText (cl_text l)),
     (''model_name'', opt_sql SqlText (cl_model l)), (''created_at'', SqlTime (cl_created l))]"

definition table_rows :: "mdb \<Rightarrow> string \<Rightarrow> sql_row list" where
  "table_rows db t =
     (if t = ''api_endpoints'' then map endpoint_columns (md_endpoints db)
      else if t = ''monitor_runs'' then map run_columns (md_runs db)
      else if t = ''schema_snapshots'' then map snapshot_columns (md_snaps db)
      else if t = ''schema_diffs'' then map diff_columns (md_diffs db)
      else if t = ''changelogs'' then map changelog_columns (md_logs db)
      else [])"

lemmas column_defs = plain_column_def key_column_def null_column_def ref_column_def default_column_def column_names_def

lemma opt_sql_cases: "opt_sql f v = SqlNull \<or> (\<exists>x. v = Some x \<and> opt_sql f v = f x)"
  by (simp add: opt_sql_def split: option.split)

lemma endpoint_row_ok: "row_ok api_endpoints_table (endpoint_columns r)"
  by (simp add: row_ok_def api_endpoints_table_def column_defs endpoint_columns_def value_at_def)

lemma run_row_ok:
  "mr_status r \<in> {''running'', ''success'', ''partial_failure'', ''failed''} \<Longrightarrow> row_ok monitor_runs_table (run_columns r)"
  using opt_sql_cases [of SqlTime "mr_finished r"] opt_sql_cases [of SqlText "mr_error r"]
  by (auto simp: row_ok_def monitor_runs_table_def column_defs run_columns_def value_at_def)

lemma snapshot_row_ok: "row_ok schema_snapshots_table (snapshot_columns s)"
  using opt_sql_cases [of SqlJson "sp_schema s"] opt_sql_cases [of SqlJson "sp_raw s"] opt_sql_cases [of SqlText "sp_error s"]
  by (auto simp: row_ok_def schema_snapshots_table_def column_defs snapshot_columns_def value_at_def)

lemma diff_row_ok: "df_severity d \<in> {''breaking'', ''risky'', ''safe''} \<Longrightarrow> row_ok schema_diffs_table (diff_columns d)"
  using opt_sql_cases [of SqlText "df_old_type d"] opt_sql_cases [of SqlText "df_new_type d"]
    opt_sql_cases [of SqlJson "df_old_value d"] opt_sql_cases [of SqlJson "df_new_value d"]
  by (auto simp: row_ok_def schema_diffs_table_def column_defs diff_columns_def value_at_def)

section \<open>What keeps the constraints\<close>

definition severities :: "string set" where
  "severities = {''breaking'', ''risky'', ''safe''}"

definition rows_linked :: "mdb \<Rightarrow> bool" where
  "rows_linked db \<longleftrightarrow> ids_below (md_next db) (map df_id (md_diffs db)) \<and> md_logs db = []
     \<and> (\<forall>s \<in> set (md_snaps db). sp_endpoint s \<in> me_id ` set (md_endpoints db) \<and> sp_run s \<in> mr_id ` set (md_runs db))
     \<and> (\<forall>d \<in> set (md_diffs db). df_endpoint d \<in> me_id ` set (md_endpoints db)
         \<and> df_old d \<in> sp_id ` set (md_snaps db) \<and> df_new d \<in> sp_id ` set (md_snaps db) \<and> df_severity d \<in> severities)"

lemma made_severity: "make_change t p a b c d e = Inr x \<Longrightarrow> ch_severity x \<in> severities"
  by (auto simp: make_change_def classify_change_def bind_err_eq_Inr severities_def severity_table_def
      split: option.splits if_splits)

lemma diff_severity:
  assumes "diff_schemas old new = Inr ds" "d \<in> set ds"
  shows "ch_severity d \<in> severities"
proof -
  have node: "ch_severity x \<in> severities" if "node_change m n = Inr (Some x)" for m n x
    using that made_severity by (auto simp: node_change_def bind_err_eq_Inr split: option.splits)
  from assms(1) obtain gone come both ds1 ds2 ds3 where
    "map_err (\<lambda>p. bind_err (node_of (nodes_by_path old) p) removed_change) gone = Inr ds1"
    "map_err (\<lambda>p. bind_err (node_of (nodes_by_path new) p) added_change) come = Inr ds2"
    "map_err (\<lambda>p. bind_err (node_of (nodes_by_path old) p) (\<lambda>n. bind_err (node_of (nodes_by_path new) p) (node_change n))) both = Inr ds3"
    "ds = ds1 @ ds2 @ concat (map (\<lambda>d. case d of None \<Rightarrow> [] | Some d \<Rightarrow> [d]) ds3)"
    unfolding diff_schemas_def Let_def bind_err_eq_Inr by blast
  note D = this(4) and S = this(1-3) [THEN map_err_Inr_D]
  have "\<exists>m. removed_change m = Inr x" if "x \<in> set ds1" for x using that S(1) by (auto simp: bind_err_eq_Inr)
  moreover have "\<exists>m. added_change m = Inr x" if "x \<in> set ds2" for x using that S(2) by (auto simp: bind_err_eq_Inr)
  moreover have "\<exists>m n. node_change m n = Inr (Some x)" if "Some x \<in> set ds3" for x using that S(3) by (auto simp: bind_err_eq_Inr)
  moreover have "d \<in> set ds1 \<or> d \<in> set ds2 \<or> Some d \<in> set ds3" using assms(2) D by (auto split: option.splits)
  ultimately show ?thesis using made_severity node unfolding removed_change_def added_change_def by metis
qed

lemma added_linked:
  assumes "rows_linked db" "add_snapshot f db = (i, db')"
    and "\<And>i. sp_id (f i) = i \<and> sp_endpoint (f i) \<in> me_id ` set (md_endpoints db) \<and> sp_run (f i) \<in> mr_id ` set (md_runs db)"
  shows "rows_linked db'" "i \<in> sp_id ` set (md_snaps db')" "md_endpoints db' = md_endpoints db" "md_runs db' = md_runs db"
proof -
  have e: "i = row_id (md_next db)" "db' = db\<lparr>md_next := Suc (md_next db), md_snaps := md_snaps db @ [f i]\<rparr>"
    using assms(2) by (auto simp: add_snapshot_def Let_def)
  have "ids_below (Suc (md_next db)) (map df_id (md_diffs db))"
    using assms(1) ids_below_mono [of "md_next db"] by (simp add: rows_linked_def)
  then show "rows_linked db'" using assms(1,3) unfolding e(2) rows_linked_def by auto
  show "i \<in> sp_id ` set (md_snaps db')" "md_endpoints db' = md_endpoints db" "md_runs db' = md_runs db"
    using assms(3) by (auto simp: e(2) image_iff)
qed

lemma diffs_linked:
  assumes "rows_linked db" "e \<in> me_id ` set (md_endpoints db)" "old \<in> sp_id ` set (md_snaps db)"
    "new \<in> sp_id ` set (md_snaps db)" "\<And>d. d \<in> set ds \<Longrightarrow> ch_severity d \<in> severities"
  shows "rows_linked (add_diffs env e old new ds db)"
  using assms
proof (induction ds arbitrary: db)
  case (Cons d ds)
  let ?db = "db\<lparr>md_next := Suc (md_next db), md_diffs := md_diffs db @ [new_diff_row env (row_id (md_next db)) e old new d]\<rparr>"
  have "ids_below (Suc (md_next db)) (map df_id (md_diffs db) @ [row_id (md_next db)])"
    using Cons.prems(1) by (intro ids_below_add [of "md_next db"]) (simp_all add: rows_linked_def)
  then have "rows_linked ?db" using Cons.prems by (auto simp: rows_linked_def new_diff_row_def)
  then show ?case using Cons.IH [of ?db] Cons.prems(2-5) by simp
qed simp

lemma process_linked:
  assumes p: "process_endpoint env run_id ep db = (r, db')" and l: "rows_linked db"
    and ep: "me_id ep \<in> me_id ` set (md_endpoints db)" and run: "run_id \<in> mr_id ` set (md_runs db)"
  shows "rows_linked db'"
proof -
  have new: "sp_id (new_snapshot env i run_id ep fetch h s x) = i
      \<and> sp_endpoint (new_snapshot env i run_id ep fetch h s x) \<in> me_id ` set (md_endpoints db)
      \<and> sp_run (new_snapshot env i run_id ep fetch h s x) \<in> mr_id ` set (md_runs db)" for i fetch h s x
    using ep run by (simp add: new_snapshot_def)
  let ?fetch = "fetch_endpoint (mv_timeout env) (mv_answer env ep)"
  show ?thesis
  proof (cases "fetch_ok ?fetch")
    case False
    then obtain i where "add_snapshot (\<lambda>i. new_snapshot env i run_id ep ?fetch (error_prefix @ err_text (fr_error ?fetch)) None None) db = (i, db')"
      using p by (auto simp: process_endpoint_def Let_def split: prod.splits)
    then show ?thesis by (rule added_linked(1) [OF l _ new])
  next
    case True
    let ?body = "normalize (mv_float_text env) (mv_max_bytes env) None (py_body ?fetch)"
    let ?f = "\<lambda>i. new_snapshot env i run_id ep ?fetch (stable_schema_hash (mv_sha256 env) (infer_schema ?body))
        (Some (JList (map node_json (infer_schema ?body)))) (Some ?body)"
    obtain i db1 where a: "add_snapshot ?f db = (i, db1)" by (metis surj_pair)
    note A = added_linked [OF l a new]
    have "db' = db1 \<or> (\<exists>prior old ds. get_prior_snapshot db1 (me_id ep) i = Some prior \<and> diff_schemas old (infer_schema ?body) = Inr ds
        \<and> db' = add_diffs env (me_id ep) (sp_id prior) i ds db1)"
      using p True by (auto simp: process_endpoint_def Let_def a bind_err_eq_Inr split: option.splits if_splits sum.splits)
    then show ?thesis
    proof (elim disjE exE conjE)
      fix prior old ds
      assume g: "get_prior_snapshot db1 (me_id ep) i = Some prior" and d: "diff_schemas old (infer_schema ?body) = Inr ds"
        and e: "db' = add_diffs env (me_id ep) (sp_id prior) i ds db1"
      have "prior \<in> set (md_snaps db1)" using g unfolding get_prior_snapshot_def by (auto dest!: first_row_Some_set)
      then show ?thesis unfolding e using ep A(2) diff_severity [OF d] by (intro diffs_linked [OF A(1)]) (simp_all add: A(3))
    qed (simp add: A(1))
  qed
qed

lemma process_all_linked:
  assumes "process_all env run_id eps db = (rs, db')" "rows_linked db"
    and "me_id ` set eps \<subseteq> me_id ` set (md_endpoints db)" "run_id \<in> mr_id ` set (md_runs db)"
  shows "rows_linked db'"
  using assms
proof (induction eps arbitrary: db rs)
  case (Cons ep eps)
  obtain r db1 where 1: "process_endpoint env run_id ep db = (r, db1)" by fastforce
  obtain rs' where 2: "process_all env run_id eps db1 = (rs', db')" using Cons.prems(1) 1 by (auto split: prod.splits)
  have same: "md_endpoints db1 = md_endpoints db" "md_runs db1 = md_runs db" by (rule process_effect [OF 1], assumption)+
  have "rows_linked db1" using process_linked [OF 1 Cons.prems(2)] Cons.prems(3,4) by simp
  from Cons.IH [OF 2 this] Cons.prems(3,4) same show ?case by simp
qed simp

lemma sweep_linked:
  assumes l: "rows_linked db" shows "rows_linked (sweep_endpoint env e db)"
proof -
  let ?view = "\<lambda>s. (sp_id s, sp_endpoint s, sp_run s)" and ?new = "sweep_endpoint env e db"
  have same: "map ?view (update_where q (\<lambda>s. s\<lparr>sp_raw := stored_none env\<rparr>) xs) = map ?view xs" for q xs
    by (rule map_update_where) simp
  have "map ?view (md_snaps ?new) = map ?view (md_snaps db)"
  proof (cases "keep_ids (mv_keep env) db e = []")
    case True
    then have "?new = db" by (simp add: sweep_endpoint_def)
    then show ?thesis by (simp only:)
  next
    case False
    then have "md_snaps ?new = update_where (\<lambda>s. sp_endpoint s = e \<and> sp_id s \<notin> set (keep_ids (mv_keep env) db e)
        \<and> sp_raw s \<noteq> None) (\<lambda>s. s\<lparr>sp_raw := stored_none env\<rparr>) (md_snaps db)"
      by (simp add: sweep_endpoint_def Let_def)
    then show ?thesis by (simp only: same)
  qed
  from arg_cong [OF this, of set]
  have v: "?view ` set (md_snaps ?new) = ?view ` set (md_snaps db)" by (simp only: set_map)
  from arg_cong [OF this, of "image fst"]
  have ids: "sp_id ` set (md_snaps ?new) = sp_id ` set (md_snaps db)" by (simp only: image_image fst_conv)
  have snaps: "sp_endpoint s \<in> me_id ` set (md_endpoints db) \<and> sp_run s \<in> mr_id ` set (md_runs db)"
    if "s \<in> set (md_snaps ?new)" for s
  proof -
    have "?view s \<in> ?view ` set (md_snaps db)" using that unfolding v [symmetric] by (rule imageI)
    then obtain s' where "s' \<in> set (md_snaps db)" "sp_endpoint s = sp_endpoint s'" "sp_run s = sp_run s'" by auto
    then show ?thesis using l by (simp add: rows_linked_def)
  qed
  have "md_logs ?new = md_logs db" by (simp add: sweep_endpoint_def Let_def)
  then show ?thesis using l snaps unfolding rows_linked_def sweep_frame ids by simp
qed

lemma retention_linked:
  assumes "rows_linked db" shows "rows_linked (retention_sweep env db)"
proof -
  have "rows_linked (fold (sweep_endpoint env) es db)" if "rows_linked db" for es db
    using that by (induction es arbitrary: db) (simp_all add: sweep_linked)
  then show ?thesis using assms by (simp add: retention_sweep_def)
qed

lemma upsert_linked:
  assumes "upsert_endpoints env db = Inr (eps, db')" "monitor_wf db" "rows_linked db"
  shows "rows_linked db'"
proof -
  note U = upsert_endpoints_wf [OF assms(1,2)]
  have "ids_below (md_next db') (map df_id (md_diffs db))"
    using assms(3) U ids_below_mono [of "md_next db"] by (simp add: rows_linked_def)
  then show ?thesis using assms(3) U unfolding rows_linked_def by auto
qed

lemma run_linked:
  assumes "run_monitor env True db = (Inr i, db')" "monitor_wf db" "rows_linked db"
  shows "rows_linked db'"
proof (rule run_monitor_steps [OF assms(1,2)])
  fix eps s1 results s2
  let ?start = "db\<lparr>md_next := Suc (md_next db), md_runs := md_runs db @ [new_run env i]\<rparr>"
  assume u: "upsert_endpoints env ?start = Inr (eps, s1)" and p: "process_all env i eps s1 = (results, s2)"
    and wf: "monitor_wf s1" and i: "i = row_id (md_next db)"
    and db': "db' = (retention_sweep env s2)\<lparr>md_runs := md_runs db @ [finish_run env (length eps) results (new_run env i)]\<rparr>"
  have wf0: "monitor_wf ?start"
  proof -
    have "ids_below (Suc (md_next db)) (map mr_id (md_runs db) @ [i])"
      unfolding i using assms(2) by (intro ids_below_add [of "md_next db"]) (simp_all add: monitor_wf_def)
    then show ?thesis
      using assms(2) ids_below_mono [of "md_next db" _ "Suc (md_next db)"] by (simp add: monitor_wf_def new_run_def)
  qed
  have "rows_linked ?start"
    using assms(3) ids_below_mono [of "md_next db" _ "Suc (md_next db)"] by (auto simp: rows_linked_def)
  from upsert_linked [OF u wf0 this] have l1: "rows_linked s1" .
  note U = upsert_endpoints_wf [OF u wf0]
  have runs1: "md_runs s1 = md_runs db @ [new_run env i]" using U by simp
  have "rows_linked s2"
    by (rule process_all_linked [OF p l1]) (use U runs1 in \<open>auto simp: new_run_def\<close>)
  then have l2: "rows_linked (retention_sweep env s2)" by (rule retention_linked)
  have "md_runs s2 = md_runs db @ [new_run env i]" using process_all_effect [OF p wf] runs1 by simp
  then have "mr_id ` set (md_runs (retention_sweep env s2)) = mr_id ` set (md_runs db')"
    by (simp add: db' finish_run_def)
  then show "rows_linked db'" using l2 unfolding rows_linked_def by (simp add: db')
qed

lemma reachable_rows:
  assumes "monitor_reachable db"
  shows "monitor_wf db \<and> rows_linked db \<and> (\<forall>r \<in> set (md_runs db). mr_status r \<in> {''success'', ''partial_failure''})"
  using assms
proof induction
  case empty
  then show ?case by (simp add: monitor_wf_def ids_below_def rows_linked_def)
next
  case (run db env got_lock r db')
  show ?case
  proof (cases "\<exists>i. got_lock \<and> r = Inr i")
    case True
    then obtain i where r: "run_monitor env True db = (Inr i, db')" using run.hyps(2) by auto
    have "rows_linked db'" using run_linked [OF r] run.IH by blast
    moreover obtain x where "md_runs db' = md_runs db @ [x]" "mr_status x = ''success'' \<or> mr_status x = ''partial_failure''"
      "monitor_wf db'" by (rule run_effect [OF r run.IH [THEN conjunct1]])
    ultimately show ?thesis using run.IH by auto
  next
    case False
    then have "db' = db"
      using run.hyps(2) failed_run [OF run.IH [THEN conjunct1], of env]
      by (auto simp: run_monitor_def Let_def split: if_splits sum.splits prod.splits)
    with run.IH show ?thesis by simp
  qed
qed

section \<open>The constraints of the committed tables\<close>

lemma distinct_key:
  assumes "\<And>x. value_at (g x) k = c (f x)" "inj c" "\<And>y. c y \<noteq> SqlNull"
  shows "distinct (key_values [k] (map g xs)) = distinct (map f xs)"
proof -
  have "SqlNull \<noteq> c y" for y using assms(3) [of y] by simp
  then have "key_values [k] (map g xs) = map (\<lambda>y. [c y]) (map f xs)"
    by (simp add: key_values_def assms(1) comp_def filter_id_conv)
  moreover have "inj (\<lambda>y. [c y])" using assms(2) by (auto simp: inj_def)
  ultimately show ?thesis by (simp only: distinct_map inj_on_subset [OF _ subset_UNIV]) simp
qed

lemma migrated_tables:
  "cat_tables migrated = [api_endpoints_table, monitor_runs_table, schema_snapshots_table, schema_diffs_table, changelogs_table]"
  by code_simp

lemma uuid_key:
  assumes "\<And>x. value_at (g x) k = SqlUuid (f x)" "distinct (map f xs)"
  shows "distinct (key_values [k] (map g xs))"
  using assms by (subst distinct_key [where c = SqlUuid and f = f]) (simp_all add: inj_def)

lemma endpoints_ok:
  assumes "monitor_wf db" shows "table_ok (table_rows db) api_endpoints_table"
proof -
  have rows: "table_rows db (td_name api_endpoints_table) = map endpoint_columns (md_endpoints db)"
    by (simp add: table_rows_def api_endpoints_table_def)
  have "distinct (key_values [''id''] (map endpoint_columns (md_endpoints db)))"
    using assms by (intro uuid_key [where f = me_id]) (simp_all add: endpoint_columns_def value_at_def monitor_wf_def ids_below_def)
  moreover have "distinct (key_values [''name''] (map endpoint_columns (md_endpoints db)))"
    using assms by (subst distinct_key [where c = SqlText and f = me_name])
      (simp_all add: endpoint_columns_def value_at_def monitor_wf_def inj_def)
  ultimately show ?thesis
    unfolding table_ok_def Let_def rows
    by (simp add: list_all_iff endpoint_row_ok) (simp add: api_endpoints_table_def column_defs)
qed

lemma runs_ok:
  assumes "monitor_wf db" "\<forall>r \<in> set (md_runs db). mr_status r \<in> {''success'', ''partial_failure''}"
  shows "table_ok (table_rows db) monitor_runs_table"
proof -
  have rows: "table_rows db (td_name monitor_runs_table) = map run_columns (md_runs db)"
    by (simp add: table_rows_def monitor_runs_table_def)
  have "distinct (key_values [''id''] (map run_columns (md_runs db)))"
    using assms(1) by (intro uuid_key [where f = mr_id]) (simp_all add: run_columns_def value_at_def monitor_wf_def ids_below_def)
  moreover have "row_ok monitor_runs_table (run_columns r)" if "r \<in> set (md_runs db)" for r
    using assms(2) that by (intro run_row_ok) auto
  ultimately show ?thesis
    unfolding table_ok_def Let_def rows
    by (simp add: list_all_iff) (simp add: monitor_runs_table_def column_defs)
qed

lemma snapshots_ok:
  assumes "monitor_wf db" "rows_linked db" shows "table_ok (table_rows db) schema_snapshots_table"
proof -
  have rows: "table_rows db (td_name schema_snapshots_table) = map snapshot_columns (md_snaps db)"
    by (simp add: table_rows_def schema_snapshots_table_def)
  have "distinct (key_values [''id''] (map snapshot_columns (md_snaps db)))"
    using assms(1) by (intro uuid_key [where f = sp_id]) (simp_all add: snapshot_columns_def value_at_def monitor_wf_def ids_below_def)
  moreover have "value_at (snapshot_columns s) ''endpoint_id'' \<in> (\<lambda>r. value_at r ''id'') ` set (table_rows db ''api_endpoints'')"
    "value_at (snapshot_columns s) ''monitor_run_id'' \<in> (\<lambda>r. value_at r ''id'') ` set (table_rows db ''monitor_runs'')"
    if "s \<in> set (md_snaps db)" for s
    using assms(2) that by (auto simp: rows_linked_def table_rows_def value_at_def snapshot_columns_def endpoint_columns_def run_columns_def image_iff)
  ultimately show ?thesis
    unfolding table_ok_def Let_def rows
    by (simp add: list_all_iff snapshot_row_ok) (simp add: schema_snapshots_table_def column_defs list_all_iff)
qed

lemma diffs_ok:
  assumes "rows_linked db" shows "table_ok (table_rows db) schema_diffs_table"
proof -
  have rows: "table_rows db (td_name schema_diffs_table) = map diff_columns (md_diffs db)"
    by (simp add: table_rows_def schema_diffs_table_def)
  have "distinct (key_values [''id''] (map diff_columns (md_diffs db)))"
    using assms by (intro uuid_key [where f = df_id]) (simp_all add: diff_columns_def value_at_def rows_linked_def ids_below_def)
  moreover have "row_ok schema_diffs_table (diff_columns d)" if "d \<in> set (md_diffs db)" for d
    using assms that by (intro diff_row_ok) (simp add: rows_linked_def severities_def)
  moreover have "value_at (diff_columns d) ''endpoint_id'' \<in> (\<lambda>r. value_at r ''id'') ` set (table_rows db ''api_endpoints'')"
    "value_at (diff_columns d) ''old_snapshot_id'' \<in> (\<lambda>r. value_at r ''id'') ` set (table_rows db ''schema_snapshots'')"
    "value_at (diff_columns d) ''new_snapshot_id'' \<in> (\<lambda>r. value_at r ''id'') ` set (table_rows db ''schema_snapshots'')"
    if "d \<in> set (md_diffs db)" for d
    using assms that by (auto simp: rows_linked_def table_rows_def value_at_def snapshot_columns_def endpoint_columns_def diff_columns_def image_iff)
  ultimately show ?thesis
    unfolding table_ok_def Let_def rows
    by (simp add: list_all_iff) (simp add: schema_diffs_table_def column_defs list_all_iff)
qed

lemma changelogs_ok:
  assumes "rows_linked db" shows "table_ok (table_rows db) changelogs_table"
proof -
  have rows: "table_rows db (td_name changelogs_table) = []"
    using assms by (simp add: table_rows_def changelogs_table_def rows_linked_def)
  show ?thesis unfolding table_ok_def Let_def rows
    by (auto simp: key_values_def list_all_iff split: option.splits)
qed

text \<open>C22: No committed state of the monitor violates a constraint of its database. For the tables that the
  migration creates, after any sequence of runs (with any registry, any answers of the servers, any
  lock) every row has a value of the right type in every column and nulls only where they are
  allowed, primary and unique keys do not repeat, the states of runs and the severities are among
  the allowed ones, and every foreign key refers to a row that is there.\<close>

theorem monitor_keeps_constraints:
  assumes "monitor_reachable db"
  shows "constraints_hold migrated (table_rows db)"
  using reachable_rows [OF assms] endpoints_ok runs_ok snapshots_ok diffs_ok changelogs_ok
  unfolding constraints_hold_def migrated_tables by simp

text \<open>A first run with an answer of the server, and a row that refers to no endpoint.\<close>

lemma monitor_keeps_constraints_witness:
  "constraints_hold migrated (table_rows (snd (run_monitor (monitor_demo Timed_Out) True
     \<lparr>md_next = 0, md_endpoints = [], md_runs = [], md_snaps = [], md_diffs = [], md_logs = []\<rparr>)))
   \<and> \<not> constraints_hold migrated (table_rows (demo_mdb\<lparr>md_endpoints := []\<rparr>))"
proof
  show "\<not> constraints_hold migrated (table_rows (demo_mdb\<lparr>md_endpoints := []\<rparr>))" by code_simp
qed (intro monitor_keeps_constraints monitor_reachable.run [OF monitor_reachable.empty], rule surjective_pairing)

end
