(* ===== verification/Spec2Isabelle.thy ===== *)
theory Spec2Isabelle
  imports Classifier_Facts Registry_Lock Outbox_Race Review_Cases Openapi_Facts Migrations
    Benchmark_Facts Simulator Guard_Crash Guard_Routes Monitor_Routes Monitor_Tables
begin

text \<open>
  DRIFTGATE watches the contracts of JSON services. It has two parts that share no code.

  The runtime guard (\<^verbatim>\<open>app/\<close>) receives payloads at \<open>/track\<close>. A payload becomes a canonical schema and a
  fingerprint; a new fingerprint becomes the next version of its endpoint in a registry; the
  difference from the version before is classified; and the subscribers the drift affects are
  notified through an outbox, a worker and webhooks, with one dead letter queue for deliveries and
  one for published events. Beside it run a legacy path with tables of its own, a document store
  and a review of contracts by a language model that is checked against collected evidence.

  The monitor (\<^verbatim>\<open>backend/app/\<close>) polls registered endpoints, infers a schema from each body, compares it
  with the latest stored one and keeps changes, runs and changelogs.

  Scripts (\<^verbatim>\<open>scripts/\<close>) check OpenAPI documents, apply migrations, simulate load, evaluate the review and
  summarize benchmarks; \<^verbatim>\<open>simulator/main.py\<close> is a service that drifts.
\<close>

section \<open>Theories and source files\<close>

text \<open>
  Shared. \<open>Drift_Prelude\<close> (results with errors, dicts in insertion order, sorted sets), \<open>Py_Text\<close>
  (methods of \<open>str\<close>), \<open>Json\<close> (values, \<open>json.dumps\<close>, \<open>str\<close> and \<open>repr\<close>), \<open>Keyed_Table\<close> (the locale of
  an upsert on a key), \<open>Path_Diff\<close> (the locale of a diff of two dicts of paths), \<open>Runtime_Tables\<close> (the
  tables of \<^verbatim>\<open>migrations/\<close> as lists of rows, the clock and the generator of identifiers).

  Runtime guard.
  \<^item> \<open>Canonical\<close>, \<open>Severity\<close>, \<open>Classifier\<close>: \<^verbatim>\<open>runtime/canonical.py\<close>, \<^verbatim>\<open>models.py\<close>, \<^verbatim>\<open>classifier.py\<close>.
  \<^item> \<open>Registry\<close>, \<open>Registry_Lock\<close>: \<^verbatim>\<open>runtime/registry.py\<close>, one request at a time, and many requests as a
    step relation with the advisory lock.
  \<^item> \<open>Subscriptions\<close>: \<^verbatim>\<open>runtime/subscriptions.py\<close>, \<^verbatim>\<open>api/subscriptions.py\<close>.
  \<^item> \<open>Document_Store\<close>: \<^verbatim>\<open>runtime/document_store.py\<close>, both stores.
  \<^item> \<open>Webhook\<close>, \<open>Outbox\<close>, \<open>Outbox_Race\<close>: \<^verbatim>\<open>runtime/webhook.py\<close>, \<^verbatim>\<open>workers/outbox_worker.py\<close>, one worker, and
    two workers as a step relation with their row locks.
  \<^item> \<open>Event_Dlq\<close>: \<^verbatim>\<open>runtime/events.py\<close>, \<^verbatim>\<open>event_backends.py\<close>, \<^verbatim>\<open>drift_event_dlq.py\<close>.
  \<^item> \<open>Legacy_Parser\<close>, \<open>Legacy_Engine\<close>: \<^verbatim>\<open>core/parser.py\<close>, \<^verbatim>\<open>core/engine.py\<close>.
  \<^item> \<open>Track\<close>: \<^verbatim>\<open>runtime/service.py\<close> and the handlers of \<^verbatim>\<open>main.py\<close>, composed of all of the above.
  \<^item> \<open>Review_Heuristic\<close>, \<open>Review_Providers\<close>, \<open>Review_Graph\<close>: \<^verbatim>\<open>runtime/contract_review.py\<close>, \<^verbatim>\<open>api/ai.py\<close>.
  \<^item> \<open>Guard_System\<close>, \<open>Guard_Facts\<close>: the guard as one system, a run of any operations above with any answers
    from outside; \<open>guard_op\<close> has one constructor per route that writes, per turn of the worker and for time.
  \<^item> \<open>Guard_Crash\<close>: a poll cut off when the service stops (\<open>lifespan\<close> in \<^verbatim>\<open>main.py\<close>), and every run after it.
  \<^item> \<open>Guard_Routes\<close>: the listings of \<^verbatim>\<open>api/reliability.py\<close> and \<^verbatim>\<open>api/ai.py\<close>.

  Monitor.
  \<^item> \<open>Schema_Infer\<close>, \<open>Schema_Changes\<close>: \<^verbatim>\<open>core/schema_infer.py\<close>; \<^verbatim>\<open>schema_diff.py\<close>, \<^verbatim>\<open>severity.py\<close>,
    \<^verbatim>\<open>canonical.py\<close>, \<^verbatim>\<open>normalizer.py\<close>.
  \<^item> \<open>Monitor\<close>: \<^verbatim>\<open>models.py\<close>, \<^verbatim>\<open>core/fetcher.py\<close>, \<^verbatim>\<open>registry_loader.py\<close>, \<^verbatim>\<open>locking.py\<close>, \<^verbatim>\<open>workers/monitor_runner.py\<close>.
  \<^item> \<open>Changelog\<close>: \<^verbatim>\<open>core/changelog.py\<close> and the routes of \<^verbatim>\<open>api/\<close>.
  \<^item> \<open>Monitor_Routes\<close>: \<^verbatim>\<open>schemas.py\<close>, the responses of the routes, and \<^verbatim>\<open>api/health.py\<close>.
  \<^item> \<open>Monitor_Tables\<close>: \<^verbatim>\<open>alembic/versions/0001_init.py\<close>, the tables \<^verbatim>\<open>models.py\<close> declares, and their constraints.

  Scripts. \<open>Openapi_Diff\<close>, \<open>Review_Cases\<close>, \<open>Simulation\<close>, \<open>Migrations\<close>, \<open>Benchmarks\<close>, \<open>Simulator\<close>.

  A theory \<open>X_Facts\<close> holds the longer proofs about the definitions of \<open>X\<close> (\<open>Infer_Facts\<close> and
  \<open>Change_Facts\<close> those of the inferred schema and of the diff); \<open>Outbox_Live\<close> those about many polls.
\<close>

section \<open>State and errors\<close>

text \<open>
  The database of the guard is one record \<open>rdb\<close>: its tables, the gauges and counters the code moves,
  the clock \<open>now\<close> in microseconds and the next identifier. An operation takes the state and returns
  it, a transaction that is rolled back returns the state before. Fallible operations return
  \<open>py_error + 'a\<close>, so that every raise is a branch. A dict is a list of pairs in insertion order, a
  float its decimal text. The locales \<open>path_diff\<close>, \<open>keyed_table\<close>, \<open>doc_backend\<close> and \<open>schema_compare\<close> are
  the contracts shared by components; each is interpreted on the definitions of the code.
\<close>

section \<open>What the lemmas show\<close>

text \<open>
  \<^item> The canonical schema identifies payloads of one shape; the diff of two payloads lists each path
    once, by a table of cases, its verdict is the worst class, and plain payloads never make it fail.
  \<^item> The registry refines an append-only log per endpoint; its versions form chains with one current
    version, also under concurrent requests, which never block for good.
  \<^item> A request keeps the invariant of all tables; a drift makes a new current version, is reported and
    enqueues one row per affected subscription; a known schema is silent.
  \<^item> A delivery, a poll and a replay follow their protocols; after a bounded number of polls every
    pending row is delivered or dead lettered, and so is every drift for every subscriber.
  \<^item> The guard as a system: in every reachable state all tables are well formed and no notification is
    lost, over every run what is recorded stays, from every reachable state the worker settles every
    row, and listings are bounded and only read; a stop in the middle of a poll strands its row. The invariant is one lemma per operation
    (\<open>Guard_System\<close>) and an induction over the reachable states.
  \<^item> A review is always returned, valid and grounded in its evidence.
  \<^item> An inferred schema describes its body; the monitor's diff is a reference table; a run's counters
    agree with its rows, and what is committed satisfies every constraint of the migrated tables,
    which are the tables the models declare.
  \<^item> The scripts: both document checks against one predicate, migrations applied once, the outcome of
    the simulation, the meaning of the evaluation's rates, and one document of a benchmark.
  \<^item> Theorems that state a flaw of the code say so in their text.
\<close>

section \<open>Parameters, bounds and fuel\<close>

text \<open>
  Arguments of the model: the digests (injective where a property needs it), the servers of the
  consumers, the event publisher, the Mongo driver, the language model and its client, the fetched
  bodies, the k6 process, the SQL of a migration file, measured times. No property needs fuel: loops
  are structural or bounded by a given number of attempts. \<open>run_outbox_worker\<close> and \<open>run\<close>-like loops take
  the number of rounds before the stop event; \<open>polls_per_attempt\<close> is the number of polls in the longest
  backoff of 60 seconds and one more, so \<open>work db * polls_per_attempt t\<close> rounds serve every attempt
  that is left. The worker of \<open>Outbox_Live\<close> runs alone; two workers are \<open>Outbox_Race\<close>.
  In \<open>Guard_System\<close> each operation is one step that runs to its end (\<open>Guard_Crash\<close> has the one that does not): requests that run at the same time share the registry
  only, which is \<open>Registry_Lock\<close>.
\<close>

section \<open>Not modelled\<close>

text \<open>
  Start-up, settings and engines (\<^verbatim>\<open>app/db.py\<close>, \<^verbatim>\<open>backend/app/config.py\<close>, \<^verbatim>\<open>database.py\<close>, \<^verbatim>\<open>main.py\<close>),
  declarations of metrics and the histograms of measured
  times (\<^verbatim>\<open>app/runtime/metrics.py\<close>), the table definitions in SQL of the guard (\<^verbatim>\<open>migrations/\<close>; their keys are the
  invariants above), argument parsers and printed text: input and output, or declarations. The
  gateway, the frontend, the k6 scripts and the dashboards are not Python.
\<close>

end
